(* ===== verification/Prelude.thy ===== *)
theory Prelude
  imports Main "HOL-Library.Word" "HOL-Library.Code_Target_Nat"
begin

unbundle bit_operations_syntax

text \<open>
  Shared vocabulary of the development.

  \<^item> The machine integer types of the Rust sources as words of their width. A signed
    type is the word of the same width, read with \<open>sint\<close>; \<open>as\<close> casts between a signed and
    an unsigned type of one width are therefore the identity, widening casts of an unsigned
    type are \<open>ucast\<close> and of a signed type \<open>scast\<close>.
  \<^item> \<open>Result<T, E>\<close> as the sum \<open>'e + 'a\<close> with \<open>Ok\<close> and \<open>Err\<close>, and the \<open>?\<close> operator as
    \<open>and_then\<close>.
  \<^item> The standard-library operations the sources use: big-endian conversions, the UTF-8
    validity check of \<open>str::from_utf8\<close>, \<open>chars().count()\<close>, \<open>BTreeMap\<close> bookkeeping.
  \<^item> Generic lemmas on lists, sums and words.
\<close>

section \<open>Machine integers\<close>

type_synonym u8 = "8 word"
type_synonym u16 = "16 word"
type_synonym u32 = "32 word"
type_synonym u64 = "64 word"
type_synonym u128 = "128 word"
type_synonym i8 = "8 word"
type_synonym i16 = "16 word"
type_synonym i32 = "32 word"
type_synonym i64 = "64 word"

named_theorems wire_simps \<open>rewrite rules that run a writer against a reader\<close>

section \<open>Results\<close>

abbreviation Ok :: "'a \<Rightarrow> 'e + 'a" where "Ok \<equiv> Inr"
abbreviation Err :: "'e \<Rightarrow> 'e + 'a" where "Err \<equiv> Inl"

text \<open>The \<open>?\<close> operator: run the rest on success, return the error otherwise.\<close>

definition and_then :: "'e + 'a \<Rightarrow> ('a \<Rightarrow> 'e + 'b) \<Rightarrow> 'e + 'b" where
  "and_then m f = (case m of Err e \<Rightarrow> Err e | Ok x \<Rightarrow> f x)"

lemma and_then_Ok [simp]: "and_then (Ok x) f = f x"
  by (simp add: and_then_def)

lemma and_then_Err [simp]: "and_then (Err e) f = Err e"
  by (simp add: and_then_def)

lemma and_then_eq_Ok [simp]: "and_then m f = Ok y \<longleftrightarrow> (\<exists>x. m = Ok x \<and> f x = Ok y)"
  by (cases m) auto

lemma and_then_eq_Err: "and_then m f = Err e \<longleftrightarrow> m = Err e \<or> (\<exists>x. m = Ok x \<and> f x = Err e)"
  by (cases m) auto

lemma and_then_cong [fundef_cong]:
  "m = m' \<Longrightarrow> (\<And>x. m' = Ok x \<Longrightarrow> f x = g x) \<Longrightarrow> and_then m f = and_then m' g"
  by (cases m') auto

text \<open>
  Code that may fail after it has changed a state: the state is returned in both cases.
\<close>

type_synonym ('s, 'e, 'a) fallible = "'s \<Rightarrow> ('e + 'a) \<times> 's"

definition pure_st :: "'e + 'a \<Rightarrow> ('s, 'e, 'a) fallible" where
  "pure_st r s = (r, s)"

definition bind_st ::
  "('s, 'e, 'a) fallible \<Rightarrow> ('a \<Rightarrow> ('s, 'e, 'b) fallible) \<Rightarrow> ('s, 'e, 'b) fallible" where
  "bind_st m f s = (case m s of (Err e, s') \<Rightarrow> (Err e, s') | (Ok x, s') \<Rightarrow> f x s')"

lemma pure_st_eq [simp]: "pure_st r s = (r, s)"
  by (simp add: pure_st_def)

lemma bind_st_Ok:
  "bind_st m f s = (Ok y, s'') \<longleftrightarrow> (\<exists>x s'. m s = (Ok x, s') \<and> f x s' = (Ok y, s''))"
  by (auto simp: bind_st_def split: prod.splits sum.splits)

lemma bind_st_run: "m s = (Ok x, s') \<Longrightarrow> bind_st m f s = f x s'"
  by (simp add: bind_st_def)

lemma bind_st_trans: "m s = (Ok x, s') \<Longrightarrow> f x s' = r \<Longrightarrow> bind_st m f s = r"
  by (simp add: bind_st_def)

lemma bind_st_cases:
  assumes "bind_st m f s = (r, s'')"
  obtains (error) e where "m s = (Err e, s'')" "r = Err e"
  | (ok) x s' where "m s = (Ok x, s')" "f x s' = (r, s'')"
  using assms by (auto simp: bind_st_def split: prod.splits sum.splits)

section \<open>Words\<close>

lemma mask_7: "(mask 7 :: 'a::len word) = 0x7F"
  by (simp add: mask_numeral)

lemma unat_drop_bit_less:
  assumes "drop_bit (Suc n) (v::'a::len word) \<noteq> 0"
  shows "unat (drop_bit (Suc n) v) < unat v"
proof -
  have eq: "unat (drop_bit (Suc n) v) = unat v div 2 ^ Suc n"
    unfolding unat_drop_bit_eq by (simp only: drop_bit_eq_div)
  have "unat (drop_bit (Suc n) v) \<noteq> 0"
    using assms by (simp add: unat_eq_0)
  then have "0 < unat v" using eq by (metis div_0 gr0I)
  moreover have "Suc 0 < 2 ^ Suc n" by (rule one_less_power [where 'a = nat, simplified]) auto
  ultimately show ?thesis unfolding eq by (intro div_less_dividend) auto
qed

section \<open>Big-endian bytes\<close>

text \<open>\<open>to_be_bytes\<close> and \<open>from_be_bytes\<close> for an integer of \<open>n\<close> bytes.\<close>

fun to_be_bytes :: "nat \<Rightarrow> 'a::len word \<Rightarrow> u8 list" where
  "to_be_bytes 0 v = []"
| "to_be_bytes (Suc n) v = ucast (drop_bit (8 * n) v) # to_be_bytes n v"

fun from_be_bytes :: "u8 list \<Rightarrow> 'a::len word" where
  "from_be_bytes [] = 0"
| "from_be_bytes (b # bs) = push_bit (8 * length bs) (ucast b) OR from_be_bytes bs"

lemma length_to_be_bytes [simp]: "length (to_be_bytes n v) = n"
  by (induction n) auto

lemma from_to_be_bytes_take_bit:
  "from_be_bytes (to_be_bytes n (v::'a::len word)) = take_bit (8 * n) v"
proof (induction n)
  case 0
  then show ?case by simp
next
  case (Suc n)
  have "push_bit (8 * n) (ucast (ucast (drop_bit (8 * n) v) :: u8)) OR take_bit (8 * n) v
      = take_bit (8 * Suc n) v"
    by (rule bit_word_eqI) (auto simp: bit_simps)
  with Suc show ?case by simp
qed

lemma from_to_be_bytes:
  "LENGTH('a) = 8 * n \<Longrightarrow> from_be_bytes (to_be_bytes n (v::'a::len word)) = v"
  by (simp add: from_to_be_bytes_take_bit take_bit_word_eq_self)

lemma bit_from_be_bytes: "bit (from_be_bytes bs :: 'a::len word) k \<Longrightarrow> k < 8 * length bs"
proof (induction bs)
  case (Cons b bs)
  have "k < 8 * length (b # bs)" if "bit (push_bit (8 * length bs) (ucast b :: 'a word)) k"
    using that bit_imp_le_length [of b "k - 8 * length bs"] by (auto simp: bit_simps)
  with Cons show ?case by (auto simp: bit_or_iff)
qed simp

lemma to_be_bytes_cong:
  "(\<And>k. k < 8 * n \<Longrightarrow> bit v k = bit v' k) \<Longrightarrow> to_be_bytes n (v::'a::len word) = to_be_bytes n v'"
proof (induction n)
  case (Suc n)
  have "(ucast (drop_bit (8 * n) v) :: u8) = ucast (drop_bit (8 * n) v')"
    by (rule bit_word_eqI) (auto simp: bit_simps Suc.prems)
  moreover have "to_be_bytes n v = to_be_bytes n v'" using Suc.prems by (intro Suc.IH) simp
  ultimately show ?case by simp
qed simp

lemma to_from_be_bytes:
  "8 * length bs \<le> LENGTH('a) \<Longrightarrow> to_be_bytes (length bs) (from_be_bytes bs :: 'a::len word) = bs"
proof (induction bs)
  case (Cons b bs)
  let ?v = "push_bit (8 * length bs) (ucast b) OR from_be_bytes bs :: 'a word"
  have "ucast (drop_bit (8 * length bs) ?v) = b"
    using Cons.prems bit_from_be_bytes [where 'a = 'a and bs = bs]
    by (intro bit_word_eqI) (auto simp: bit_simps)
  moreover have "to_be_bytes (length bs) ?v = to_be_bytes (length bs) (from_be_bytes bs :: 'a word)"
    by (rule to_be_bytes_cong) (auto simp: bit_simps)
  ultimately show ?case using Cons by simp
qed simp

section \<open>Strings\<close>

text \<open>
  A Rust \<open>str\<close> is a sequence of bytes that is valid UTF-8; it is modelled by \<open>string\<close>, one
  \<open>char\<close> per byte. \<open>as_bytes\<close> and \<open>from_utf8\<close> convert between the two views. The validity
  check follows the well-formed byte sequences of the Unicode standard, which is what
  \<open>std::str::from_utf8\<close> accepts.
\<close>

definition u8_of_char :: "char \<Rightarrow> u8" where
  "u8_of_char c = word_of_nat (of_char c)"

definition char_of_u8 :: "u8 \<Rightarrow> char" where
  "char_of_u8 b = char_of (unat b)"

definition as_bytes :: "string \<Rightarrow> u8 list" where
  "as_bytes s = map u8_of_char s"

definition is_cont :: "u8 \<Rightarrow> bool" where
  "is_cont b \<longleftrightarrow> 0x80 \<le> b \<and> b \<le> 0xBF"

fun utf8_valid :: "u8 list \<Rightarrow> bool" where
  "utf8_valid [] = True"
| "utf8_valid (b # bs) =
    (if b < 0x80 then utf8_valid bs
     else if 0xC2 \<le> b \<and> b \<le> 0xDF then
       (case bs of b1 # bs' \<Rightarrow> is_cont b1 \<and> utf8_valid bs' | _ \<Rightarrow> False)
     else if 0xE0 \<le> b \<and> b \<le> 0xEF then
       (case bs of
          b1 # b2 # bs' \<Rightarrow>
            is_cont b1 \<and> (b = 0xE0 \<longrightarrow> 0xA0 \<le> b1) \<and> (b = 0xED \<longrightarrow> b1 \<le> 0x9F) \<and>
            is_cont b2 \<and> utf8_valid bs'
        | _ \<Rightarrow> False)
     else if 0xF0 \<le> b \<and> b \<le> 0xF4 then
       (case bs of
          b1 # b2 # b3 # bs' \<Rightarrow>
            is_cont b1 \<and> (b = 0xF0 \<longrightarrow> 0x90 \<le> b1) \<and> (b = 0xF4 \<longrightarrow> b1 \<le> 0x8F) \<and>
            is_cont b2 \<and> is_cont b3 \<and> utf8_valid bs'
        | _ \<Rightarrow> False)
     else False)"

definition from_utf8 :: "u8 list \<Rightarrow> string option" where
  "from_utf8 bs = (if utf8_valid bs then Some (map char_of_u8 bs) else None)"

text \<open>\<open>chars().count()\<close>: the bytes that are not continuation bytes.\<close>

definition chars_count :: "string \<Rightarrow> nat" where
  "chars_count s = length (filter (\<lambda>b. \<not> is_cont b) (as_bytes s))"

definition valid_str :: "string \<Rightarrow> bool" where
  "valid_str s \<longleftrightarrow> utf8_valid (as_bytes s)"

lemma length_as_bytes [simp]: "length (as_bytes s) = length s"
  by (simp add: as_bytes_def)

lemma as_bytes_append: "as_bytes (s @ t) = as_bytes s @ as_bytes t"
  by (simp add: as_bytes_def)

lemma u8_of_char_of_u8 [simp]: "u8_of_char (char_of_u8 b) = b"
proof -
  have "unat b mod 256 = unat b" using unsigned_less [of b, where 'a = nat] by simp
  then show ?thesis by (simp add: u8_of_char_def char_of_u8_def)
qed

lemma char_of_u8_of_char [simp]: "char_of_u8 (u8_of_char c) = c"
proof -
  show ?thesis by (simp add: u8_of_char_def char_of_u8_def unat_of_nat)
qed

lemma as_bytes_of_bytes [simp]: "as_bytes (map char_of_u8 bs) = bs"
  by (simp add: as_bytes_def comp_def)

lemma of_bytes_as_bytes [simp]: "map char_of_u8 (as_bytes s) = s"
  by (simp add: as_bytes_def comp_def)

lemma from_utf8_as_bytes [simp]: "valid_str s \<Longrightarrow> from_utf8 (as_bytes s) = Some s"
  by (simp add: from_utf8_def valid_str_def)

lemma from_utf8_SomeD: "from_utf8 bs = Some s \<Longrightarrow> valid_str s \<and> as_bytes s = bs"
  by (auto simp: from_utf8_def valid_str_def split: if_splits)

lemma utf8_valid_length:
  "utf8_valid bs \<Longrightarrow> length bs \<le> 4 * length (filter (\<lambda>b. \<not> is_cont b) bs)"
proof (induction bs rule: utf8_valid.induct)
  case 1
  then show ?case by simp
next
  case (2 b bs)
  have lead: "\<not> is_cont b" if "b < 0x80 \<or> 0xC2 \<le> b"
    using that by (auto simp: is_cont_def word_less_nat_alt word_le_nat_alt)
  show ?case using 2 lead
    by (auto split: if_splits list.splits simp: word_le_nat_alt)
qed

lemma valid_str_length: "valid_str s \<Longrightarrow> length s \<le> 4 * chars_count s"
  using utf8_valid_length [of "as_bytes s"] by (simp add: valid_str_def chars_count_def)

lemma utf8_valid_ascii: "(\<And>b. b \<in> set bs \<Longrightarrow> b < 0x80) \<Longrightarrow> utf8_valid bs"
  by (induction bs) auto

end
