(* ===== verification/Wire_Reader.thy ===== *)
theory Wire_Reader
  imports Prelude
begin

text \<open>
  The error type of the protocol crate (crates/minerider-protocol/src/error.rs) and the
  byte-level part of buffer.rs: the \<open>PacketWriter\<close> that appends to a growing buffer and the
  bounds-checked \<open>PacketReader\<close> cursor, with the fixed-width big-endian primitives.

  The message text that some error variants carry is diagnostic only and is left out; the
  variant and its numeric fields are kept. Floats are moved as their bit pattern
  (\<open>to_be_bytes\<close>/\<open>from_be_bytes\<close> do not look at the value), so \<open>f32\<close> and \<open>f64\<close> are the words
  of their bits. \<open>usize\<close> values are \<open>nat\<close>: every one that occurs is bounded by the length of
  a buffer in memory.

  The contract between a writer operation and its reader operation is the locale
  \<open>wire_codec\<close>; the safety contract of a reader operation is \<open>safe_read\<close>.
\<close>

section \<open>Errors\<close>

datatype protocol_error =
    VarIntTooLong
  | VarLongTooLong
  | BufferUnderflow nat nat
  | NegativeLength i32
  | InvalidString
  | InvalidUtf8
  | InvalidIdentifier
  | FrameTooLarge nat nat
  | Compression
  | Crypto
  | UnknownPacketId string i32
  | UnknownEnumValue string i64
  | UnknownSwitchBranch string string
  | TrailingBytes string nat
  | InvalidNbt
  | InvalidData

section \<open>Writer and reader state\<close>

record packet_writer =
  wr_buf :: "u8 list"

record packet_reader =
  rd_data :: "u8 list"
  rd_pos :: nat

type_synonym 'a reading = "protocol_error + ('a \<times> packet_reader)"

definition new_writer :: packet_writer where
  "new_writer = \<lparr>wr_buf = []\<rparr>"

definition put_bytes :: "packet_writer \<Rightarrow> u8 list \<Rightarrow> packet_writer" where
  "put_bytes w bs = w\<lparr>wr_buf := wr_buf w @ bs\<rparr>"

definition new_reader :: "u8 list \<Rightarrow> packet_reader" where
  "new_reader bs = \<lparr>rd_data = bs, rd_pos = 0\<rparr>"

definition remaining :: "packet_reader \<Rightarrow> nat" where
  "remaining r = length (rd_data r) - rd_pos r"

definition is_empty :: "packet_reader \<Rightarrow> bool" where
  "is_empty r \<longleftrightarrow> remaining r = 0"

definition require :: "packet_reader \<Rightarrow> nat \<Rightarrow> protocol_error + unit" where
  "require r n = (if remaining r < n then Err (BufferUnderflow n (remaining r)) else Ok ())"

definition read_bytes :: "nat \<Rightarrow> packet_reader \<Rightarrow> u8 list reading" where
  "read_bytes n r = and_then (require r n) (\<lambda>_.
     Ok (take n (drop (rd_pos r) (rd_data r)), r\<lparr>rd_pos := rd_pos r + n\<rparr>))"

text \<open>\<open>take::<N>\<close> copies the bytes into an array of length \<open>N\<close>.\<close>

definition take_array :: "nat \<Rightarrow> packet_reader \<Rightarrow> u8 list reading" where
  "take_array n r = and_then (require r n) (\<lambda>_.
     Ok (take n (drop (rd_pos r) (rd_data r)), r\<lparr>rd_pos := rd_pos r + n\<rparr>))"

definition rest :: "packet_reader \<Rightarrow> u8 list" where
  "rest r = drop (rd_pos r) (rd_data r)"

definition skip_all :: "packet_reader \<Rightarrow> packet_reader" where
  "skip_all r = r\<lparr>rd_pos := length (rd_data r)\<rparr>"

section \<open>Fixed-width primitives\<close>

definition put_u8 :: "packet_writer \<Rightarrow> u8 \<Rightarrow> packet_writer" where
  "put_u8 w v = put_bytes w [v]"

definition put_i8 :: "packet_writer \<Rightarrow> i8 \<Rightarrow> packet_writer" where
  "put_i8 w v = put_bytes w [v]"

definition put_bool :: "packet_writer \<Rightarrow> bool \<Rightarrow> packet_writer" where
  "put_bool w v = put_u8 w (if v then 1 else 0)"

definition put_i16 :: "packet_writer \<Rightarrow> i16 \<Rightarrow> packet_writer" where
  "put_i16 w v = put_bytes w (to_be_bytes 2 v)"

definition put_u16 :: "packet_writer \<Rightarrow> u16 \<Rightarrow> packet_writer" where
  "put_u16 w v = put_bytes w (to_be_bytes 2 v)"

definition put_i32 :: "packet_writer \<Rightarrow> i32 \<Rightarrow> packet_writer" where
  "put_i32 w v = put_bytes w (to_be_bytes 4 v)"

definition put_u32 :: "packet_writer \<Rightarrow> u32 \<Rightarrow> packet_writer" where
  "put_u32 w v = put_bytes w (to_be_bytes 4 v)"

definition put_i64 :: "packet_writer \<Rightarrow> i64 \<Rightarrow> packet_writer" where
  "put_i64 w v = put_bytes w (to_be_bytes 8 v)"

definition put_u64 :: "packet_writer \<Rightarrow> u64 \<Rightarrow> packet_writer" where
  "put_u64 w v = put_bytes w (to_be_bytes 8 v)"

definition put_f32 :: "packet_writer \<Rightarrow> u32 \<Rightarrow> packet_writer" where
  "put_f32 w v = put_bytes w (to_be_bytes 4 v)"

definition put_f64 :: "packet_writer \<Rightarrow> u64 \<Rightarrow> packet_writer" where
  "put_f64 w v = put_bytes w (to_be_bytes 8 v)"

definition put_uuid :: "packet_writer \<Rightarrow> u128 \<Rightarrow> packet_writer" where
  "put_uuid w v = put_bytes w (to_be_bytes 16 v)"

definition get_u8 :: "packet_reader \<Rightarrow> u8 reading" where
  "get_u8 r = and_then (take_array 1 r) (\<lambda>(bs, r'). Ok (hd bs, r'))"

definition get_i8 :: "packet_reader \<Rightarrow> i8 reading" where
  "get_i8 r = and_then (take_array 1 r) (\<lambda>(bs, r'). Ok (hd bs, r'))"

definition get_bool :: "packet_reader \<Rightarrow> bool reading" where
  "get_bool r = and_then (get_u8 r) (\<lambda>(b, r'). Ok (b \<noteq> 0, r'))"

definition get_i16 :: "packet_reader \<Rightarrow> i16 reading" where
  "get_i16 r = and_then (take_array 2 r) (\<lambda>(bs, r'). Ok (from_be_bytes bs, r'))"

definition get_u16 :: "packet_reader \<Rightarrow> u16 reading" where
  "get_u16 r = and_then (take_array 2 r) (\<lambda>(bs, r'). Ok (from_be_bytes bs, r'))"

definition get_i32 :: "packet_reader \<Rightarrow> i32 reading" where
  "get_i32 r = and_then (take_array 4 r) (\<lambda>(bs, r'). Ok (from_be_bytes bs, r'))"

definition get_u32 :: "packet_reader \<Rightarrow> u32 reading" where
  "get_u32 r = and_then (take_array 4 r) (\<lambda>(bs, r'). Ok (from_be_bytes bs, r'))"

definition get_i64 :: "packet_reader \<Rightarrow> i64 reading" where
  "get_i64 r = and_then (take_array 8 r) (\<lambda>(bs, r'). Ok (from_be_bytes bs, r'))"

definition get_u64 :: "packet_reader \<Rightarrow> u64 reading" where
  "get_u64 r = and_then (take_array 8 r) (\<lambda>(bs, r'). Ok (from_be_bytes bs, r'))"

definition get_f32 :: "packet_reader \<Rightarrow> u32 reading" where
  "get_f32 r = and_then (take_array 4 r) (\<lambda>(bs, r'). Ok (from_be_bytes bs, r'))"

definition get_f64 :: "packet_reader \<Rightarrow> u64 reading" where
  "get_f64 r = and_then (take_array 8 r) (\<lambda>(bs, r'). Ok (from_be_bytes bs, r'))"

definition read_uuid :: "packet_reader \<Rightarrow> u128 reading" where
  "read_uuid r = and_then (take_array 16 r) (\<lambda>(bs, r'). Ok (from_be_bytes bs, r'))"

section \<open>Running a reader on known bytes\<close>

text \<open>A reader that has consumed \<open>pre\<close> and has \<open>suf\<close> in front of it.\<close>

definition reader_at :: "u8 list \<Rightarrow> u8 list \<Rightarrow> packet_reader" where
  "reader_at pre suf = \<lparr>rd_data = pre @ suf, rd_pos = length pre\<rparr>"

definition reader_wf :: "packet_reader \<Rightarrow> bool" where
  "reader_wf r \<longleftrightarrow> rd_pos r \<le> length (rd_data r)"

lemma new_reader_at: "new_reader bs = reader_at [] bs"
  by (simp add: new_reader_def reader_at_def)

lemma reader_at_wf [simp]: "reader_wf (reader_at pre suf)"
  by (simp add: reader_at_def reader_wf_def)

lemma reader_wf_at: "reader_wf r \<Longrightarrow> \<exists>pre suf. r = reader_at pre suf"
  by (rule exI [of _ "take (rd_pos r) (rd_data r)"], rule exI [of _ "drop (rd_pos r) (rd_data r)"])
     (simp add: reader_at_def reader_wf_def)

lemma reader_at_obs [simp]:
  "remaining (reader_at pre suf) = length suf"
  "rest (reader_at pre suf) = suf"
  "is_empty (reader_at pre suf) \<longleftrightarrow> suf = []"
  by (simp_all add: remaining_def rest_def is_empty_def reader_at_def)

lemma put_bytes_buf [simp]: "wr_buf (put_bytes w bs) = wr_buf w @ bs"
  by (simp add: put_bytes_def)

lemma read_bytes_at [wire_simps]:
  "length bs = n \<Longrightarrow> read_bytes n (reader_at pre (bs @ suf)) = Ok (bs, reader_at (pre @ bs) suf)"
  by (auto simp: read_bytes_def require_def remaining_def reader_at_def)

lemma take_array_at [wire_simps]:
  "length bs = n \<Longrightarrow> take_array n (reader_at pre (bs @ suf)) = Ok (bs, reader_at (pre @ bs) suf)"
  by (auto simp: take_array_def require_def remaining_def reader_at_def)

lemma get_u8_at [wire_simps]: "get_u8 (reader_at pre (b # suf)) = Ok (b, reader_at (pre @ [b]) suf)"
  using take_array_at [of "[b]" 1 pre suf] by (simp add: get_u8_def)

lemma get_u8_empty [wire_simps]: "get_u8 (reader_at pre []) = Err (BufferUnderflow 1 0)"
  by (simp add: get_u8_def take_array_def require_def)

section \<open>The safety contract of a reader operation\<close>

text \<open>
  A reader operation that succeeds keeps the data, keeps the cursor inside it and never
  moves backwards.
\<close>

locale safe_read =
  fixes get :: "packet_reader \<Rightarrow> 'v reading"
  assumes get_safe: "reader_wf r \<Longrightarrow> get r = Ok (v, r') \<Longrightarrow>
    reader_wf r' \<and> rd_data r' = rd_data r \<and> rd_pos r \<le> rd_pos r'"

lemma take_array_safe:
  "reader_wf r \<Longrightarrow> take_array n r = Ok (v, r') \<Longrightarrow>
    reader_wf r' \<and> rd_data r' = rd_data r \<and> rd_pos r' = rd_pos r + n \<and> length v = n"
  by (auto simp: take_array_def require_def remaining_def reader_wf_def split: if_splits)

lemma read_bytes_safe:
  "reader_wf r \<Longrightarrow> read_bytes n r = Ok (v, r') \<Longrightarrow>
    reader_wf r' \<and> rd_data r' = rd_data r \<and> rd_pos r' = rd_pos r + n \<and> length v = n"
  by (auto simp: read_bytes_def require_def remaining_def reader_wf_def split: if_splits)

interpretation read_bytes: safe_read "read_bytes n"
  by unfold_locales (auto dest: read_bytes_safe)

interpretation get_u8: safe_read get_u8
  by unfold_locales (auto simp: get_u8_def dest: take_array_safe)

interpretation get_i64: safe_read get_i64
  by unfold_locales (auto simp: get_i64_def dest: take_array_safe)

section \<open>The contract of a writer/reader pair\<close>

text \<open>
  \<open>enc v\<close> are the bytes that \<open>put\<close> appends for \<open>v\<close>; reading them back yields \<open>v\<close> and leaves
  the cursor right behind them, whatever follows. Every value takes at least one byte, which
  is what the bound check of \<open>read_array\<close> relies on.
\<close>

locale wire_codec =
  fixes put :: "packet_writer \<Rightarrow> 'v \<Rightarrow> packet_writer"
    and get :: "packet_reader \<Rightarrow> 'v reading"
    and enc :: "'v \<Rightarrow> u8 list"
    and valid :: "'v \<Rightarrow> bool"
  assumes put_enc: "valid v \<Longrightarrow> wr_buf (put w v) = wr_buf w @ enc v"
    and get_enc: "valid v \<Longrightarrow> get (reader_at pre (enc v @ suf)) = Ok (v, reader_at (pre @ enc v) suf)"
    and enc_nonempty: "valid v \<Longrightarrow> enc v \<noteq> []"
begin

lemma roundtrip:
  "valid v \<Longrightarrow> get (new_reader (wr_buf (put new_writer v))) = Ok (v, reader_at (enc v) [])"
  using get_enc [of v "[]" "[]"] by (simp add: put_enc new_writer_def new_reader_at)

lemma enc_inj: "valid v \<Longrightarrow> valid v' \<Longrightarrow> enc v = enc v' \<Longrightarrow> v = v'"
  using get_enc [of v "[]" "[]"] get_enc [of v' "[]" "[]"] by simp

lemma enc_prefix_free:
  "valid v \<Longrightarrow> valid v' \<Longrightarrow> enc v @ s = enc v' @ s' \<Longrightarrow> v = v' \<and> s = s'"
  using get_enc [of v "[]" s] get_enc [of v' "[]" s'] by (simp add: reader_at_def)

end

lemmas fixed_defs =
  put_u8_def put_i8_def put_i16_def put_u16_def put_i32_def put_u32_def put_i64_def put_u64_def
  put_f32_def put_f64_def put_uuid_def
  get_i8_def get_i16_def get_u16_def get_i32_def get_u32_def get_i64_def get_u64_def
  get_f32_def get_f64_def read_uuid_def

lemma be_nonempty: "to_be_bytes (Suc n) v \<noteq> []"
  by simp

text \<open>
  A reader that accepts nothing but encodings: it has consumed exactly the bytes that writing
  its result gives. Not every pair is exact (a VarInt also has padded forms).
\<close>

locale exact_codec = wire_codec +
  assumes get_exact: "get (reader_at pre suf) = Ok (v, r') \<Longrightarrow>
    valid v \<and> (\<exists>suf'. suf = enc v @ suf' \<and> r' = reader_at (pre @ enc v) suf')"
begin

lemma rewrite:
  "get (new_reader bs) = Ok (v, r') \<Longrightarrow> rest r' = [] \<Longrightarrow> wr_buf (put new_writer v) = bs"
  using get_exact [of "[]" bs v r'] by (auto simp: new_reader_at put_enc new_writer_def)

end

lemma take_array_be:
  "LENGTH('a) = 8 * n \<Longrightarrow>
   and_then (take_array n (reader_at pre (to_be_bytes n (v::'a::len word) @ suf)))
     (\<lambda>(bs, r'). Ok (from_be_bytes bs, r')) = Ok (v, reader_at (pre @ to_be_bytes n v) suf)"
  by (simp add: take_array_at from_to_be_bytes)

lemma take_array_exact:
  assumes "take_array n (reader_at pre suf) = Ok (bs, r')"
  shows "length bs = n \<and> (\<exists>suf'. suf = bs @ suf' \<and> r' = reader_at (pre @ bs) suf')"
proof -
  from assms have "n \<le> length suf" "bs = take n suf" "r' = \<lparr>rd_data = pre @ suf, rd_pos = length pre + n\<rparr>"
    by (auto simp: take_array_def require_def remaining_def reader_at_def split: if_splits)
  then show ?thesis by (intro conjI exI [of _ "drop n suf"]) (simp_all add: reader_at_def)
qed

lemma take_array_be_exact:
  assumes "LENGTH('a) = 8 * n"
    and "and_then (take_array n (reader_at pre suf)) (\<lambda>(bs, r'). Ok (from_be_bytes bs, r')) =
      Ok (v :: 'a::len word, r')"
  shows "\<exists>suf'. suf = to_be_bytes n v @ suf' \<and> r' = reader_at (pre @ to_be_bytes n v) suf'"
proof -
  from assms(2) obtain bs where bs: "take_array n (reader_at pre suf) = Ok (bs, r')" "v = from_be_bytes bs"
    by auto
  from take_array_exact [OF bs(1)] have "to_be_bytes n v = bs"
    using to_from_be_bytes [where 'a = 'a and bs = bs] assms(1) bs(2) by simp
  with take_array_exact [OF bs(1)] show ?thesis by simp
qed

lemma be_codec:
  assumes "LENGTH('a) = 8 * n" "0 < n"
  shows "exact_codec (\<lambda>w v. put_bytes w (to_be_bytes n (v :: 'a::len word)))
    (\<lambda>r. and_then (take_array n r) (\<lambda>(bs, r'). Ok (from_be_bytes bs, r'))) (to_be_bytes n) (\<lambda>_. True)"
proof
  show "to_be_bytes n v \<noteq> []" for v :: "'a word" using assms(2) by (cases n) simp_all
qed (use take_array_be [OF assms(1)] take_array_be_exact [OF assms(1)] in auto)

lemma byte_codec:
  "exact_codec (\<lambda>w v. put_bytes w [v]) (\<lambda>r. and_then (take_array 1 r) (\<lambda>(bs, r'). Ok (hd bs, r')))
    (\<lambda>v. [v]) (\<lambda>_. True)"
proof
  fix pre suf v r'
  assume "and_then (take_array 1 (reader_at pre suf)) (\<lambda>(bs, r'). Ok (hd bs, r')) = Ok (v, r')"
  then obtain bs where bs: "take_array 1 (reader_at pre suf) = Ok (bs, r')" "v = hd bs" by auto
  with take_array_exact [OF bs(1)] show "True \<and> (\<exists>suf'. suf = [v] @ suf' \<and> r' = reader_at (pre @ [v]) suf')"
    by (auto simp: length_Suc_conv)
qed (use take_array_at [of "[_]" 1] in auto)

interpretation u8: exact_codec put_u8 get_u8 "\<lambda>v. [v]" "\<lambda>_. True"
  using byte_codec by (simp add: put_u8_def [abs_def] get_u8_def [abs_def])

interpretation i8: exact_codec put_i8 get_i8 "\<lambda>v. [v]" "\<lambda>_. True"
  using byte_codec by (simp add: put_i8_def [abs_def] get_i8_def [abs_def])

interpretation bool: wire_codec put_bool get_bool "\<lambda>v. [if v then 1 else 0]" "\<lambda>_. True"
  by unfold_locales (auto simp: fixed_defs put_bool_def get_bool_def wire_simps)

interpretation i16: exact_codec put_i16 get_i16 "to_be_bytes 2" "\<lambda>_. True"
  using be_codec [of 2, where 'a = 16] by (simp add: put_i16_def [abs_def] get_i16_def [abs_def])

interpretation u16: exact_codec put_u16 get_u16 "to_be_bytes 2" "\<lambda>_. True"
  using be_codec [of 2, where 'a = 16] by (simp add: put_u16_def [abs_def] get_u16_def [abs_def])

interpretation i32: exact_codec put_i32 get_i32 "to_be_bytes 4" "\<lambda>_. True"
  using be_codec [of 4, where 'a = 32] by (simp add: put_i32_def [abs_def] get_i32_def [abs_def])

interpretation u32: exact_codec put_u32 get_u32 "to_be_bytes 4" "\<lambda>_. True"
  using be_codec [of 4, where 'a = 32] by (simp add: put_u32_def [abs_def] get_u32_def [abs_def])

interpretation i64: exact_codec put_i64 get_i64 "to_be_bytes 8" "\<lambda>_. True"
  using be_codec [of 8, where 'a = 64] by (simp add: put_i64_def [abs_def] get_i64_def [abs_def])

interpretation u64: exact_codec put_u64 get_u64 "to_be_bytes 8" "\<lambda>_. True"
  using be_codec [of 8, where 'a = 64] by (simp add: put_u64_def [abs_def] get_u64_def [abs_def])

interpretation f32: exact_codec put_f32 get_f32 "to_be_bytes 4" "\<lambda>_. True"
  using be_codec [of 4, where 'a = 32] by (simp add: put_f32_def [abs_def] get_f32_def [abs_def])

interpretation f64: exact_codec put_f64 get_f64 "to_be_bytes 8" "\<lambda>_. True"
  using be_codec [of 8, where 'a = 64] by (simp add: put_f64_def [abs_def] get_f64_def [abs_def])

interpretation uuid: exact_codec put_uuid read_uuid "to_be_bytes 16" "\<lambda>_. True"
  using be_codec [of 16, where 'a = 128] by (simp add: put_uuid_def [abs_def] read_uuid_def [abs_def])

end
