(* ===== verification/Wire_Varint.thy ===== *)
theory Wire_Varint
  imports Wire_Reader
begin

text \<open>
  The variable-length integers of varint.rs (at most 5 bytes for an \<open>i32\<close>) and varlong.rs (at
  most 10 bytes for an \<open>i64\<close>). The two files are the same loops at two widths, so the loops are
  polymorphic in the word width and the public functions fix it. The lemmas show the round
  trip for every value, the size function, the length bound and exactly which inputs the
  decoder refuses.
\<close>

section \<open>The loops\<close>

text \<open>The body of \<open>write_varint\<close>/\<open>write_varlong\<close>: seven bits per byte, low bits first.\<close>

function write_var_loop :: "'a::len word \<Rightarrow> u8 list" where
  "write_var_loop value =
    (let byte = ucast (value AND 0x7F); value' = drop_bit 7 value in
     if value' \<noteq> 0 then (byte OR 0x80) # write_var_loop value' else [byte])"
  by pat_completeness auto
termination
  by (relation "measure unat") (auto intro: unat_drop_bit_less [where n = 6, simplified])

declare write_var_loop.simps [simp del]

text \<open>
  The \<open>for i in 0..MAX\<close> loop of \<open>read_varint\<close>/\<open>read_varlong\<close>: \<open>k\<close> rounds are left, \<open>i\<close> is the
  round and \<open>result\<close> what has been gathered.
\<close>

fun read_var_loop ::
  "protocol_error \<Rightarrow> nat \<Rightarrow> nat \<Rightarrow> 'a::len word \<Rightarrow> packet_reader \<Rightarrow> 'a word reading" where
  "read_var_loop err 0 i result r = Err err"
| "read_var_loop err (Suc k) i result r = and_then (get_u8 r) (\<lambda>(byte, r').
     let result' = result OR push_bit (i * 7) (ucast (byte AND 0x7F)) in
     if byte AND 0x80 = 0 then Ok (result', r') else read_var_loop err k (Suc i) result' r')"

text \<open>The loop of \<open>varint_size\<close>/\<open>varlong_size\<close>.\<close>

function var_size_loop :: "'a::len word \<Rightarrow> nat \<Rightarrow> nat" where
  "var_size_loop value sz =
    (if value AND NOT 0x7F \<noteq> 0 then var_size_loop (drop_bit 7 value) (sz + 1) else sz)"
  by pat_completeness auto

lemma and_not_7F_eq_0: "value AND - 128 = 0 \<longleftrightarrow> drop_bit 7 (value::'a::len word) = 0"
proof -
  have "value AND NOT (mask 7) = push_bit 7 (drop_bit 7 value)"
    by (rule bit_word_eqI) (auto simp: bit_simps)
  moreover have "push_bit 7 (drop_bit 7 value) = 0 \<longleftrightarrow> drop_bit 7 value = 0"
  proof
    assume *: "push_bit 7 (drop_bit 7 value) = 0"
    show "drop_bit 7 value = 0"
    proof (rule bit_word_eqI)
      fix n
      assume "n < LENGTH('a)"
      from * have "\<not> bit (push_bit 7 (drop_bit 7 value)) (n + 7)" by simp
      then show "bit (drop_bit 7 value) n \<longleftrightarrow> bit (0::'a word) n"
        by (auto simp: bit_simps dest: bit_imp_le_length)
    qed
  qed simp
  ultimately show ?thesis by (simp add: mask_7)
qed

termination var_size_loop
  by (relation "measure (\<lambda>(v, _). unat v)")
     (auto simp: and_not_7F_eq_0 intro: unat_drop_bit_less [where n = 6, simplified])

declare var_size_loop.simps [simp del]

section \<open>The public functions\<close>

definition MAX_VARINT_BYTES :: nat where "MAX_VARINT_BYTES = 5"
definition MAX_VARLONG_BYTES :: nat where "MAX_VARLONG_BYTES = 10"

definition write_varint :: "u8 list \<Rightarrow> i32 \<Rightarrow> u8 list" where
  "write_varint buf v = buf @ write_var_loop v"

definition read_varint :: "packet_reader \<Rightarrow> i32 reading" where
  "read_varint r = read_var_loop VarIntTooLong MAX_VARINT_BYTES 0 0 r"

definition varint_size :: "i32 \<Rightarrow> nat" where
  "varint_size v = var_size_loop v 1"

definition write_varlong :: "u8 list \<Rightarrow> i64 \<Rightarrow> u8 list" where
  "write_varlong buf v = buf @ write_var_loop v"

definition read_varlong :: "packet_reader \<Rightarrow> i64 reading" where
  "read_varlong r = read_var_loop VarLongTooLong MAX_VARLONG_BYTES 0 0 r"

definition varlong_size :: "i64 \<Rightarrow> nat" where
  "varlong_size v = var_size_loop v 1"

text \<open>\<open>put_varint\<close> and friends of buffer.rs.\<close>

definition put_varint :: "packet_writer \<Rightarrow> i32 \<Rightarrow> packet_writer" where
  "put_varint w v = w\<lparr>wr_buf := write_varint (wr_buf w) v\<rparr>"

definition put_varlong :: "packet_writer \<Rightarrow> i64 \<Rightarrow> packet_writer" where
  "put_varlong w v = w\<lparr>wr_buf := write_varlong (wr_buf w) v\<rparr>"

definition get_varint :: "packet_reader \<Rightarrow> i32 reading" where
  "get_varint r = read_varint r"

definition get_varlong :: "packet_reader \<Rightarrow> i64 reading" where
  "get_varlong r = read_varlong r"

section \<open>Encoding facts\<close>

lemma write_var_loop_nonempty [simp]: "write_var_loop v \<noteq> []"
  by (subst write_var_loop.simps) (simp add: Let_def)

lemma bit_0x80: "bit (0x80::int) n \<longleftrightarrow> n = 7"
  using bit_exp_iff [of 7 n, where 'a = int] by auto

lemma low7_byte:
  "ucast ((ucast (v AND 0x7F) :: u8) AND 0x7F) = (v::'a::len word) AND 0x7F"
  "ucast (((ucast (v AND 0x7F) :: u8) OR 0x80) AND 0x7F) = v AND 0x7F"
proof -
  have "ucast ((ucast (v AND mask 7) :: u8) AND mask 7) = v AND mask 7"
    by (rule bit_word_eqI) (auto simp: bit_simps bit_0x80)
  then show "ucast ((ucast (v AND 0x7F) :: u8) AND 0x7F) = v AND 0x7F" by (simp only: mask_7)
  have "ucast (((ucast (v AND mask 7) :: u8) OR 0x80) AND mask 7) = v AND mask 7"
    by (rule bit_word_eqI) (auto simp: bit_simps bit_0x80)
  then show "ucast (((ucast (v AND 0x7F) :: u8) OR 0x80) AND 0x7F) = v AND 0x7F"
    by (simp only: mask_7)
qed

lemma cont_bit:
  "(ucast ((v::'a::len word) AND 0x7F) :: u8) AND 0x80 = 0"
  "((b::u8) OR 0x80) AND 0x80 \<noteq> 0"
proof -
  have "(ucast (v AND mask 7) :: u8) AND 0x80 = 0"
    by (rule bit_word_eqI) (auto simp: bit_simps bit_0x80)
  then show "(ucast (v AND 0x7F) :: u8) AND 0x80 = 0" by (simp only: mask_7)
  have "bit ((b OR 0x80) AND 0x80) 7" by (simp add: bit_simps bit_0x80)
  then show "(b OR 0x80) AND 0x80 \<noteq> 0" by (metis bit_0_eq bot_apply bot_bool_def)
qed

lemma split_low7: "((v::'a::len word) AND 0x7F) OR push_bit 7 (drop_bit 7 v) = v"
proof -
  have "(v AND mask 7) OR push_bit 7 (drop_bit 7 v) = v"
  proof (rule bit_word_eqI)
    fix n
    show "bit ((v AND mask 7) OR push_bit 7 (drop_bit 7 v)) n \<longleftrightarrow> bit v n" if "n < LENGTH('a)"
      using that by (cases "n < 7") (auto simp: bit_simps)
  qed
  then show ?thesis by (simp only: mask_7)
qed

section \<open>Decoding what was encoded\<close>

lemma read_write_var_loop:
  "length (write_var_loop v) \<le> k \<Longrightarrow>
   read_var_loop err k i result (reader_at pre (write_var_loop v @ suf)) =
     Ok (result OR push_bit (i * 7) v, reader_at (pre @ write_var_loop v) suf)"
proof (induction v arbitrary: k i result pre rule: write_var_loop.induct)
  case (1 v)
  let ?lo = "ucast (v AND 0x7F) :: u8" and ?hi = "drop_bit 7 v"
  obtain k' where k: "k = Suc k'"
    using "1.prems" write_var_loop_nonempty [of v] by (cases k) auto
  have split: "push_bit (i * 7) (v AND 0x7F) OR push_bit (Suc i * 7) ?hi = push_bit (i * 7) v"
  proof -
    have "push_bit (Suc i * 7) ?hi = push_bit (i * 7) (push_bit 7 ?hi)"
      by (simp add: add.commute)
    then show ?thesis by (simp only: push_bit_or [symmetric] split_low7)
  qed
  show ?case
  proof (cases "?hi = 0")
    case True
    have v: "v AND 0x7F = v" using split_low7 [of v] True by simp
    show ?thesis using True low7_byte(1) [of v] cont_bit(1) [of v]
      by (simp add: write_var_loop.simps [of v] k wire_simps v)
  next
    case False
    have enc: "write_var_loop v = (?lo OR 0x80) # write_var_loop ?hi"
      using False by (simp add: write_var_loop.simps [of v] Let_def)
    then have len: "length (write_var_loop ?hi) \<le> k'" using "1.prems" k by simp
    let ?res = "result OR push_bit (i * 7) (v AND 0x7F)"
    have "read_var_loop err k' (Suc i) ?res
        (reader_at (pre @ [?lo OR 0x80]) (write_var_loop ?hi @ suf)) =
      Ok (?res OR push_bit (Suc i * 7) ?hi, reader_at ((pre @ [?lo OR 0x80]) @ write_var_loop ?hi) suf)"
      using "1.IH" [OF refl refl False len] by simp
    then show ?thesis
      by (simp add: enc k wire_simps low7_byte cont_bit or.assoc split [unfolded mult_Suc] del: push_bit_and)
  qed
qed

lemma length_write_var_loop:
  "drop_bit (7 * k) (v::'a::len word) = 0 \<Longrightarrow> 0 < k \<Longrightarrow> length (write_var_loop v) \<le> k"
proof (induction v arbitrary: k rule: write_var_loop.induct)
  case (1 v)
  show ?case
  proof (cases "drop_bit 7 v = 0")
    case True
    then show ?thesis using "1.prems" by (simp add: write_var_loop.simps [of v] Let_def)
  next
    case False
    with "1.prems" obtain k' where k: "k = Suc k'" "0 < k'"
      by (cases k; cases "k - 1") auto
    then have "drop_bit (7 * k') (drop_bit 7 v) = 0" using "1.prems" by (simp add: add.commute)
    then have "length (write_var_loop (drop_bit 7 v)) \<le> k'"
      using "1.IH" [OF refl refl False] k by blast
    then show ?thesis using False k by (simp add: write_var_loop.simps [of v] Let_def)
  qed
qed

lemma drop_bit_all: "LENGTH('a) \<le> n \<Longrightarrow> drop_bit n (v::'a::len word) = 0"
  by (rule bit_word_eqI) (auto simp: bit_simps dest: bit_imp_le_length)

lemma length_write_varint_loop: "length (write_var_loop (v::i32)) \<le> 5"
  by (rule length_write_var_loop) (simp_all add: drop_bit_all)

lemma length_write_varlong_loop: "length (write_var_loop (v::i64)) \<le> 10"
  by (rule length_write_var_loop) (simp_all add: drop_bit_all)

lemma var_size_loop_length:
  "var_size_loop v n + 1 = n + length (write_var_loop (v::'a::len word))"
proof (induction v arbitrary: n rule: write_var_loop.induct)
  case (1 v)
  show ?case
    using "1.IH" [OF refl refl, of "n + 1"]
    by (simp add: var_size_loop.simps [of v n] write_var_loop.simps [of v] Let_def and_not_7F_eq_0)
qed

interpretation varint: wire_codec put_varint get_varint write_var_loop "\<lambda>_. True"
  by unfold_locales
    (simp_all add: put_varint_def write_varint_def get_varint_def read_varint_def
      MAX_VARINT_BYTES_def read_write_var_loop length_write_varint_loop)

interpretation varlong: wire_codec put_varlong get_varlong write_var_loop "\<lambda>_. True"
  by unfold_locales
    (simp_all add: put_varlong_def write_varlong_def get_varlong_def read_varlong_def
      MAX_VARLONG_BYTES_def read_write_var_loop length_write_varlong_loop)

section \<open>What the decoder accepts\<close>

definition continues :: "u8 \<Rightarrow> bool" where
  "continues b \<longleftrightarrow> b AND 0x80 \<noteq> 0"

lemma read_var_loop_cases:
  "read_var_loop err k i result (reader_at pre suf) =
     (let n = length (takeWhile continues (take k suf)) in
      if n = k then Err err
      else if n = length suf then Err (BufferUnderflow 1 0)
      else read_var_loop err (Suc n) i result (reader_at pre suf))"
proof (induction k arbitrary: i result pre suf)
  case 0
  then show ?case by simp
next
  case (Suc k)
  show ?case
  proof (cases suf)
    case Nil
    then show ?thesis by (simp add: wire_simps)
  next
    case (Cons b suf')
    show ?thesis
    proof (cases "continues b")
      case True
      then show ?thesis
        using Suc.IH [of "Suc i" "result OR push_bit (i * 7) (ucast (b AND 0x7F))" "pre @ [b]" suf']
        by (simp add: Cons wire_simps continues_def Let_def)
    next
      case False
      then show ?thesis by (simp add: Cons wire_simps continues_def)
    qed
  qed
qed

lemma read_var_loop_consumes:
  "read_var_loop err k i result (reader_at pre suf) = Ok (v, r') \<Longrightarrow>
   \<exists>bs suf'. suf = bs @ suf' \<and> r' = reader_at (pre @ bs) suf' \<and>
     0 < length bs \<and> length bs \<le> k \<and> list_all continues (butlast bs) \<and> \<not> continues (last bs)"
proof (induction k arbitrary: i result pre suf)
  case 0
  then show ?case by simp
next
  case (Suc k)
  show ?case
  proof (cases suf)
    case Nil
    then show ?thesis using Suc.prems by (simp add: wire_simps)
  next
    case (Cons b suf')
    show ?thesis
    proof (cases "continues b")
      case True
      with Suc.prems have "read_var_loop err k (Suc i) (result OR push_bit (i * 7) (ucast (b AND 0x7F)))
          (reader_at (pre @ [b]) suf') = Ok (v, r')"
        by (simp add: Cons wire_simps continues_def Let_def)
      from Suc.IH [OF this] obtain bs suf'' where *: "suf' = bs @ suf''"
          "r' = reader_at ((pre @ [b]) @ bs) suf''" "0 < length bs" "length bs \<le> k"
          "list_all continues (butlast bs)" "\<not> continues (last bs)"
        by blast
      show ?thesis
        by (rule exI [of _ "b # bs"], rule exI [of _ suf'']) (use * True Cons in auto)
    next
      case False
      with Suc.prems have "r' = reader_at (pre @ [b]) suf'"
        by (simp add: Cons wire_simps continues_def Let_def)
      then show ?thesis
        by (intro exI [of _ "[b]"] exI [of _ suf']) (use False Cons in auto)
    qed
  qed
qed

lemma read_var_loop_safe:
  assumes "reader_wf r" and "read_var_loop err k i result r = Ok (v, r')"
  shows "reader_wf r' \<and> rd_data r' = rd_data r \<and> rd_pos r < rd_pos r' \<and> rd_pos r' \<le> rd_pos r + k"
proof -
  obtain pre suf where r: "r = reader_at pre suf" using reader_wf_at assms(1) by blast
  from read_var_loop_consumes [OF assms(2) [unfolded r]] show ?thesis
    by (auto simp: r reader_at_def reader_wf_def)
qed

interpretation read_varint: safe_read get_varint
  by unfold_locales (auto simp: get_varint_def read_varint_def dest: read_var_loop_safe)

interpretation read_varlong: safe_read get_varlong
  by unfold_locales (auto simp: get_varlong_def read_varlong_def dest: read_var_loop_safe)

lemma read_var_loop_step:
  "read_var_loop err (Suc k) i result (reader_at pre (b # suf)) =
     (let result' = result OR push_bit (i * 7) (ucast (b AND 0x7F)) in
      if continues b then read_var_loop err k (Suc i) result' (reader_at (pre @ [b]) suf)
      else Ok (result', reader_at (pre @ [b]) suf))"
  by (simp add: wire_simps continues_def Let_def)

lemma read_var_loop_fails:
  "list_all continues (take k suf) \<Longrightarrow> read_var_loop err k i result (reader_at pre suf) =
     Err (if k \<le> length suf then err else BufferUnderflow 1 0)"
proof (induction k arbitrary: i result pre suf)
  case (Suc k)
  then show ?case
    by (cases suf) (simp_all add: read_var_loop_step Let_def wire_simps del: read_var_loop.simps(2),
      simp add: wire_simps)
qed simp

lemma read_var_loop_returns:
  "\<not> list_all continues (take k suf) \<Longrightarrow>
   \<exists>v r'. read_var_loop err k i result (reader_at pre suf) = Ok (v, r')"
proof (induction k arbitrary: i result pre suf)
  case (Suc k)
  then show ?case
    by (cases suf) (auto simp: read_var_loop_step Let_def simp del: read_var_loop.simps(2))
qed simp

section \<open>Properties\<close>

text \<open>
  C35: a VarInt and a VarLong read back as written, whatever surrounds them; they take at most 5
  and 10 bytes, and \<open>varint_size\<close> and \<open>varlong_size\<close> give exactly the number of bytes written.
\<close>

theorem var_roundtrip:
  "get_varint (reader_at pre (write_varint [] v @ suf)) = Ok (v, reader_at (pre @ write_varint [] v) suf) \<and>
   varint_size v = length (write_varint [] v) \<and> length (write_varint [] v) \<le> MAX_VARINT_BYTES \<and>
   get_varlong (reader_at pre (write_varlong [] l @ suf)) = Ok (l, reader_at (pre @ write_varlong [] l) suf) \<and>
   varlong_size l = length (write_varlong [] l) \<and> length (write_varlong [] l) \<le> MAX_VARLONG_BYTES"
  using varint.get_enc [where v = v] varlong.get_enc [where v = l]
    var_size_loop_length [where v = v and n = 1] var_size_loop_length [where v = l and n = 1]
  by (simp add: write_varint_def write_varlong_def varint_size_def varlong_size_def
      MAX_VARINT_BYTES_def MAX_VARLONG_BYTES_def length_write_varint_loop length_write_varlong_loop)


end
