(* ===== verification/Wire_Buffer.thy ===== *)
theory Wire_Buffer
  imports Wire_Varint
begin

text \<open>
  The composite operations of buffer.rs: length-prefixed strings, identifiers, byte arrays,
  arrays and options over an element codec, and packed block positions. Arrays and options are
  proved once for every element codec (inside the locale \<open>wire_codec\<close>); the result is again a
  codec, so nested arrays need no further proof.
\<close>

section \<open>Byte arrays, arrays and options\<close>

definition put_byte_array :: "packet_writer \<Rightarrow> u8 list \<Rightarrow> packet_writer" where
  "put_byte_array w bs = put_bytes (put_varint w (word_of_nat (length bs))) bs"

definition read_byte_array :: "packet_reader \<Rightarrow> u8 list reading" where
  "read_byte_array r = and_then (get_varint r) (\<lambda>(len, r1).
     if sint len < 0 then Err (NegativeLength len) else read_bytes (nat (sint len)) r1)"

definition put_array ::
  "packet_writer \<Rightarrow> 'v list \<Rightarrow> (packet_writer \<Rightarrow> 'v \<Rightarrow> packet_writer) \<Rightarrow> packet_writer" where
  "put_array w items write = foldl write (put_varint w (word_of_nat (length items))) items"

fun read_n :: "(packet_reader \<Rightarrow> 'v reading) \<Rightarrow> nat \<Rightarrow> packet_reader \<Rightarrow> 'v list reading" where
  "read_n get 0 r = Ok ([], r)"
| "read_n get (Suc n) r = and_then (get r) (\<lambda>(v, r1).
     and_then (read_n get n r1) (\<lambda>(vs, r2). Ok (v # vs, r2)))"

definition read_array :: "(packet_reader \<Rightarrow> 'v reading) \<Rightarrow> packet_reader \<Rightarrow> 'v list reading" where
  "read_array get r = and_then (get_varint r) (\<lambda>(len, r1).
     if sint len < 0 then Err (NegativeLength len)
     else if nat (sint len) > remaining r1 then
       Err (BufferUnderflow (nat (sint len)) (remaining r1))
     else read_n get (nat (sint len)) r1)"

definition put_option ::
  "packet_writer \<Rightarrow> 'v option \<Rightarrow> (packet_writer \<Rightarrow> 'v \<Rightarrow> packet_writer) \<Rightarrow> packet_writer" where
  "put_option w value write =
     (let w1 = put_bool w (value \<noteq> None) in case value of None \<Rightarrow> w1 | Some v \<Rightarrow> write w1 v)"

definition read_option :: "(packet_reader \<Rightarrow> 'v reading) \<Rightarrow> packet_reader \<Rightarrow> 'v option reading" where
  "read_option get r = and_then (get_bool r) (\<lambda>(present, r1).
     if present then and_then (get r1) (\<lambda>(v, r2). Ok (Some v, r2)) else Ok (None, r1))"

section \<open>Strings and identifiers\<close>

definition MAX_STRING_CHARS :: nat where "MAX_STRING_CHARS = 32767"

definition put_string :: "packet_writer \<Rightarrow> string \<Rightarrow> protocol_error + packet_writer" where
  "put_string w s =
     (if chars_count s > MAX_STRING_CHARS then Err InvalidString
      else Ok (put_bytes (put_varint w (word_of_nat (length (as_bytes s)))) (as_bytes s)))"

definition read_string :: "packet_reader \<Rightarrow> string reading" where
  "read_string r = and_then (get_varint r) (\<lambda>(len, r1).
     if \<not> (0 \<le> sint len \<and> sint len \<le> int MAX_STRING_CHARS * 4) then Err InvalidString
     else and_then (read_bytes (nat (sint len)) r1) (\<lambda>(bytes, r2).
       case from_utf8 bytes of
         None \<Rightarrow> Err InvalidUtf8
       | Some s \<Rightarrow> if chars_count s > MAX_STRING_CHARS then Err InvalidString else Ok (s, r2)))"

definition is_ascii_lowercase :: "u8 \<Rightarrow> bool" where
  "is_ascii_lowercase b \<longleftrightarrow> 0x61 \<le> b \<and> b \<le> 0x7A"

definition is_ascii_digit :: "u8 \<Rightarrow> bool" where
  "is_ascii_digit b \<longleftrightarrow> 0x30 \<le> b \<and> b \<le> 0x39"

text \<open>The byte literals are \<open>.\<close> (2E), \<open>_\<close> (5F), \<open>-\<close> (2D) and \<open>/\<close> (2F).\<close>

definition is_valid_namespace :: "string \<Rightarrow> bool" where
  "is_valid_namespace s \<longleftrightarrow> s \<noteq> [] \<and> list_all (\<lambda>b. is_ascii_lowercase b \<or> is_ascii_digit b \<or>
     b \<in> {0x2E, 0x5F, 0x2D}) (as_bytes s)"

definition is_valid_path :: "string \<Rightarrow> bool" where
  "is_valid_path s \<longleftrightarrow> s \<noteq> [] \<and> list_all (\<lambda>b. is_ascii_lowercase b \<or> is_ascii_digit b \<or>
     b \<in> {0x2E, 0x5F, 0x2D, 0x2F}) (as_bytes s)"

text \<open>\<open>str::split_once\<close>: the parts before and after the first occurrence.\<close>

fun split_once :: "char \<Rightarrow> string \<Rightarrow> (string \<times> string) option" where
  "split_once c [] = None"
| "split_once c (x # xs) =
     (if x = c then Some ([], xs) else map_option (\<lambda>(a, b). (x # a, b)) (split_once c xs))"

definition put_identifier ::
  "packet_writer \<Rightarrow> string \<Rightarrow> string \<Rightarrow> protocol_error + packet_writer" where
  "put_identifier w namespace path =
     (if \<not> is_valid_namespace namespace then Err InvalidIdentifier
      else if \<not> is_valid_path path then Err InvalidIdentifier
      else put_string w (namespace @ '':'' @ path))"

definition read_identifier :: "packet_reader \<Rightarrow> string reading" where
  "read_identifier r = and_then (read_string r) (\<lambda>(raw, r1).
     let (namespace, path) =
       (case split_once (CHR '':'') raw of Some p \<Rightarrow> p | None \<Rightarrow> (''minecraft'', raw)) in
     if \<not> is_valid_namespace namespace then Err InvalidIdentifier
     else if \<not> is_valid_path path then Err InvalidIdentifier
     else Ok (namespace @ '':'' @ path, r1))"

section \<open>Block positions\<close>

definition pack_position :: "i32 \<Rightarrow> i32 \<Rightarrow> i32 \<Rightarrow> i64" where
  "pack_position x y z =
     push_bit 38 (scast x AND 0x3FFFFFF) OR push_bit 12 (scast z AND 0x3FFFFFF) OR (scast y AND 0xFFF)"

definition unpack_position :: "i64 \<Rightarrow> i32 \<times> i32 \<times> i32" where
  "unpack_position packed =
     (ucast (signed_drop_bit 38 packed),
      ucast (signed_drop_bit 52 (push_bit 52 packed)),
      ucast (signed_drop_bit 38 (push_bit 26 packed)))"

definition put_position :: "packet_writer \<Rightarrow> i32 \<times> i32 \<times> i32 \<Rightarrow> packet_writer" where
  "put_position w p = (case p of (x, y, z) \<Rightarrow> put_i64 w (pack_position x y z))"

definition read_position :: "packet_reader \<Rightarrow> (i32 \<times> i32 \<times> i32) reading" where
  "read_position r = and_then (get_i64 r) (\<lambda>(packed, r1). Ok (unpack_position packed, r1))"

section \<open>Lengths as \<open>i32\<close>\<close>

lemma sint_word_of_nat_len: "n < 2 ^ 31 \<Longrightarrow> sint (word_of_nat n :: i32) = int n"
  by (simp add: signed_of_nat signed_take_bit_int_eq_self)

lemma get_varint_at [wire_simps]:
  "get_varint (reader_at pre (write_var_loop v @ suf)) =
   Ok (v, reader_at (pre @ write_var_loop v) suf)"
  by (rule varint.get_enc) simp

lemma put_varint_buf [simp]: "wr_buf (put_varint w v) = wr_buf w @ write_var_loop v"
  by (rule varint.put_enc) simp

definition byte_array_enc :: "u8 list \<Rightarrow> u8 list" where
  "byte_array_enc bs = write_var_loop (word_of_nat (length bs) :: i32) @ bs"

interpretation byte_array: wire_codec put_byte_array read_byte_array byte_array_enc
  "\<lambda>bs. length bs < 2 ^ 31"
  by unfold_locales
    (simp_all add: put_byte_array_def read_byte_array_def byte_array_enc_def wire_simps
      sint_word_of_nat_len)

section \<open>Arrays and options over any codec\<close>

context wire_codec
begin

definition array_enc :: "'v list \<Rightarrow> u8 list" where
  "array_enc vs = write_var_loop (word_of_nat (length vs) :: i32) @ concat (map enc vs)"

definition option_enc :: "'v option \<Rightarrow> u8 list" where
  "option_enc v = (case v of None \<Rightarrow> [0] | Some x \<Rightarrow> 1 # enc x)"

lemma foldl_put: "list_all valid vs \<Longrightarrow> wr_buf (foldl put w vs) = wr_buf w @ concat (map enc vs)"
  by (induction vs arbitrary: w) (auto simp: put_enc)

lemma read_n_enc:
  "list_all valid vs \<Longrightarrow> read_n get (length vs) (reader_at pre (concat (map enc vs) @ suf)) =
    Ok (vs, reader_at (pre @ concat (map enc vs)) suf)"
  by (induction vs arbitrary: pre) (auto simp: get_enc)

lemma length_concat_enc: "list_all valid vs \<Longrightarrow> length vs \<le> length (concat (map enc vs))"
proof (induction vs)
  case (Cons v vs)
  obtain b bs where "enc v = b # bs" using Cons.prems enc_nonempty [of v] by (cases "enc v") auto
  with Cons show ?case by simp
qed simp

lemma array_codec:
  "wire_codec (\<lambda>w vs. put_array w vs put) (read_array get) array_enc
    (\<lambda>vs. list_all valid vs \<and> length vs < 2 ^ 31)"
proof
  fix vs :: "'v list" and w pre suf
  assume v: "list_all valid vs \<and> length vs < 2 ^ 31"
  show "wr_buf (put_array w vs put) = wr_buf w @ array_enc vs"
    using v by (simp add: put_array_def array_enc_def foldl_put)
  show "read_array get (reader_at pre (array_enc vs @ suf)) =
      Ok (vs, reader_at (pre @ array_enc vs) suf)"
    using v length_concat_enc [of vs] read_n_enc [of vs]
    by (simp add: read_array_def array_enc_def wire_simps sint_word_of_nat_len)
  show "array_enc vs \<noteq> []" by (simp add: array_enc_def)
qed

lemma option_codec:
  "wire_codec (\<lambda>w v. put_option w v put) (read_option get) option_enc
    (\<lambda>v. case v of None \<Rightarrow> True | Some x \<Rightarrow> valid x)"
proof
  fix v :: "'v option" and w pre suf
  assume v: "case v of None \<Rightarrow> True | Some x \<Rightarrow> valid x"
  have b0: "get_bool (reader_at pre (0 # t)) = Ok (False, reader_at (pre @ [0]) t)"
    and b1: "get_bool (reader_at pre (1 # t)) = Ok (True, reader_at (pre @ [1]) t)" for t
    by (simp_all add: get_bool_def wire_simps)
  show "wr_buf (put_option w v put) = wr_buf w @ option_enc v"
    using v by (cases v) (simp_all add: put_option_def option_enc_def put_bool_def put_u8_def put_enc)
  show "read_option get (reader_at pre (option_enc v @ suf)) =
      Ok (v, reader_at (pre @ option_enc v) suf)"
    using v get_enc [of _ "pre @ [1]" suf]
    by (cases v) (simp_all add: read_option_def option_enc_def b0 b1)
  show "option_enc v \<noteq> []" by (cases v) (simp_all add: option_enc_def)
qed

end

interpretation varint_array: wire_codec
  "\<lambda>w vs. put_array w vs put_varint" "read_array get_varint" varint.array_enc
  "\<lambda>vs. list_all (\<lambda>_. True) vs \<and> length vs < 2 ^ 31"
  by (rule varint.array_codec)

interpretation byte_array_option: wire_codec
  "\<lambda>w v. put_option w v put_byte_array" "read_option read_byte_array" byte_array.option_enc
  "\<lambda>v. case v of None \<Rightarrow> True | Some bs \<Rightarrow> length bs < 2 ^ 31"
  by (rule byte_array.option_codec)

section \<open>Safety of the composite readers\<close>

context safe_read
begin

lemma read_n_safe:
  "reader_wf r \<Longrightarrow> read_n get n r = Ok (vs, r') \<Longrightarrow>
    reader_wf r' \<and> rd_data r' = rd_data r \<and> rd_pos r \<le> rd_pos r' \<and> length vs = n"
proof (induction n arbitrary: r vs)
  case (Suc n)
  then obtain v r1 vs' where "get r = Ok (v, r1)" "read_n get n r1 = Ok (vs', r')" "vs = v # vs'"
    by auto
  with Suc.IH [of r1 vs'] get_safe [of r v r1] Suc.prems show ?case by auto
qed simp

text \<open>The vector \<open>read_array\<close> allocates is never longer than the bytes that were left.\<close>

lemma read_array_bounded:
  assumes "reader_wf r" and "read_array get r = Ok (vs, r')"
  shows "reader_wf r' \<and> rd_data r' = rd_data r \<and> rd_pos r \<le> rd_pos r' \<and> length vs \<le> remaining r"
proof -
  from assms obtain len r1 where len: "get_varint r = Ok (len, r1)" "0 \<le> sint len"
      "nat (sint len) \<le> remaining r1" and rd: "read_n get (nat (sint len)) r1 = Ok (vs, r')"
    by (auto simp: read_array_def split: if_splits)
  from read_varint.get_safe [OF assms(1) len(1)]
  have r1: "reader_wf r1" "rd_data r1 = rd_data r" "rd_pos r \<le> rd_pos r1" by auto
  from read_n_safe [OF r1(1) rd] r1 len(3) show ?thesis
    by (auto simp: remaining_def)
qed

end

section \<open>Strings round trip\<close>

lemma chars_count_bound: "valid_str s \<Longrightarrow> chars_count s \<le> 32767 \<Longrightarrow> length s \<le> 131068"
  using valid_str_length [of s] by simp

lemma read_string_at [wire_simps]:
  assumes "valid_str s" and "chars_count s \<le> 32767"
  shows "read_string (reader_at pre (byte_array_enc (as_bytes s) @ suf)) =
    Ok (s, reader_at (pre @ byte_array_enc (as_bytes s)) suf)"
  using assms chars_count_bound [OF assms]
  by (simp add: read_string_def byte_array_enc_def wire_simps sint_word_of_nat_len MAX_STRING_CHARS_def)

lemma put_string_Ok:
  "chars_count s \<le> 32767 \<Longrightarrow>
   \<exists>w'. put_string w s = Ok w' \<and> wr_buf w' = wr_buf w @ byte_array_enc (as_bytes s)"
  by (simp add: put_string_def MAX_STRING_CHARS_def byte_array_enc_def)

lemma read_string_valid:
  "read_string r = Ok (s, r') \<Longrightarrow> valid_str s \<and> chars_count s \<le> 32767"
  by (auto simp: read_string_def MAX_STRING_CHARS_def dest: from_utf8_SomeD
      split: if_splits option.splits)

section \<open>Identifiers\<close>

lemma ident_byte_ascii:
  "is_ascii_lowercase b \<or> is_ascii_digit b \<or> b \<in> {0x2E, 0x5F, 0x2D, 0x2F} \<Longrightarrow>
    b < 0x80 \<and> b \<noteq> 0x3A"
  by (auto simp: is_ascii_lowercase_def is_ascii_digit_def word_le_nat_alt word_less_nat_alt)

lemma namespace_path: "is_valid_namespace s \<Longrightarrow> is_valid_path s"
  by (auto simp: is_valid_namespace_def is_valid_path_def list_all_iff)

lemma path_bytes: "is_valid_path s \<Longrightarrow> b \<in> set (as_bytes s) \<Longrightarrow> b < 0x80 \<and> b \<noteq> 0x3A"
  using ident_byte_ascii by (auto simp: is_valid_path_def list_all_iff)

lemma colon_byte: "as_bytes '':'' = [0x3A]"
  by (simp add: as_bytes_def u8_of_char_def of_char_def)

lemma namespace_no_colon:
  assumes "is_valid_namespace s"
  shows "CHR '':'' \<notin> set s"
proof
  assume "CHR '':'' \<in> set s"
  then have "u8_of_char (CHR '':'') \<in> set (as_bytes s)" by (simp add: as_bytes_def)
  moreover have "u8_of_char (CHR '':'') = 0x3A" using colon_byte by (simp add: as_bytes_def)
  ultimately show False using path_bytes [OF namespace_path [OF assms]] by auto
qed

lemma split_once_append: "c \<notin> set a \<Longrightarrow> split_once c (a @ c # b) = Some (a, b)"
  by (induction a) auto

lemma identifier_valid_str:
  assumes "is_valid_namespace ns" and "is_valid_path p"
  shows "valid_str (ns @ '':'' @ p)"
proof -
  have "b < 0x80" if "b \<in> set (as_bytes (ns @ '':'' @ p))" for b
    using that path_bytes [OF assms(2)] path_bytes [OF namespace_path [OF assms(1)]]
    by (auto simp: as_bytes_append colon_byte simp del: append_Cons append_Nil
        simp flip: append_assoc)
  then show ?thesis unfolding valid_str_def by (rule utf8_valid_ascii)
qed

lemma read_identifier_at [wire_simps]:
  assumes "is_valid_namespace ns" "is_valid_path p" "chars_count (ns @ '':'' @ p) \<le> 32767"
  shows "read_identifier (reader_at pre (byte_array_enc (as_bytes (ns @ '':'' @ p)) @ suf)) =
    Ok (ns @ '':'' @ p, reader_at (pre @ byte_array_enc (as_bytes (ns @ '':'' @ p))) suf)"
  using assms read_string_at [OF identifier_valid_str [OF assms(1,2)] assms(3)]
    split_once_append [OF namespace_no_colon [OF assms(1)], of p]
  by (simp add: read_identifier_def)

lemma read_identifier_normal:
  assumes "read_identifier r = Ok (s, r')"
  shows "\<exists>ns p. s = ns @ '':'' @ p \<and> is_valid_namespace ns \<and> is_valid_path p"
proof -
  from assms obtain raw r1 where raw: "read_string r = Ok (raw, r1)"
    by (auto simp: read_identifier_def)
  obtain ns p where "(case split_once (CHR '':'') raw of Some q \<Rightarrow> q | None \<Rightarrow> (''minecraft'', raw)) = (ns, p)"
    by fastforce
  with assms raw show ?thesis
    by (auto simp: read_identifier_def split: if_splits)
qed

section \<open>Positions\<close>

lemma position_masks: "(0x3FFFFFF :: i64) = mask 26" "(0xFFF :: i64) = mask 12"
  by (simp_all add: mask_numeral)

lemma bit_pack_position:
  "n < 64 \<Longrightarrow> bit (pack_position x y z) n \<longleftrightarrow>
    (if n < 12 then bit y n else if n < 38 then bit z (n - 12) else bit x (n - 38))"
  unfolding pack_position_def position_masks by (auto simp: bit_simps)

lemma unpack_x: "ucast (signed_drop_bit 38 (pack_position x y z)) = signed_take_bit 25 x"
proof (rule bit_word_eqI)
  fix n
  show "bit (ucast (signed_drop_bit 38 (pack_position x y z)) :: i32) n \<longleftrightarrow>
      bit (signed_take_bit 25 x) n" if "n < LENGTH(32)"
    using that by (cases n "25::nat" rule: linorder_cases) (auto simp: bit_simps bit_pack_position min_def)
qed

lemma unpack_y: "ucast (signed_drop_bit 52 (push_bit 52 (pack_position x y z))) = signed_take_bit 11 y"
proof (rule bit_word_eqI)
  fix n
  show "bit (ucast (signed_drop_bit 52 (push_bit 52 (pack_position x y z))) :: i32) n \<longleftrightarrow>
      bit (signed_take_bit 11 y) n" if "n < LENGTH(32)"
    using that by (cases n "11::nat" rule: linorder_cases) (auto simp: bit_simps bit_pack_position min_def)
qed

lemma unpack_z: "ucast (signed_drop_bit 38 (push_bit 26 (pack_position x y z))) = signed_take_bit 25 z"
proof (rule bit_word_eqI)
  fix n
  show "bit (ucast (signed_drop_bit 38 (push_bit 26 (pack_position x y z))) :: i32) n \<longleftrightarrow>
      bit (signed_take_bit 25 z) n" if "n < LENGTH(32)"
    using that by (cases n "25::nat" rule: linorder_cases) (auto simp: bit_simps bit_pack_position min_def)
qed

lemma unpack_pack_position:
  "unpack_position (pack_position x y z) =
    (signed_take_bit 25 x, signed_take_bit 11 y, signed_take_bit 25 z)"
  by (simp add: unpack_position_def unpack_x unpack_y unpack_z)

lemma pack_unpack_position: "unpack_position p = (x, y, z) \<Longrightarrow> pack_position x y z = p"
proof (rule bit_word_eqI)
  fix n
  assume u: "unpack_position p = (x, y, z)" and n: "n < LENGTH(64)"
  consider "n < 12" | "12 \<le> n" "n < 38" | "38 \<le> n" by linarith
  then show "bit (pack_position x y z) n \<longleftrightarrow> bit p n"
    using u n
    by cases (auto simp: unpack_position_def bit_pack_position bit_simps split: if_splits)
qed

lemma signed_take_bit_self:
  assumes "- (2 ^ n) \<le> sint x" "sint x < 2 ^ n"
  shows "signed_take_bit n (x::'a::len word) = x"
proof (rule bit_word_eqI)
  fix k
  assume k: "k < LENGTH('a)"
  have "bit (signed_take_bit n (sint x)) k \<longleftrightarrow> bit (sint x) (min k n)"
    by (simp add: Bit_Operations.bit_signed_take_bit_iff min.commute)
  then have "bit (sint x) k \<longleftrightarrow> bit (sint x) (min k n)"
    by (simp add: signed_take_bit_int_eq_self [OF assms])
  then show "bit (signed_take_bit n x) k \<longleftrightarrow> bit x k"
    using k by (cases "k < LENGTH('a) - Suc 0"; cases "k \<le> n")
      (auto simp: bit_simps min_def not_less not_le le_less_Suc_eq dest: le_antisym)
qed

lemma bit_sint_i32: "bit (sint (v::i32)) k = bit v (min k 31)"
proof (cases "k < 32")
  case True
  then have "k \<le> 31" by simp
  then show ?thesis using True by (auto simp: bit_sint_iff min_absorb1 le_less_Suc_eq dest: antisym)
next
  case False
  then have "\<not> bit v k" using bit_imp_le_length [of v k] by auto
  with False show ?thesis by (simp add: bit_sint_iff min_absorb2)
qed

lemma signed_take_bit_self_range:
  assumes s: "signed_take_bit n (v::i32) = v" and n: "n < 31"
  shows "- (2 ^ n) \<le> sint v \<and> sint v < 2 ^ n"
proof -
  have b: "bit v k = bit v n" if "n \<le> k" "k < 32" for k
  proof -
    have "bit (signed_take_bit n v) k = bit v n"
      using that by (cases k n rule: linorder_cases) (auto simp: bit_simps min_def)
    then show ?thesis by (simp only: s)
  qed
  have "bit (sint v) k = bit (sint v) (min k n)" for k
  proof (cases "k \<le> n")
    case False
    then have "bit v (min k 31) = bit v n" using n by (intro b) auto
    with False n show ?thesis unfolding bit_sint_i32 by (simp add: min_def)
  qed (simp add: min_absorb1)
  then have "signed_take_bit n (sint v) = sint v"
    by (intro bit_eqI) (metis Bit_Operations.bit_signed_take_bit_iff min.commute possible_bit_def)
  then show ?thesis
    using signed_take_bit_int_greater_eq_minus_exp [of n "sint v"] signed_take_bit_int_less_exp [of n "sint v"]
    by simp
qed

text \<open>The block positions of the world border and height limits the packing can hold.\<close>

definition position_ok :: "i32 \<times> i32 \<times> i32 \<Rightarrow> bool" where
  "position_ok p = (case p of (x, y, z) \<Rightarrow>
     - (2 ^ 25) \<le> sint x \<and> sint x < 2 ^ 25 \<and> - (2 ^ 11) \<le> sint y \<and> sint y < 2 ^ 11 \<and>
     - (2 ^ 25) \<le> sint z \<and> sint z < 2 ^ 25)"

lemma unpack_pack_ok: "position_ok (x, y, z) \<Longrightarrow> unpack_position (pack_position x y z) = (x, y, z)"
  by (simp add: unpack_pack_position position_ok_def signed_take_bit_self)

lemma get_i64_at [wire_simps]:
  "get_i64 (reader_at pre (to_be_bytes 8 v @ suf)) = Ok (v, reader_at (pre @ to_be_bytes 8 v) suf)"
  by (rule i64.get_enc) simp

definition position_enc :: "i32 \<times> i32 \<times> i32 \<Rightarrow> u8 list" where
  "position_enc p = (case p of (x, y, z) \<Rightarrow> to_be_bytes 8 (pack_position x y z))"

interpretation position: wire_codec put_position read_position position_enc position_ok
proof
  fix p w pre suf
  assume ok: "position_ok p"
  obtain x y z where p: "p = (x, y, z)" by (cases p)
  show "wr_buf (put_position w p) = wr_buf w @ position_enc p"
    by (simp add: p put_position_def position_enc_def put_i64_def)
  show "read_position (reader_at pre (position_enc p @ suf)) = Ok (p, reader_at (pre @ position_enc p) suf)"
    using ok by (simp add: p read_position_def position_enc_def get_i64_at unpack_pack_ok)
  show "position_enc p \<noteq> []" by (auto simp: p position_enc_def dest: arg_cong [where f = length])
qed

section \<open>Properties\<close>



text \<open>
  A string of at most 32767 characters is written, and reads back unchanged with the cursor
  right behind it; a longer one is refused; no byte sequence makes \<open>read_string\<close> return a longer
  one or one that is not UTF-8.
\<close>

theorem string_roundtrip:
  "(valid_str s \<and> chars_count s \<le> MAX_STRING_CHARS \<longrightarrow>
     (\<exists>w. put_string new_writer s = Ok w \<and>
       read_string (reader_at pre (wr_buf w @ suf)) = Ok (s, reader_at (pre @ wr_buf w) suf))) \<and>
   (chars_count s > MAX_STRING_CHARS \<longrightarrow> (\<forall>w. \<exists>e. put_string w s = Err e)) \<and>
   (read_string r = Ok (t, r') \<longrightarrow> valid_str t \<and> chars_count t \<le> MAX_STRING_CHARS)"
  using put_string_Ok [of s new_writer] read_string_at [of s pre suf] read_string_valid [of r t r']
  by (auto simp: MAX_STRING_CHARS_def new_writer_def put_string_def)

theorem string_roundtrip_witness:
  "valid_str ''ab'' \<and> chars_count ''ab'' \<le> MAX_STRING_CHARS \<and>
   (\<exists>w. put_string new_writer ''ab'' = Ok w \<and>
     read_string (reader_at [0] (wr_buf w @ [5])) = Ok (''ab'', reader_at ([0] @ wr_buf w) [5]))"
proof -
  have "valid_str ''ab''" "chars_count ''ab'' \<le> MAX_STRING_CHARS" by code_simp+
  with string_roundtrip [of "''ab''" "[0]" "[5]"] show ?thesis by blast
qed

text \<open>
  every identifier that \<open>read_identifier\<close> returns is \<open>namespace:path\<close> over the allowed
  characters, the namespace being \<open>minecraft\<close> when the bytes name none; and an identifier in that
  form reads back unchanged.
\<close>

theorem identifier_normal_form:
  "(read_identifier r = Ok (s, r') \<longrightarrow>
     (\<exists>ns p. s = ns @ '':'' @ p \<and> is_valid_namespace ns \<and> is_valid_path p)) \<and>
   (is_valid_namespace ns \<and> is_valid_path p \<and> chars_count (ns @ '':'' @ p) \<le> MAX_STRING_CHARS \<longrightarrow>
     read_identifier (reader_at pre (byte_array_enc (as_bytes (ns @ '':'' @ p)) @ suf)) =
       Ok (ns @ '':'' @ p, reader_at (pre @ byte_array_enc (as_bytes (ns @ '':'' @ p))) suf))"
  using read_identifier_normal [of r s r'] read_identifier_at [of ns p pre suf]
  by (auto simp: MAX_STRING_CHARS_def)

theorem identifier_normal_form_witness:
  "read_identifier (new_reader [3, 97, 58, 98]) = Ok (''a:b'', \<lparr>rd_data = [3, 97, 58, 98], rd_pos = 4\<rparr>) \<and>
   read_identifier (new_reader [1, 98]) = Ok (''minecraft:b'', \<lparr>rd_data = [1, 98], rd_pos = 2\<rparr>) \<and>
   (\<exists>ns p. ''minecraft:b'' = ns @ '':'' @ p \<and> is_valid_namespace ns \<and> is_valid_path p) \<and>
   read_identifier (reader_at [] (byte_array_enc (as_bytes (''a'' @ '':'' @ ''b'')) @ [])) =
     Ok (''a'' @ '':'' @ ''b'', reader_at ([] @ byte_array_enc (as_bytes (''a'' @ '':'' @ ''b''))) [])"
proof -
  have a: "read_identifier (new_reader [3, 97, 58, 98]) = Ok (''a:b'', \<lparr>rd_data = [3, 97, 58, 98], rd_pos = 4\<rparr>)"
    by code_simp
  have b: "read_identifier (new_reader [1, 98]) = Ok (''minecraft:b'', \<lparr>rd_data = [1, 98], rd_pos = 2\<rparr>)"
    by code_simp
  have "is_valid_namespace ''a''" "is_valid_path ''b''"
      "chars_count (''a'' @ '':'' @ ''b'') \<le> MAX_STRING_CHARS"
    by code_simp+
  then show ?thesis
    using a b identifier_normal_form [of "new_reader [1, 98]" "''minecraft:b''" "\<lparr>rd_data = [1, 98], rd_pos = 2\<rparr>"
      "''a''" "''b''" "[]" "[]"] by blast
qed

text \<open>
  Packing is the inverse of unpacking on every 64-bit value, and unpacking is the inverse of
  packing exactly on the coordinates the format holds: 26 signed bits for x and z, 12 for y.
\<close>

theorem position_bijective:
  "(case unpack_position p of (a, b, c) \<Rightarrow> pack_position a b c = p \<and> position_ok (a, b, c)) \<and>
   (unpack_position (pack_position x y z) = (x, y, z) \<longleftrightarrow> position_ok (x, y, z))"
proof (intro conjI iffI)
  have ok: "position_ok (a, b, c)" if "unpack_position (pack_position a b c) = (a, b, c)" for a b c
  proof -
    from that have s: "signed_take_bit 25 a = a" "signed_take_bit 11 b = b" "signed_take_bit 25 c = c"
      by (simp_all add: unpack_pack_position)
    have rng: "- (2 ^ n) \<le> sint v \<and> sint v < 2 ^ n" if "signed_take_bit n v = v" "n < 31" for n and v :: i32
      using signed_take_bit_self_range [OF that] .
    show ?thesis using rng [OF s(1)] rng [OF s(2)] rng [OF s(3)] by (simp add: position_ok_def)
  qed
  show "case unpack_position p of (a, b, c) \<Rightarrow> pack_position a b c = p \<and> position_ok (a, b, c)"
    using pack_unpack_position [of p] ok by (auto split: prod.splits)
  show "unpack_position (pack_position x y z) = (x, y, z) \<Longrightarrow> position_ok (x, y, z)" by (rule ok)
  show "position_ok (x, y, z) \<Longrightarrow> unpack_position (pack_position x y z) = (x, y, z)"
    by (rule unpack_pack_ok)
qed

end
