(* ===== verification/Wire_Frame.thy ===== *)
theory Wire_Frame
  imports Wire_Buffer
begin

text \<open>
  The frame codec: codec.rs, compression.rs and packet.rs. A frame is a VarInt length and a
  body; with compression enabled the body carries its own uncompressed length. \<open>try_decode\<close>
  works on the bytes received so far and leaves them alone until the frame is complete.

  zlib is a third-party crate and a parameter: \<open>deflate\<close> is the whole output of a
  \<open>ZlibEncoder\<close> and \<open>inflate data cap\<close> what reading at most \<open>cap\<close> bytes from a \<open>ZlibDecoder\<close>
  over \<open>data\<close> gives; \<open>None\<close> is an I/O error. The one law assumed of them, where a theorem needs
  it, is \<open>zlib_lossless\<close>.
\<close>

section \<open>Packets and compression\<close>

record raw_packet =
  pk_id :: i32
  pk_payload :: "u8 list"

type_synonym deflate = "u8 list \<Rightarrow> u8 list option"
type_synonym inflate = "u8 list \<Rightarrow> nat \<Rightarrow> u8 list option"

definition MAX_DECOMPRESSED :: nat where "MAX_DECOMPRESSED = 64 * 1024 * 1024"

definition compress :: "deflate \<Rightarrow> u8 list \<Rightarrow> protocol_error + u8 list" where
  "compress defl bs = (case defl bs of None \<Rightarrow> Err Compression | Some out \<Rightarrow> Ok out)"

definition decompress :: "inflate \<Rightarrow> u8 list \<Rightarrow> nat \<Rightarrow> protocol_error + u8 list" where
  "decompress infl bs expected_len =
     (let cap = min (expected_len + 1) MAX_DECOMPRESSED in
      case infl bs cap of
        None \<Rightarrow> Err Compression
      | Some out \<Rightarrow> if length out \<noteq> expected_len then Err Compression else Ok out)"

definition zlib_lossless :: "deflate \<Rightarrow> inflate \<Rightarrow> bool" where
  "zlib_lossless defl infl \<longleftrightarrow>
     (\<forall>bs out cap. defl bs = Some out \<longrightarrow> infl out cap = Some (take cap bs))"

section \<open>The codec\<close>

definition MAX_FRAME_SIZE :: nat where "MAX_FRAME_SIZE = 2 * 1024 * 1024"

record frame_codec =
  compression_threshold :: "i32 option"

definition new_codec :: frame_codec where
  "new_codec = \<lparr>compression_threshold = None\<rparr>"

definition set_compression_threshold :: "frame_codec \<Rightarrow> i32 \<Rightarrow> frame_codec" where
  "set_compression_threshold c threshold =
     c\<lparr>compression_threshold := (if sint threshold < 0 then None else Some threshold)\<rparr>"

definition encode :: "deflate \<Rightarrow> frame_codec \<Rightarrow> raw_packet \<Rightarrow> protocol_error + u8 list" where
  "encode defl c packet =
     (let body = write_varint [] (pk_id packet) @ pk_payload packet in
      and_then
        (case compression_threshold c of
           Some threshold \<Rightarrow>
             if length body \<ge> unat (scast threshold :: u64)
             then and_then (compress defl body) (\<lambda>compressed.
               Ok (write_varint [] (word_of_nat (length body)) @ compressed))
             else Ok (write_varint [] 0 @ body)
         | None \<Rightarrow> Ok body)
        (\<lambda>framed_body. Ok (write_varint [] (word_of_nat (length framed_body)) @ framed_body)))"

fun peek_loop :: "nat \<Rightarrow> nat \<Rightarrow> u32 \<Rightarrow> u8 list \<Rightarrow> protocol_error + (nat \<times> nat) option" where
  "peek_loop 0 i result buf = Err VarIntTooLong"
| "peek_loop (Suc k) i result buf =
     (if i < length buf then
        let byte = buf ! i; result' = result OR push_bit (i * 7) (ucast (byte AND 0x7F)) in
        if byte AND 0x80 = 0 then
          (let frame_len = unat result' in
           if frame_len > MAX_FRAME_SIZE then Err (FrameTooLarge frame_len MAX_FRAME_SIZE)
           else Ok (Some (frame_len, i + 1)))
        else peek_loop k (Suc i) result' buf
      else Ok None)"

definition peek_frame_length :: "u8 list \<Rightarrow> protocol_error + (nat \<times> nat) option" where
  "peek_frame_length buf = peek_loop MAX_VARINT_BYTES 0 0 buf"

text \<open>The part of \<open>try_decode\<close> after the frame was split off: unpack the body, split the id.\<close>

definition decode_frame :: "inflate \<Rightarrow> frame_codec \<Rightarrow> u8 list \<Rightarrow> protocol_error + raw_packet option" where
  "decode_frame infl c frame_bytes =
     and_then
       (case compression_threshold c of
          Some _ \<Rightarrow> and_then (get_varint (new_reader frame_bytes)) (\<lambda>(data_length, r).
            if sint data_length < 0 then Err (NegativeLength data_length)
            else if sint data_length > int MAX_FRAME_SIZE
              then Err (FrameTooLarge (nat (sint data_length)) MAX_FRAME_SIZE)
            else if data_length = 0 then Ok (rest r)
            else decompress infl (rest r) (nat (sint data_length)))
        | None \<Rightarrow> Ok frame_bytes)
       (\<lambda>body. and_then (get_varint (new_reader body)) (\<lambda>(id, r).
          Ok (Some \<lparr>pk_id = id, pk_payload = rest r\<rparr>)))"

definition try_decode ::
  "inflate \<Rightarrow> frame_codec \<Rightarrow> u8 list \<Rightarrow> (protocol_error + raw_packet option) \<times> u8 list" where
  "try_decode infl c buf =
     (case peek_frame_length buf of
        Err e \<Rightarrow> (Err e, buf)
      | Ok None \<Rightarrow> (Ok None, buf)
      | Ok (Some (frame_len, varint_len)) \<Rightarrow>
          if length buf - varint_len < frame_len then (Ok None, buf)
          else (let buf1 = drop varint_len buf in
                (decode_frame infl c (take frame_len buf1), drop frame_len buf1)))"

section \<open>Encoded lengths under \<open>peek\<close>\<close>

lemma butlast_write_var_loop: "list_all continues (butlast (write_var_loop v))"
proof (induction v rule: write_var_loop.induct)
  case (1 v)
  then show ?case
    by (cases "drop_bit 7 v = 0")
       (auto simp: write_var_loop.simps [of v] continues_def cont_bit Let_def)
qed

lemma peek_write_var_loop:
  "length (write_var_loop v) \<le> k \<Longrightarrow> i = length pre \<Longrightarrow>
   peek_loop k i result (pre @ write_var_loop v @ suf) =
     (let n = unat (result OR push_bit (i * 7) v) in
      if n > MAX_FRAME_SIZE then Err (FrameTooLarge n MAX_FRAME_SIZE)
      else Ok (Some (n, i + length (write_var_loop v))))"
proof (induction v arbitrary: k i result pre rule: write_var_loop.induct)
  case (1 v)
  let ?lo = "ucast (v AND 0x7F) :: u8" and ?hi = "drop_bit 7 v"
  obtain k' where k: "k = Suc k'"
    using "1.prems" write_var_loop_nonempty [of v] by (cases k) auto
  have split: "push_bit (i * 7) (v AND 0x7F) OR push_bit (Suc i * 7) ?hi = push_bit (i * 7) v"
  proof -
    have "push_bit (Suc i * 7) ?hi = push_bit (i * 7) (push_bit 7 ?hi)"
      by (simp add: add.commute)
    then show ?thesis by (simp only: push_bit_or [symmetric] split_low7)
  qed
  show ?case
  proof (cases "?hi = 0")
    case True
    have v: "v AND 0x7F = v" using split_low7 [of v] True by simp
    show ?thesis using True low7_byte(1) [of v] cont_bit(1) [of v] "1.prems"
      by (simp add: write_var_loop.simps [of v] k v Let_def)
  next
    case False
    have enc: "write_var_loop v = (?lo OR 0x80) # write_var_loop ?hi"
      using False by (simp add: write_var_loop.simps [of v] Let_def)
    then have len: "length (write_var_loop ?hi) \<le> k'" using "1.prems" k by simp
    let ?res = "result OR push_bit (i * 7) (v AND 0x7F)"
    have "peek_loop k' (Suc i) ?res ((pre @ [?lo OR 0x80]) @ write_var_loop ?hi @ suf) =
        (let n = unat (?res OR push_bit (Suc i * 7) ?hi) in
         if n > MAX_FRAME_SIZE then Err (FrameTooLarge n MAX_FRAME_SIZE)
         else Ok (Some (n, Suc i + length (write_var_loop ?hi))))"
      using "1.prems" by (intro "1.IH" [OF refl refl False len]) simp
    moreover have "?res OR push_bit (Suc i * 7) ?hi = result OR push_bit (i * 7) v"
      by (simp only: or.assoc split)
    ultimately show ?thesis using "1.prems"(2)
      by (simp add: enc k low7_byte cont_bit nth_append Let_def del: push_bit_and mult_Suc)
  qed
qed

lemma peek_frame_length_enc:
  assumes "n \<le> MAX_FRAME_SIZE"
  shows "peek_frame_length (write_var_loop (word_of_nat n :: u32) @ suf) =
    Ok (Some (n, length (write_var_loop (word_of_nat n :: u32))))"
proof -
  have "unat (word_of_nat n :: u32) = n"
    using assms by (simp add: unat_of_nat MAX_FRAME_SIZE_def)
  then show ?thesis
    using peek_write_var_loop [of "word_of_nat n :: u32" 5 0 "[]" 0 suf] assms
    by (simp add: peek_frame_length_def MAX_VARINT_BYTES_def length_write_varint_loop)
qed

lemma peek_incomplete:
  "list_all continues (drop i buf) \<Longrightarrow> length buf - i < k \<Longrightarrow> peek_loop k i result buf = Ok None"
proof (induction k i result buf rule: peek_loop.induct)
  case (2 k i result buf)
  show ?case
  proof (cases "i < length buf")
    case True
    then have d: "drop i buf = buf ! i # drop (Suc i) buf" by (simp add: Cons_nth_drop_Suc)
    with "2.prems" have "continues (buf ! i)" "list_all continues (drop (Suc i) buf)" by auto
    with "2.IH" [OF True refl refl] "2.prems" True show ?thesis
      by (simp add: continues_def [of "buf ! i"] Let_def)
  qed simp
qed simp

lemma peek_frame_length_prefix:
  assumes "write_var_loop (v::u32) = p @ q" "q \<noteq> []"
  shows "peek_frame_length p = Ok None"
proof -
  have "list_all continues p"
    using butlast_write_var_loop [of v] assms by (auto simp: butlast_append)
  moreover have "length p < 5"
    using length_write_varint_loop [of v] assms by (cases q) auto
  ultimately show ?thesis
    by (simp add: peek_frame_length_def MAX_VARINT_BYTES_def peek_incomplete)
qed

section \<open>Frames\<close>

text \<open>A length-prefixed body, as \<open>encode\<close> emits it.\<close>

definition frame_of :: "u8 list \<Rightarrow> u8 list" where
  "frame_of body = write_var_loop (word_of_nat (length body) :: u32) @ body"

lemma frame_of_nonempty [simp]: "frame_of body \<noteq> []"
  by (simp add: frame_of_def)

lemma try_decode_frame:
  assumes "length body \<le> MAX_FRAME_SIZE"
  shows "try_decode infl c (frame_of body @ suf) = (decode_frame infl c body, suf)"
  using peek_frame_length_enc [OF assms, of "body @ suf"]
  by (simp add: try_decode_def frame_of_def)

lemma try_decode_incomplete:
  assumes len: "length body \<le> MAX_FRAME_SIZE" and p: "frame_of body = p @ q" "q \<noteq> []"
  shows "try_decode infl c p = (Ok None, p)"
proof -
  let ?v = "write_var_loop (word_of_nat (length body) :: u32)"
  consider us where "?v = p @ us" "us \<noteq> []" | us where "p = ?v @ us" "body = us @ q"
    using p unfolding frame_of_def append_eq_append_conv2 by (metis append_Nil append_Nil2)
  then show ?thesis
  proof cases
    case 1
    then show ?thesis by (simp add: try_decode_def peek_frame_length_prefix)
  next
    case 2
    then show ?thesis
      using peek_frame_length_enc [OF len, of us] p(2) by (cases q) (simp_all add: try_decode_def)
  qed
qed

lemma encode_frame_of:
  "encode defl c p = Ok bs \<Longrightarrow> \<exists>body. bs = frame_of body"
  by (auto simp: encode_def frame_of_def write_varint_def Let_def)

section \<open>Round trip\<close>

text \<open>
  The packets a peer running the same codec accepts: the id and payload fit the frame cap and,
  where the body is compressed, so does what is put on the wire.
\<close>

definition body_of :: "raw_packet \<Rightarrow> u8 list" where
  "body_of p = write_var_loop (pk_id p) @ pk_payload p"

definition framed_body :: "deflate \<Rightarrow> frame_codec \<Rightarrow> raw_packet \<Rightarrow> u8 list option" where
  "framed_body defl c p =
     (case compression_threshold c of
        None \<Rightarrow> Some (body_of p)
      | Some t \<Rightarrow>
          if length (body_of p) \<ge> unat (scast t :: u64)
          then map_option (\<lambda>z. write_var_loop (word_of_nat (length (body_of p)) :: i32) @ z) (defl (body_of p))
          else Some (write_var_loop (0 :: i32) @ body_of p))"

definition sendable :: "deflate \<Rightarrow> frame_codec \<Rightarrow> raw_packet \<Rightarrow> bool" where
  "sendable defl c p \<longleftrightarrow>
     length (body_of p) \<le> MAX_FRAME_SIZE \<and>
     (case framed_body defl c p of None \<Rightarrow> False | Some b \<Rightarrow> length b \<le> MAX_FRAME_SIZE)"

lemma encode_framed_body:
  "encode defl c p =
     (case framed_body defl c p of None \<Rightarrow> Err Compression | Some b \<Rightarrow> Ok (frame_of b))"
  by (auto simp: encode_def framed_body_def body_of_def frame_of_def write_varint_def compress_def
      Let_def split: option.splits)

lemma get_varint_body:
  "get_varint (reader_at [] (body_of p)) = Ok (pk_id p, reader_at (write_var_loop (pk_id p)) (pk_payload p))"
  by (simp add: body_of_def wire_simps)

lemma decode_body:
  "and_then (get_varint (new_reader (body_of p))) (\<lambda>(id, r). Ok (Some \<lparr>pk_id = id, pk_payload = rest r\<rparr>))
     = Ok (Some p)"
  by (simp add: body_of_def new_reader_at wire_simps)

lemma decompress_deflated:
  assumes "zlib_lossless defl infl" "defl bs = Some z" "length bs \<le> MAX_FRAME_SIZE"
  shows "decompress infl z (length bs) = Ok bs"
  using assms by (simp add: decompress_def zlib_lossless_def MAX_DECOMPRESSED_def MAX_FRAME_SIZE_def)

lemma decode_framed_body:
  assumes z: "zlib_lossless defl infl" and p: "sendable defl c p" and b: "framed_body defl c p = Some b"
  shows "decode_frame infl c b = Ok (Some p)"
proof -
  have len: "length (body_of p) \<le> MAX_FRAME_SIZE" using p by (simp add: sendable_def)
  then have sz: "sint (word_of_nat (length (body_of p)) :: i32) = int (length (body_of p))"
    by (intro sint_word_of_nat_len) (simp add: MAX_FRAME_SIZE_def)
  have nz: "(word_of_nat (length (body_of p)) :: i32) \<noteq> 0"
  proof
    assume "(word_of_nat (length (body_of p)) :: i32) = 0"
    then have "length (body_of p) = 0" using sz by simp
    then show False by (simp add: body_of_def)
  qed
  show ?thesis
  proof (cases "compression_threshold c")
    case None
    with b have "b = body_of p" by (simp add: framed_body_def)
    with None show ?thesis by (simp add: decode_frame_def decode_body)
  next
    case (Some t)
    show ?thesis
    proof (cases "length (body_of p) \<ge> unat (scast t :: u64)")
      case True
      with b Some obtain out where "defl (body_of p) = Some out"
          "b = write_var_loop (word_of_nat (length (body_of p)) :: i32) @ out"
        by (auto simp: framed_body_def)
      with decompress_deflated [OF z _ len] show ?thesis
        using Some len nz
        by (simp add: decode_frame_def new_reader_at wire_simps sz get_varint_body)
    next
      case False
      with b Some have "b = write_var_loop (0 :: i32) @ body_of p" by (simp add: framed_body_def)
      with Some show ?thesis
        by (simp add: decode_frame_def new_reader_at wire_simps get_varint_body)
    qed
  qed
qed

lemma encode_sendable:
  assumes "sendable defl c p"
  obtains b where "encode defl c p = Ok (frame_of b)" "framed_body defl c p = Some b"
    "length b \<le> MAX_FRAME_SIZE"
  using assms by (auto simp: sendable_def encode_framed_body split: option.splits)

lemma try_decode_encode:
  assumes "zlib_lossless defl infl" "sendable defl c p" "encode defl c p = Ok bs"
  shows "try_decode infl c (bs @ suf) = (Ok (Some p), suf)"
proof -
  obtain b where b: "encode defl c p = Ok (frame_of b)" "framed_body defl c p = Some b"
      "length b \<le> MAX_FRAME_SIZE"
    using encode_sendable [OF assms(2)] .
  then have "bs = frame_of b" using assms(3) by simp
  then show ?thesis
    using try_decode_frame [OF b(3)] decode_framed_body [OF assms(1,2) b(2)] by simp
qed

lemma try_decode_encode_prefix:
  assumes "sendable defl c p" "encode defl c p = Ok bs" "bs = pre @ suf" "suf \<noteq> []"
  shows "try_decode infl c pre = (Ok None, pre)"
proof -
  obtain b where b: "encode defl c p = Ok (frame_of b)" "length b \<le> MAX_FRAME_SIZE"
    using encode_sendable [OF assms(1)] .
  then have "frame_of b = pre @ suf" using assms(2,3) by simp
  then show ?thesis using try_decode_incomplete [OF b(2) _ assms(4)] by blast
qed

section \<open>What a decoded frame can contain\<close>

text \<open>Whatever the bytes, a successful decode consumes a nonempty prefix and nothing else.\<close>

lemma peek_loop_Some:
  "peek_loop k i result buf = Ok (Some (n, m)) \<Longrightarrow> n \<le> MAX_FRAME_SIZE \<and> i < m \<and> m \<le> i + k \<and> m \<le> length buf"
  by (induction k i result buf rule: peek_loop.induct) (fastforce simp: Let_def split: if_splits)+

lemma try_decode_consumes:
  assumes "try_decode infl c buf = (Ok (Some p), buf')"
  shows "\<exists>used. buf = used @ buf' \<and> used \<noteq> [] \<and> length used \<le> MAX_FRAME_SIZE + 5"
proof -
  from assms obtain n m where pk: "peek_frame_length buf = Ok (Some (n, m))"
      and b: "buf' = drop n (drop m buf)" "\<not> length buf - m < n"
    by (auto simp: try_decode_def Let_def split: sum.splits option.splits if_splits)
  from peek_loop_Some [OF pk [unfolded peek_frame_length_def]]
  have *: "n \<le> MAX_FRAME_SIZE" "0 < m" "m \<le> 5" "m \<le> length buf"
    by (auto simp: MAX_VARINT_BYTES_def)
  show ?thesis
    by (rule exI [of _ "take (m + n) buf"]) (use * b in \<open>auto simp: add.commute\<close>)
qed

lemma try_decode_None: "try_decode infl c buf = (Ok None, buf') \<Longrightarrow> buf' = buf"
  by (auto simp: try_decode_def decode_frame_def Let_def split: sum.splits option.splits if_splits)

lemma get_varint_rest:
  assumes "get_varint (new_reader bs) = Ok (v, r')"
  shows "length (rest r') < length bs"
proof -
  have wf: "reader_wf (new_reader bs)" by (simp add: reader_wf_def new_reader_def)
  from read_var_loop_safe [OF wf assms [unfolded get_varint_def read_varint_def]]
  show ?thesis by (auto simp: rest_def new_reader_def reader_wf_def)
qed

lemma decode_frame_bounded:
  assumes "decode_frame infl c bs = Ok (Some p)" "length bs \<le> MAX_FRAME_SIZE"
  shows "length (pk_payload p) < MAX_FRAME_SIZE"
proof -
  from assms(1) obtain body pid r where
    body: "(case compression_threshold c of
          Some _ \<Rightarrow> and_then (get_varint (new_reader bs)) (\<lambda>(data_length, r).
            if sint data_length < 0 then Err (NegativeLength data_length)
            else if sint data_length > int MAX_FRAME_SIZE
              then Err (FrameTooLarge (nat (sint data_length)) MAX_FRAME_SIZE)
            else if data_length = 0 then Ok (rest r)
            else decompress infl (rest r) (nat (sint data_length)))
        | None \<Rightarrow> Ok bs) = Ok body" and
    p: "get_varint (new_reader body) = Ok (pid, r)" "pk_payload p = rest r"
    by (auto simp: decode_frame_def)
  have "length body \<le> MAX_FRAME_SIZE"
  proof (cases "compression_threshold c")
    case None
    with body assms(2) show ?thesis by simp
  next
    case (Some t)
    with body obtain n r1 where n: "get_varint (new_reader bs) = Ok (n, r1)" by auto
    from Some body n get_varint_rest [OF n] assms(2) show ?thesis
      by (auto simp: decompress_def Let_def split: if_splits option.splits)
  qed
  with get_varint_rest [OF p(1)] p(2) show ?thesis by simp
qed

section \<open>Properties\<close>

text \<open>
  Frame round trip with and without compression. A packet within the size limits encodes,
  the same codec decodes it from the front of any buffer and leaves exactly the rest; on every
  proper prefix of the frame the decoder asks for more and keeps the buffer.
\<close>

theorem frame_roundtrip:
  assumes "zlib_lossless defl infl" and "sendable defl c p"
  shows "\<exists>bs. encode defl c p = Ok bs \<and>
    (\<forall>suf. try_decode infl c (bs @ suf) = (Ok (Some p), suf)) \<and>
    (\<forall>pre suf. bs = pre @ suf \<longrightarrow> suf \<noteq> [] \<longrightarrow> try_decode infl c pre = (Ok None, pre))"
proof -
  obtain b where b: "encode defl c p = Ok (frame_of b)" using encode_sendable [OF assms(2)] .
  show ?thesis
    using try_decode_encode [OF assms b] try_decode_encode_prefix [OF assms(2) b] b by blast
qed

theorem frame_roundtrip_witness:
  "zlib_lossless Some (\<lambda>bs cap. Some (take cap bs)) \<and>
   sendable Some \<lparr>compression_threshold = Some 2\<rparr> \<lparr>pk_id = 300, pk_payload = [1, 2, 3]\<rparr> \<and>
   (\<exists>bs. encode Some \<lparr>compression_threshold = Some 2\<rparr> \<lparr>pk_id = 300, pk_payload = [1, 2, 3]\<rparr> = Ok bs \<and>
    (\<forall>suf. try_decode (\<lambda>bs cap. Some (take cap bs)) \<lparr>compression_threshold = Some 2\<rparr> (bs @ suf) =
      (Ok (Some \<lparr>pk_id = 300, pk_payload = [1, 2, 3]\<rparr>), suf)))"
proof -
  have z: "zlib_lossless Some (\<lambda>bs cap. Some (take cap bs))" by (simp add: zlib_lossless_def)
  have s: "sendable Some \<lparr>compression_threshold = Some 2\<rparr> \<lparr>pk_id = 300, pk_payload = [1, 2, 3]\<rparr>"
    by code_simp
  show ?thesis using frame_roundtrip [OF z s] z s by blast
qed



end
