(* ===== verification/Socks5.thy ===== *)
theory Socks5
  imports "HOL-Library.Sublist" Prelude
begin

text \<open>
  The SOCKS5 \<open>CONNECT\<close> negotiation of network/socks5.rs, and the retry classification of its
  errors (\<open>RetryClass\<close> of core/error.rs).

  The TCP stream is a state: the bytes the proxy will send and how the stream ends after them
  (end of file, a read that never completes before the deadline, an I/O error), the outcome of
  each write, and the bytes written so far. \<open>host.parse::<IpAddr>()\<close> is a standard-library
  parser used only as a classifier of the host name; it is the argument \<open>parse_ip\<close>. Endpoint and
  target strings inside errors are diagnostics and left out; the phase is kept.
\<close>

section \<open>Errors and their retry class\<close>

datatype retry_class = Transient | ServerRejected | AuthFailure | ProtocolIncompatible

datatype socks5_reply =
    Succeeded
  | GeneralFailure
  | NotAllowedByRuleset
  | NetworkUnreachable
  | HostUnreachable
  | ConnectionRefused
  | TtlExpired
  | CommandNotSupported
  | AddressTypeNotSupported
  | Unknown u8

definition from_code :: "u8 \<Rightarrow> socks5_reply" where
  "from_code code =
     (if code = 0x00 then Succeeded
      else if code = 0x01 then GeneralFailure
      else if code = 0x02 then NotAllowedByRuleset
      else if code = 0x03 then NetworkUnreachable
      else if code = 0x04 then HostUnreachable
      else if code = 0x05 then ConnectionRefused
      else if code = 0x06 then TtlExpired
      else if code = 0x07 then CommandNotSupported
      else if code = 0x08 then AddressTypeNotSupported
      else Unknown code)"

fun reply_retry_class :: "socks5_reply \<Rightarrow> retry_class" where
  "reply_retry_class Succeeded = Transient"
| "reply_retry_class NotAllowedByRuleset = ServerRejected"
| "reply_retry_class GeneralFailure = Transient"
| "reply_retry_class NetworkUnreachable = Transient"
| "reply_retry_class HostUnreachable = Transient"
| "reply_retry_class ConnectionRefused = Transient"
| "reply_retry_class TtlExpired = Transient"
| "reply_retry_class CommandNotSupported = ProtocolIncompatible"
| "reply_retry_class AddressTypeNotSupported = ProtocolIncompatible"
| "reply_retry_class (Unknown _) = ProtocolIncompatible"

datatype phase = ProxyTcpConnect | MethodNegotiation | Authentication | ConnectRequest | ConnectReply

datatype proxy_socks5_error =
    ProxyConnect
  | Proxy_Io phase
  | Proxy_Timeout phase
  | NoAcceptableAuthMethod
  | AuthenticationRejected
  | ConnectRefused socks5_reply
  | Proxy_Protocol phase
  | UsernameTooLong
  | PasswordTooLong
  | TargetTooLong

fun proxy_retry_class :: "proxy_socks5_error \<Rightarrow> retry_class" where
  "proxy_retry_class ProxyConnect = Transient"
| "proxy_retry_class (Proxy_Io _) = Transient"
| "proxy_retry_class (Proxy_Timeout _) = Transient"
| "proxy_retry_class NoAcceptableAuthMethod = AuthFailure"
| "proxy_retry_class AuthenticationRejected = AuthFailure"
| "proxy_retry_class UsernameTooLong = AuthFailure"
| "proxy_retry_class PasswordTooLong = AuthFailure"
| "proxy_retry_class TargetTooLong = ProtocolIncompatible"
| "proxy_retry_class (Proxy_Protocol _) = ProtocolIncompatible"
| "proxy_retry_class (ConnectRefused reply) = reply_retry_class reply"

section \<open>The stream\<close>

datatype stream_end = EndOfFile | NeverReady | ReadError
datatype write_outcome = WriteOk | WriteTimeout nat | WriteError nat

record stream =
  st_in :: "u8 list"
  st_end :: stream_end
  st_writes :: "write_outcome list"
  st_out :: "u8 list"

type_synonym 'a negotiation = "(stream, proxy_socks5_error, 'a) fallible"

text \<open>
  Writes that the script says nothing about succeed. A failing write may have pushed any prefix
  of the buffer before.
\<close>

definition write_all :: "u8 list \<Rightarrow> phase \<Rightarrow> unit negotiation" where
  "write_all buf ph s =
     (let s' = s\<lparr>st_writes := tl (st_writes s)\<rparr> in
      case (if st_writes s = [] then WriteOk else hd (st_writes s)) of
        WriteTimeout n \<Rightarrow> (Err (Proxy_Timeout ph), s'\<lparr>st_out := st_out s @ take n buf\<rparr>)
      | WriteError n \<Rightarrow> (Err (Proxy_Io ph), s'\<lparr>st_out := st_out s @ take n buf\<rparr>)
      | WriteOk \<Rightarrow> (Ok (), s'\<lparr>st_out := st_out s @ buf\<rparr>))"

definition read_exact :: "nat \<Rightarrow> phase \<Rightarrow> u8 list negotiation" where
  "read_exact n ph s =
     (if n \<le> length (st_in s) then (Ok (take n (st_in s)), s\<lparr>st_in := drop n (st_in s)\<rparr>)
      else (Err (case st_end s of
                   NeverReady \<Rightarrow> Proxy_Timeout ph
                 | EndOfFile \<Rightarrow> Proxy_Protocol ph
                 | ReadError \<Rightarrow> Proxy_Io ph),
            s\<lparr>st_in := []\<rparr>))"

section \<open>Requests\<close>

record socks5_credentials =
  cr_username :: string
  cr_password :: string

datatype ip_addr = V4 "u8 list" | V6 "u8 list"

definition MAX_FIELD_LEN :: nat where "MAX_FIELD_LEN = 255"

definition encode_ipv4 :: "u8 list \<Rightarrow> u8 list" where
  "encode_ipv4 octets = 0x01 # octets"

definition encode_ipv6 :: "u8 list \<Rightarrow> u8 list" where
  "encode_ipv6 octets = 0x04 # octets"

definition encode_target :: "(string \<Rightarrow> ip_addr option) \<Rightarrow> string \<Rightarrow> proxy_socks5_error + u8 list" where
  "encode_target parse_ip host =
     (case parse_ip host of
        Some (V4 v4) \<Rightarrow> Ok (encode_ipv4 v4)
      | Some (V6 v6) \<Rightarrow> Ok (encode_ipv6 v6)
      | None \<Rightarrow>
          if length host > MAX_FIELD_LEN then Err TargetTooLong
          else Ok ([0x03, word_of_nat (length host)] @ as_bytes host))"

definition auth_request :: "socks5_credentials \<Rightarrow> u8 list" where
  "auth_request creds =
     [0x01, word_of_nat (length (cr_username creds))] @ as_bytes (cr_username creds) @
     [word_of_nat (length (cr_password creds))] @ as_bytes (cr_password creds)"

definition authenticate :: "socks5_credentials \<Rightarrow> unit negotiation" where
  "authenticate creds =
     bind_st (write_all (auth_request creds) Authentication) (\<lambda>_.
     bind_st (read_exact 2 Authentication) (\<lambda>reply. pure_st
       (if reply ! 0 \<noteq> 0x01 then Err (Proxy_Protocol Authentication)
        else if reply ! 1 \<noteq> 0x00 then Err AuthenticationRejected
        else Ok ())))"

section \<open>The negotiation\<close>

definition check_credentials :: "socks5_credentials option \<Rightarrow> proxy_socks5_error + unit" where
  "check_credentials credentials =
     (case credentials of
        None \<Rightarrow> Ok ()
      | Some creds \<Rightarrow>
          if length (cr_username creds) > MAX_FIELD_LEN then Err UsernameTooLong
          else if length (cr_password creds) > MAX_FIELD_LEN then Err PasswordTooLong
          else Ok ())"

definition offered_method :: "socks5_credentials option \<Rightarrow> u8" where
  "offered_method credentials = (if credentials \<noteq> None then 0x02 else 0x00)"

text \<open>Lines 392 to 439: offer exactly one method and check the proxy's choice.\<close>

definition negotiate_method :: "socks5_credentials option \<Rightarrow> unit negotiation" where
  "negotiate_method credentials =
     bind_st (write_all [0x05, 1, offered_method credentials] MethodNegotiation) (\<lambda>_.
     bind_st (read_exact 2 MethodNegotiation) (\<lambda>reply. pure_st
       (if reply ! 0 \<noteq> 0x05 then Err (Proxy_Protocol MethodNegotiation)
        else if reply ! 1 = offered_method credentials then Ok ()
        else if reply ! 1 = 0xFF then Err NoAcceptableAuthMethod
        else Err (Proxy_Protocol MethodNegotiation))))"

text \<open>Lines 451 to 493: the reply header, the bound address, the reply code.\<close>

definition bound_addr_len :: "u8 \<Rightarrow> nat negotiation" where
  "bound_addr_len atyp =
     (if atyp = 0x01 then pure_st (Ok 4)
      else if atyp = 0x04 then pure_st (Ok 16)
      else if atyp = 0x03 then
        bind_st (read_exact 1 ConnectReply) (\<lambda>len. pure_st (Ok (unat (len ! 0))))
      else pure_st (Err (Proxy_Protocol ConnectReply)))"

definition read_connect_reply :: "unit negotiation" where
  "read_connect_reply =
     bind_st (read_exact 4 ConnectReply) (\<lambda>header.
       if header ! 0 \<noteq> 0x05 then pure_st (Err (Proxy_Protocol ConnectReply))
       else bind_st (bound_addr_len (header ! 3)) (\<lambda>n.
         bind_st (read_exact (n + 2) ConnectReply) (\<lambda>_. pure_st
           (let reply = from_code (header ! 1) in
            if reply \<noteq> Succeeded then Err (ConnectRefused reply) else Ok ()))))"

definition connect_request :: "u8 list \<Rightarrow> u16 \<Rightarrow> u8 list" where
  "connect_request target port = [0x05, 0x01, 0x00] @ target @ to_be_bytes 2 port"

definition negotiate ::
  "(string \<Rightarrow> ip_addr option) \<Rightarrow> socks5_credentials option \<Rightarrow> string \<Rightarrow> u16 \<Rightarrow> unit negotiation" where
  "negotiate parse_ip credentials target_host target_port =
     bind_st (pure_st (check_credentials credentials)) (\<lambda>_.
     bind_st (pure_st (encode_target parse_ip target_host)) (\<lambda>target.
     bind_st (negotiate_method credentials) (\<lambda>_.
     bind_st (case credentials of Some creds \<Rightarrow> authenticate creds | None \<Rightarrow> pure_st (Ok ())) (\<lambda>_.
     bind_st (write_all (connect_request target target_port) ConnectRequest) (\<lambda>_.
       read_connect_reply)))))"

section \<open>Reading replies\<close>

lemma read_exact_Ok:
  "read_exact n ph s = (Ok bs, s') \<longleftrightarrow>
    (\<exists>suf. length bs = n \<and> st_in s = bs @ suf \<and> s' = s\<lparr>st_in := suf\<rparr>)"
proof
  assume "read_exact n ph s = (Ok bs, s')"
  then show "\<exists>suf. length bs = n \<and> st_in s = bs @ suf \<and> s' = s\<lparr>st_in := suf\<rparr>"
    by (intro exI [of _ "drop n (st_in s)"]) (auto simp: read_exact_def split: if_splits)
qed (auto simp: read_exact_def)

lemma read_exact_run:
  "length bs = n \<Longrightarrow> st_in s = bs @ suf \<Longrightarrow> read_exact n ph s = (Ok bs, s\<lparr>st_in := suf\<rparr>)"
  by (auto simp: read_exact_def)

lemma read_exact_out: "read_exact n ph s = (r, s') \<Longrightarrow> st_out s' = st_out s"
  by (auto simp: read_exact_def split: if_splits)

lemma write_all_run: "st_writes s = [] \<Longrightarrow> write_all buf ph s = (Ok (), s\<lparr>st_out := st_out s @ buf\<rparr>)"
  by (simp add: write_all_def)

lemma write_all_cases:
  "write_all buf ph s = (r, s') \<Longrightarrow>
    st_in s' = st_in s \<and> (\<exists>sent. st_out s' = st_out s @ sent \<and> prefix sent buf \<and> (r = Ok () \<longrightarrow> sent = buf))"
  by (auto simp: write_all_def Let_def take_is_prefix split: write_outcome.splits if_splits)

lemma length_2: "length bs = 2 \<longleftrightarrow> (\<exists>a b. bs = [a, b])"
  by (auto simp: length_Suc_conv numeral_2_eq_2)

lemma length_4: "length bs = 4 \<longleftrightarrow> (\<exists>a b c d. bs = [a, b, c, d])"
  by (auto simp: length_Suc_conv eval_nat_numeral)

text \<open>The bytes of a well-formed bound address (with its port) of each type.\<close>

definition bound_addr_ok :: "u8 \<Rightarrow> u8 list \<Rightarrow> bool" where
  "bound_addr_ok atyp bs \<longleftrightarrow>
     (atyp = 0x01 \<and> length bs = 4 + 2) \<or> (atyp = 0x04 \<and> length bs = 16 + 2) \<or>
     (atyp = 0x03 \<and> bs \<noteq> [] \<and> length bs = 1 + unat (hd bs) + 2)"

lemma read_connect_reply_Ok:
  assumes "read_connect_reply s = (Ok u, s')"
  obtains rsv atyp bound suf where "st_in s = [0x05, 0x00, rsv, atyp] @ bound @ suf"
    "bound_addr_ok atyp bound" "s' = s\<lparr>st_in := suf\<rparr>"
proof -
  from assms obtain h s1 n s2 t where
      h: "read_exact 4 ConnectReply s = (Ok h, s1)" "h ! 0 = 0x05" and
      n: "bound_addr_len (h ! 3) s1 = (Ok n, s2)" and
      t: "read_exact (n + 2) ConnectReply s2 = (Ok t, s')" and
      rep: "from_code (h ! 1) = Succeeded"
    by (auto simp: read_connect_reply_def Let_def bind_st_Ok split: if_splits)
  from h(1) obtain suf1 where h': "length h = 4" "st_in s = h @ suf1" "s1 = s\<lparr>st_in := suf1\<rparr>"
    by (auto simp: read_exact_Ok)
  from h'(1) h(2) rep obtain rsv atyp where hh: "h = [0x05, 0x00, rsv, atyp]"
    by (auto simp: length_4 from_code_def split: if_splits)
  from t obtain suf where t': "length t = n + 2" "st_in s2 = t @ suf" "s' = s2\<lparr>st_in := suf\<rparr>"
    by (auto simp: read_exact_Ok)
  from n hh h' have "\<exists>pre suf2. suf1 = pre @ suf2 \<and> s2 = s\<lparr>st_in := suf2\<rparr> \<and> bound_addr_ok atyp (pre @ t)"
  proof (cases "atyp = 0x03")
    case True
    with n hh h' obtain y suf2 where "suf1 = [y] @ suf2" "s2 = s\<lparr>st_in := suf2\<rparr>" "n = unat y"
      by (auto simp: bound_addr_len_def bind_st_Ok read_exact_Ok length_Suc_conv)
    moreover from this True t'(1) have "bound_addr_ok atyp ([y] @ t)" by (simp add: bound_addr_ok_def)
    ultimately show ?thesis by blast
  next
    case False
    with n hh h' t'(1) show ?thesis
      by (intro exI [of _ "[]"] exI [of _ suf1]) (auto simp: bound_addr_len_def bound_addr_ok_def split: if_splits)
  qed
  then obtain pre suf2 where pre: "suf1 = pre @ suf2" "s2 = s\<lparr>st_in := suf2\<rparr>" "bound_addr_ok atyp (pre @ t)"
    by blast
  show thesis
    using that [of rsv atyp "pre @ t" suf] h' hh pre t' by simp
qed

lemma read_connect_reply_run:
  assumes "st_in s = [0x05, 0x00, rsv, atyp] @ bound @ suf" "bound_addr_ok atyp bound"
  shows "read_connect_reply s = (Ok (), s\<lparr>st_in := suf\<rparr>)"
proof -
  let ?s1 = "s\<lparr>st_in := bound @ suf\<rparr>"
  have h: "read_exact 4 ConnectReply s = (Ok [0x05, 0x00, rsv, atyp], ?s1)"
    using assms(1) by (intro read_exact_run) simp_all
  have "\<exists>n s2 t. bound_addr_len atyp ?s1 = (Ok n, s2) \<and>
      read_exact (n + 2) ConnectReply s2 = (Ok t, s\<lparr>st_in := suf\<rparr>)"
  proof (cases "atyp = 0x03")
    case True
    then obtain b bs where b: "bound = b # bs" "length bs = unat b + 2"
      using assms(2) by (cases bound) (auto simp: bound_addr_ok_def)
    have "read_exact 1 ConnectReply ?s1 = (Ok [b], s\<lparr>st_in := bs @ suf\<rparr>)"
      using read_exact_run [of "[b]" 1 ?s1 "bs @ suf"] b(1) by simp
    moreover have "read_exact (unat b + 2) ConnectReply (s\<lparr>st_in := bs @ suf\<rparr>) = (Ok bs, s\<lparr>st_in := suf\<rparr>)"
      using read_exact_run [OF b(2), of "s\<lparr>st_in := bs @ suf\<rparr>" suf] by simp
    ultimately show ?thesis using True by (simp add: bound_addr_len_def bind_st_run)
  next
    case False
    then obtain n where n: "bound_addr_len atyp = pure_st (Ok n)" "length bound = n + 2"
      using assms(2) by (auto simp: bound_addr_ok_def bound_addr_len_def)
    then show ?thesis using read_exact_run [OF n(2), of ?s1 suf] by auto
  qed
  with h show ?thesis
    by (auto simp: read_connect_reply_def bind_st_run from_code_def)
qed

section \<open>The whole exchange\<close>

text \<open>What the client sends and what an accepting proxy answers.\<close>

definition requests :: "socks5_credentials option \<Rightarrow> u8 list \<Rightarrow> u16 \<Rightarrow> u8 list" where
  "requests credentials target port =
     [0x05, 1, offered_method credentials] @
     (case credentials of None \<Rightarrow> [] | Some creds \<Rightarrow> auth_request creds) @
     connect_request target port"

definition accepting_reply :: "socks5_credentials option \<Rightarrow> u8 list \<Rightarrow> bool" where
  "accepting_reply credentials bs \<longleftrightarrow> (\<exists>rsv atyp bound.
     bs = [0x05, offered_method credentials] @ (if credentials = None then [] else [0x01, 0x00]) @
       [0x05, 0x00, rsv, atyp] @ bound \<and> bound_addr_ok atyp bound)"

lemma negotiate_method_Ok:
  "negotiate_method credentials s = (Ok u, s') \<Longrightarrow> st_writes s = [] \<Longrightarrow>
    \<exists>suf. st_in s = [0x05, offered_method credentials] @ suf \<and>
      s' = s\<lparr>st_in := suf, st_out := st_out s @ [0x05, 1, offered_method credentials]\<rparr>"
  by (auto simp: negotiate_method_def bind_st_Ok write_all_run read_exact_Ok length_2 split: if_splits)

lemma negotiate_method_run:
  assumes "st_writes s = []" "st_in s = [0x05, offered_method credentials] @ suf"
  shows "negotiate_method credentials s =
    (Ok (), s\<lparr>st_in := suf, st_out := st_out s @ [0x05, 1, offered_method credentials]\<rparr>)"
  using assms
  by (simp add: negotiate_method_def bind_st_run [OF write_all_run]
      bind_st_run [OF read_exact_run [where bs = "[0x05, offered_method credentials]" and suf = suf]])

lemma authenticate_Ok:
  "authenticate creds s = (Ok u, s') \<Longrightarrow> st_writes s = [] \<Longrightarrow>
    \<exists>suf. st_in s = [0x01, 0x00] @ suf \<and> s' = s\<lparr>st_in := suf, st_out := st_out s @ auth_request creds\<rparr>"
  by (auto simp: authenticate_def bind_st_Ok write_all_run read_exact_Ok length_2 split: if_splits)

lemma authenticate_run:
  assumes "st_writes s = []" "st_in s = [0x01, 0x00] @ suf"
  shows "authenticate creds s = (Ok (), s\<lparr>st_in := suf, st_out := st_out s @ auth_request creds\<rparr>)"
  using assms
  by (simp add: authenticate_def bind_st_run [OF write_all_run]
      bind_st_run [OF read_exact_run [where bs = "[0x01, 0x00]" and suf = suf]])

lemma negotiate_Ok:
  assumes ok: "negotiate parse_ip credentials host port s = (Ok u, s')" and w: "st_writes s = []"
  obtains target reply suf where "check_credentials credentials = Ok ()"
    "encode_target parse_ip host = Ok target" "accepting_reply credentials reply"
    "st_in s = reply @ suf"
    "s' = s\<lparr>st_in := suf, st_out := st_out s @ requests credentials target port\<rparr>"
proof -
  from ok obtain target s1 s2 s3 where
      pre: "check_credentials credentials = Ok ()" "encode_target parse_ip host = Ok target" and
      m: "negotiate_method credentials s = (Ok (), s1)" and
      a: "(case credentials of Some creds \<Rightarrow> authenticate creds | None \<Rightarrow> pure_st (Ok ())) s1 = (Ok (), s2)" and
      c: "write_all (connect_request target port) ConnectRequest s2 = (Ok (), s3)" and
      r: "read_connect_reply s3 = (Ok (), s')"
    by (auto simp: negotiate_def bind_st_Ok)
  let ?hello = "[0x05, 1, offered_method credentials]"
  let ?auth = "case credentials of None \<Rightarrow> [] | Some creds \<Rightarrow> auth_request creds"
  let ?areply = "if credentials = None then [] else [0x01, 0x00] :: u8 list"
  from negotiate_method_Ok [OF m w] obtain suf1 where
    m': "st_in s = [0x05, offered_method credentials] @ suf1" "s1 = s\<lparr>st_in := suf1, st_out := st_out s @ ?hello\<rparr>"
    by blast
  from a m' w obtain suf2 where a': "suf1 = ?areply @ suf2"
      "s2 = s\<lparr>st_in := suf2, st_out := st_out s @ ?hello @ ?auth\<rparr>"
    using authenticate_Ok [of _ s1 "()" s2] by (cases credentials) auto
  have c': "s3 = s2\<lparr>st_out := st_out s2 @ connect_request target port\<rparr>"
    using c a'(2) w by (simp add: write_all_run)
  have in3: "st_in s3 = suf2" using c' a'(2) by simp
  obtain rsv atyp bound suf where r': "suf2 = [0x05, 0x00, rsv, atyp] @ bound @ suf"
      "bound_addr_ok atyp bound" "s' = s3\<lparr>st_in := suf\<rparr>"
    using read_connect_reply_Ok [OF r] unfolding in3 by blast
  show thesis
  proof (rule that [OF pre])
    let ?reply = "[0x05, offered_method credentials] @ ?areply @ [0x05, 0x00, rsv, atyp] @ bound"
    show "accepting_reply credentials ?reply" unfolding accepting_reply_def using r'(2) by blast
    show "st_in s = ?reply @ suf" using m'(1) a'(1) r'(1) by simp
    show "s' = s\<lparr>st_in := suf, st_out := st_out s @ requests credentials target port\<rparr>"
      using r'(3) c' a'(2) by (simp add: requests_def)
  qed
qed

lemma negotiate_run:
  assumes pre: "check_credentials credentials = Ok ()" "encode_target parse_ip host = Ok target"
    and w: "st_writes s = []" and acc: "accepting_reply credentials reply" "st_in s = reply @ suf"
  shows "negotiate parse_ip credentials host port s =
    (Ok (), s\<lparr>st_in := suf, st_out := st_out s @ requests credentials target port\<rparr>)"
proof -
  let ?areply = "if credentials = None then [] else [0x01, 0x00] :: u8 list"
  let ?auth = "case credentials of None \<Rightarrow> [] | Some creds \<Rightarrow> auth_request creds"
  obtain rsv atyp bound where b: "bound_addr_ok atyp bound"
      "st_in s = [0x05, offered_method credentials] @ ?areply @ [0x05, 0x00, rsv, atyp] @ bound @ suf"
    using acc by (auto simp: accepting_reply_def)
  let ?in2 = "[0x05, 0x00, rsv, atyp] @ bound @ suf"
  let ?s1 = "s\<lparr>st_in := ?areply @ ?in2, st_out := st_out s @ [0x05, 1, offered_method credentials]\<rparr>"
  let ?s2 = "s\<lparr>st_in := ?in2, st_out := st_out s @ [0x05, 1, offered_method credentials] @ ?auth\<rparr>"
  let ?s3 = "?s2\<lparr>st_out := st_out ?s2 @ connect_request target port\<rparr>"
  have m: "negotiate_method credentials s = (Ok (), ?s1)"
    using negotiate_method_run [OF w b(2)] .
  have a: "(case credentials of Some creds \<Rightarrow> authenticate creds | None \<Rightarrow> pure_st (Ok ())) ?s1 = (Ok (), ?s2)"
    using authenticate_run [of ?s1 ?in2] w by (cases credentials) simp_all
  have c: "write_all (connect_request target port) ConnectRequest ?s2 = (Ok (), ?s3)"
    using w by (simp add: write_all_run)
  have r: "read_connect_reply ?s3 = (Ok (), ?s3\<lparr>st_in := suf\<rparr>)"
    using read_connect_reply_run [OF _ b(1), of ?s3 rsv suf] by simp
  let ?tail = "bind_st (write_all (connect_request target port) ConnectRequest) (\<lambda>_. read_connect_reply)"
  have t1: "?tail ?s2 = (Ok (), ?s3\<lparr>st_in := suf\<rparr>)"
    by (rule bind_st_trans, rule c, rule r)
  have t2: "bind_st (case credentials of Some creds \<Rightarrow> authenticate creds | None \<Rightarrow> pure_st (Ok ()))
      (\<lambda>_. ?tail) ?s1 = (Ok (), ?s3\<lparr>st_in := suf\<rparr>)"
    by (rule bind_st_trans, rule a, rule t1)
  have "bind_st (negotiate_method credentials) (\<lambda>_. bind_st
      (case credentials of Some creds \<Rightarrow> authenticate creds | None \<Rightarrow> pure_st (Ok ())) (\<lambda>_. ?tail)) s =
      (Ok (), ?s3\<lparr>st_in := suf\<rparr>)"
    by (rule bind_st_trans, rule m, rule t2)
  moreover have "?s3\<lparr>st_in := suf\<rparr> = s\<lparr>st_in := suf, st_out := st_out s @ requests credentials target port\<rparr>"
    by (simp add: requests_def)
  ultimately show ?thesis
    unfolding negotiate_def
    by (simp only: bind_st_run [of "pure_st _", OF pure_st_eq] pre)
qed

section \<open>What has been sent when the negotiation stops\<close>

text \<open>
  A step that sends \<open>request\<close> and waits for \<open>ack\<close>: however it ends, it has sent a prefix of the
  request, and it succeeds only after the whole request and its acknowledgement.
\<close>

definition staged :: "u8 list \<Rightarrow> u8 list \<Rightarrow> unit negotiation \<Rightarrow> bool" where
  "staged request ack m \<longleftrightarrow> (\<forall>s r s'. m s = (r, s') \<longrightarrow>
     (\<exists>sent. st_out s' = st_out s @ sent \<and> prefix sent request \<and>
       (r = Ok () \<longrightarrow> sent = request \<and> st_in s = ack @ st_in s')))"

lemma stagedE:
  assumes "staged request ack m" "m s = (r, s')"
  obtains sent where "st_out s' = st_out s @ sent" "prefix sent request"
    "r = Ok () \<Longrightarrow> sent = request \<and> st_in s = ack @ st_in s'"
  using assms unfolding staged_def by metis

lemma staged_Ok:
  "staged request ack m \<Longrightarrow> m s = (Ok u, s') \<Longrightarrow> st_out s' = st_out s @ request \<and> st_in s = ack @ st_in s'"
  by (auto elim: stagedE)

lemma staged_exchange:
  assumes "\<And>bs. length bs = n \<Longrightarrow> check bs = Ok () \<Longrightarrow> bs = ack"
  shows "staged request ack
    (bind_st (write_all request ph) (\<lambda>_. bind_st (read_exact n ph) (\<lambda>bs. pure_st (check bs))))"
  unfolding staged_def
proof (intro allI impI)
  fix s r s'
  assume "bind_st (write_all request ph) (\<lambda>_. bind_st (read_exact n ph) (\<lambda>bs. pure_st (check bs))) s = (r, s')"
  then show "\<exists>sent. st_out s' = st_out s @ sent \<and> prefix sent request \<and>
      (r = Ok () \<longrightarrow> sent = request \<and> st_in s = ack @ st_in s')"
  proof (cases rule: bind_st_cases)
    case (error e)
    then show ?thesis using write_all_cases [OF error(1)] by auto
  next
    case (ok x s1)
    from write_all_cases [OF ok(1)] have s1: "st_in s1 = st_in s" "st_out s1 = st_out s @ request" by auto
    from ok(2) show ?thesis
    proof (cases rule: bind_st_cases)
      case (error e)
      then show ?thesis using s1 read_exact_out [OF error(1)] by auto
    next
      case (ok bs s2)
      with assms [of bs] s1 read_exact_out [OF ok(1)] show ?thesis
        by (auto simp: read_exact_Ok)
    qed
  qed
qed

lemma negotiate_method_staged:
  "staged [0x05, 1, offered_method credentials] [0x05, offered_method credentials]
     (negotiate_method credentials)"
  unfolding negotiate_method_def
  by (rule staged_exchange) (auto simp: length_2 split: if_splits)

lemma authenticate_staged: "staged (auth_request creds) [0x01, 0x00] (authenticate creds)"
  unfolding authenticate_def
  by (rule staged_exchange) (auto simp: length_2 split: if_splits)

lemma bound_addr_len_out: "bound_addr_len a s = (r, s') \<Longrightarrow> st_out s' = st_out s"
  by (auto simp: bound_addr_len_def dest: read_exact_out elim!: bind_st_cases split: if_splits)

lemma read_connect_reply_out: "read_connect_reply s = (r, s') \<Longrightarrow> st_out s' = st_out s"
  unfolding read_connect_reply_def
  by (auto dest!: read_exact_out bound_addr_len_out elim!: bind_st_cases split: if_splits)

lemma authentication_staged:
  "staged (case credentials of None \<Rightarrow> [] | Some creds \<Rightarrow> auth_request creds)
     (if credentials = None then [] else [0x01, 0x00])
     (case credentials of Some creds \<Rightarrow> authenticate creds | None \<Rightarrow> pure_st (Ok ()))"
  using authenticate_staged by (cases credentials) (auto simp: staged_def)

lemma connect_sent:
  assumes "bind_st (write_all request ConnectRequest) (\<lambda>_. read_connect_reply) s = (r, s')"
  shows "\<exists>sent. st_out s' = st_out s @ sent \<and> prefix sent request"
  using assms
  by (cases rule: bind_st_cases) (auto dest!: write_all_cases read_connect_reply_out)

text \<open>
  However the negotiation ends: the bytes sent are a prefix of the requests, the second request
  is only begun after the proxy chose the offered method, the third only after it also accepted
  the credentials.
\<close>

lemma negotiate_sent:
  assumes "negotiate parse_ip credentials host port s = (r, s')"
    and "check_credentials credentials = Ok ()" "encode_target parse_ip host = Ok target"
  shows "\<exists>sent. st_out s' = st_out s @ sent \<and> prefix sent (requests credentials target port) \<and>
    (3 < length sent \<longrightarrow> prefix [0x05, offered_method credentials] (st_in s)) \<and>
    (3 + length (case credentials of None \<Rightarrow> [] | Some creds \<Rightarrow> auth_request creds) < length sent \<longrightarrow>
      prefix ([0x05, offered_method credentials] @ (if credentials = None then [] else [0x01, 0x00])) (st_in s))"
proof -
  let ?auth = "case credentials of None \<Rightarrow> [] | Some creds \<Rightarrow> auth_request creds"
  let ?areply = "if credentials = None then [] else [0x01, 0x00] :: u8 list"
  let ?hello = "[0x05, 1, offered_method credentials]"
  let ?am = "case credentials of Some creds \<Rightarrow> authenticate creds | None \<Rightarrow> pure_st (Ok ())"
  let ?conn = "bind_st (write_all (connect_request target port) ConnectRequest) (\<lambda>_. read_connect_reply)"
  from assms have "bind_st (negotiate_method credentials) (\<lambda>_. bind_st ?am (\<lambda>_. ?conn)) s = (r, s')"
    by (simp add: negotiate_def bind_st_run [of "pure_st _", OF pure_st_eq])
  then show ?thesis
  proof (cases rule: bind_st_cases)
    case (error e)
    from negotiate_method_staged this(1) show ?thesis
      by (rule stagedE) (auto simp: requests_def dest: prefix_length_le intro: prefix_order.trans)
  next
    case (ok x s1)
    from staged_Ok [OF negotiate_method_staged ok(1)] have s1: "st_out s1 = st_out s @ ?hello"
        "st_in s = [0x05, offered_method credentials] @ st_in s1"
      by auto
    from ok(2) show ?thesis
    proof (cases rule: bind_st_cases)
      case (error e)
      from authentication_staged this(1) obtain sent where
        "st_out s' = st_out s1 @ sent" "prefix sent ?auth" by (rule stagedE)
      then show ?thesis using s1
        by (intro exI [of _ "?hello @ sent"]) (auto simp: requests_def dest: prefix_length_le)
    next
      case (ok y s2)
      from staged_Ok [OF authentication_staged ok(1)]
      have s2: "st_out s2 = st_out s1 @ ?auth" "st_in s1 = ?areply @ st_in s2"
        by blast+
      from connect_sent [OF ok(2)] obtain sent where
        "st_out s' = st_out s2 @ sent" "prefix sent (connect_request target port)" by blast
      then show ?thesis using s1 s2
        by (intro exI [of _ "?hello @ ?auth @ sent"]) (auto simp: requests_def)
    qed
  qed
qed

section \<open>Properties\<close>

text \<open>
  C33: on a stream whose writes complete, the negotiation succeeds exactly when the credentials
  and the target fit their length bytes and the proxy's answers are the accepting ones; it has
  then sent exactly the three requests and consumed exactly those answers, so that the game
  connection starts at the first byte behind them.
\<close>

theorem negotiate_succeeds_iff:
  assumes "st_writes s = []"
  shows "negotiate parse_ip credentials host port s = (Ok (), s') \<longleftrightarrow>
    check_credentials credentials = Ok () \<and>
    (\<exists>target reply suf. encode_target parse_ip host = Ok target \<and> accepting_reply credentials reply \<and>
      st_in s = reply @ suf \<and>
      s' = s\<lparr>st_in := suf, st_out := st_out s @ requests credentials target port\<rparr>)"
proof
  assume n: "negotiate parse_ip credentials host port s = (Ok (), s')"
  show "check_credentials credentials = Ok () \<and>
    (\<exists>target reply suf. encode_target parse_ip host = Ok target \<and> accepting_reply credentials reply \<and>
      st_in s = reply @ suf \<and>
      s' = s\<lparr>st_in := suf, st_out := st_out s @ requests credentials target port\<rparr>)"
    by (rule negotiate_Ok [OF n assms]) blast
qed (use negotiate_run assms in blast)

theorem negotiate_succeeds_iff_witness:
  "negotiate (\<lambda>_. None) None ''h'' 80
     \<lparr>st_in = [5, 0, 5, 0, 0, 1, 1, 2, 3, 4, 0, 80, 42], st_end = NeverReady, st_writes = [], st_out = []\<rparr> =
   (Ok (), \<lparr>st_in = [42], st_end = NeverReady, st_writes = [],
      st_out = [5, 1, 0, 5, 1, 0, 3, 1, 104, 0, 80]\<rparr>) \<and>
   accepting_reply None [5, 0, 5, 0, 0, 1, 1, 2, 3, 4, 0, 80]"
proof -
  let ?s = "\<lparr>st_in = [5, 0, 5, 0, 0, 1, 1, 2, 3, 4, 0, 80, 42], st_end = NeverReady, st_writes = [], st_out = []\<rparr>"
  have a: "accepting_reply None [5, 0, 5, 0, 0, 1, 1, 2, 3, 4, 0, 80]"
    unfolding accepting_reply_def offered_method_def
    by (intro exI [of _ 0] exI [of _ 1] exI [of _ "[1, 2, 3, 4, 0, 80]"]) (simp add: bound_addr_ok_def)
  have t: "encode_target (\<lambda>_. None) ''h'' = Ok [3, 1, 104]" by code_simp
  have q: "requests None [3, 1, 104] 80 = [5, 1, 0, 5, 1, 0, 3, 1, 104, 0, 80]" by code_simp
  have w: "st_writes ?s = []" by simp
  show ?thesis
    using negotiate_succeeds_iff [OF w, of "\<lambda>_. None" None "''h''" 80] a t q
    by (auto simp: check_credentials_def)
qed

text \<open>
  C34: credentials never leak to a proxy that did not ask for them. However the negotiation ends
  (refusal, end of file, timeout, a write cut short), what was sent is a prefix of hello,
  authentication and connect request in that order; a byte of the second is sent only after the
  proxy selected the offered method, a byte of the third only after it accepted the credentials.
  With credentials configured the hello offers username/password alone.
\<close>

theorem negotiate_sends_in_stages:
  assumes "negotiate parse_ip (Some creds) host port s = (r, s')"
    and "check_credentials (Some creds) = Ok ()" and "encode_target parse_ip host = Ok target"
  shows "\<exists>sent. st_out s' = st_out s @ sent \<and>
    prefix sent ([0x05, 1, 0x02] @ auth_request creds @ connect_request target port) \<and>
    (3 < length sent \<longrightarrow> prefix [0x05, 0x02] (st_in s)) \<and>
    (3 + length (auth_request creds) < length sent \<longrightarrow> prefix [0x05, 0x02, 0x01, 0x00] (st_in s))"
  using negotiate_sent [OF assms] by (simp add: requests_def offered_method_def)

theorem negotiate_sends_in_stages_witness:
  "negotiate (\<lambda>_. None) (Some \<lparr>cr_username = ''u'', cr_password = ''p''\<rparr>) ''h'' 80
     \<lparr>st_in = [5, 255], st_end = EndOfFile, st_writes = [], st_out = []\<rparr> =
   (Err NoAcceptableAuthMethod, \<lparr>st_in = [], st_end = EndOfFile, st_writes = [], st_out = [5, 1, 2]\<rparr>) \<and>
   prefix [5, 1, 2] ([0x05, 1, 0x02] @ auth_request \<lparr>cr_username = ''u'', cr_password = ''p''\<rparr> @
     connect_request [3, 1, 104] 80)"
proof -
  let ?cr = "\<lparr>cr_username = ''u'', cr_password = ''p''\<rparr>"
  have n: "negotiate (\<lambda>_. None) (Some ?cr) ''h'' 80
     \<lparr>st_in = [5, 255], st_end = EndOfFile, st_writes = [], st_out = []\<rparr> =
   (Err NoAcceptableAuthMethod, \<lparr>st_in = [], st_end = EndOfFile, st_writes = [], st_out = [5, 1, 2]\<rparr>)"
    by code_simp
  have c: "check_credentials (Some ?cr) = Ok ()" by code_simp
  have t: "encode_target (\<lambda>_. None) ''h'' = Ok [3, 1, 104]" by code_simp
  show ?thesis using negotiate_sends_in_stages [OF n c t] n by simp
qed

end
