(* ===== verification/Connection.thy ===== *)
theory Connection
  imports Wire_Frame Socks5
begin

text \<open>
  A Minecraft connection: the error type of core/error.rs, the AES-128-CFB8 stream cipher of
  crypto/aes.rs and the \<open>Connection\<close> of network/connection.rs (frame codec, cipher, receive
  buffer, the flag that poisons it after a write timeout).

  The AES block function is a third-party primitive and the parameter \<open>aes\<close> (key, block); no law
  is assumed of it. The socket is the sequence of results its \<open>read\<close> calls give and the result of
  each write; a list of reads that is used up means the next read is still pending. The trace
  recorder and the TCP connect itself are not modelled. Durations are milliseconds.
\<close>

section \<open>Errors\<close>

datatype mine_rider_error =
    Io
  | Wire protocol_error
  | Protocol
  | ConnectionClosed
  | Disconnected string
  | CryptoError
  | Timeout
  | Auth
  | AuthTransport
  | Proxy proxy_socks5_error

fun error_retry_class :: "mine_rider_error \<Rightarrow> retry_class" where
  "error_retry_class Io = Transient"
| "error_retry_class Timeout = Transient"
| "error_retry_class ConnectionClosed = Transient"
| "error_retry_class AuthTransport = Transient"
| "error_retry_class (Disconnected _) = ServerRejected"
| "error_retry_class Auth = AuthFailure"
| "error_retry_class (Wire _) = ProtocolIncompatible"
| "error_retry_class Protocol = ProtocolIncompatible"
| "error_retry_class CryptoError = ProtocolIncompatible"
| "error_retry_class (Proxy inner) = proxy_retry_class inner"

section \<open>The stream cipher\<close>

type_synonym block_cipher = "u8 list \<Rightarrow> u8 list \<Rightarrow> u8 list"

record stream_cipher =
  sc_key :: "u8 list"
  enc_iv :: "u8 list"
  dec_iv :: "u8 list"

definition new_cipher :: "u8 list \<Rightarrow> stream_cipher" where
  "new_cipher shared_secret = \<lparr>sc_key = shared_secret, enc_iv = shared_secret, dec_iv = shared_secret\<rparr>"

text \<open>\<open>iv.copy_within(1.., 0); iv[15] = b\<close> on the 16-byte register.\<close>

definition shift_iv :: "u8 list \<Rightarrow> u8 \<Rightarrow> u8 list" where
  "shift_iv iv b = (tl iv @ [last iv])[15 := b]"

fun encrypt_loop :: "(u8 list \<Rightarrow> u8 list) \<Rightarrow> u8 list \<Rightarrow> u8 list \<Rightarrow> u8 list \<times> u8 list" where
  "encrypt_loop aes iv [] = ([], iv)"
| "encrypt_loop aes iv (byte # bs) =
     (let c = byte XOR aes iv ! 0; (cs, iv') = encrypt_loop aes (shift_iv iv c) bs in (c # cs, iv'))"

fun decrypt_loop :: "(u8 list \<Rightarrow> u8 list) \<Rightarrow> u8 list \<Rightarrow> u8 list \<Rightarrow> u8 list \<times> u8 list" where
  "decrypt_loop aes iv [] = ([], iv)"
| "decrypt_loop aes iv (c # cs) =
     (let byte = c XOR aes iv ! 0; (bs, iv') = decrypt_loop aes (shift_iv iv c) cs in (byte # bs, iv'))"

definition encrypt :: "block_cipher \<Rightarrow> stream_cipher \<Rightarrow> u8 list \<Rightarrow> u8 list \<times> stream_cipher" where
  "encrypt aes sc bs =
     (let (cs, iv) = encrypt_loop (aes (sc_key sc)) (enc_iv sc) bs in (cs, sc\<lparr>enc_iv := iv\<rparr>))"

definition decrypt :: "block_cipher \<Rightarrow> stream_cipher \<Rightarrow> u8 list \<Rightarrow> u8 list \<times> stream_cipher" where
  "decrypt aes sc cs =
     (let (bs, iv) = decrypt_loop (aes (sc_key sc)) (dec_iv sc) cs in (bs, sc\<lparr>dec_iv := iv\<rparr>))"

section \<open>The connection\<close>

datatype connection_state = Handshaking | Status | Login | Configuration | Play

record connection_timeouts =
  to_connect :: nat
  to_read :: nat
  to_write :: nat

definition default_timeouts :: connection_timeouts where
  "default_timeouts = \<lparr>to_connect = 10000, to_read = 30000, to_write = 30000\<rparr>"

record connection =
  read_buf :: "u8 list"
  cn_codec :: frame_codec
  cn_cipher :: "stream_cipher option"
  read_timeout :: nat
  write_timeout :: nat
  write_failed :: bool
  cn_state :: connection_state

text \<open>\<open>connect_with_timeouts\<close> once the TCP connection is established.\<close>

definition connect_with_timeouts :: "connection_timeouts \<Rightarrow> connection" where
  "connect_with_timeouts timeouts =
     \<lparr>read_buf = [], cn_codec = new_codec, cn_cipher = None, read_timeout = to_read timeouts,
      write_timeout = to_write timeouts, write_failed = False, cn_state = Handshaking\<rparr>"

definition from_tcp_stream :: connection where
  "from_tcp_stream =
     \<lparr>read_buf = [], cn_codec = new_codec, cn_cipher = None, read_timeout = to_read default_timeouts,
      write_timeout = to_write default_timeouts, write_failed = False, cn_state = Handshaking\<rparr>"

text \<open>\<open>connect_via_proxy\<close> once \<open>socks5::connect\<close> has returned the tunnelled stream.\<close>

definition connect_via_proxy :: "connection_timeouts \<Rightarrow> connection" where
  "connect_via_proxy timeouts = from_tcp_stream"

definition set_compression :: "connection \<Rightarrow> i32 \<Rightarrow> connection" where
  "set_compression c threshold = c\<lparr>cn_codec := set_compression_threshold (cn_codec c) threshold\<rparr>"

definition enable_encryption :: "connection \<Rightarrow> u8 list \<Rightarrow> connection" where
  "enable_encryption c shared_secret = c\<lparr>cn_cipher := Some (new_cipher shared_secret)\<rparr>"

definition set_state :: "connection \<Rightarrow> connection_state \<Rightarrow> connection" where
  "set_state c st = c\<lparr>cn_state := st\<rparr>"

definition set_read_timeout :: "connection \<Rightarrow> nat \<Rightarrow> connection" where
  "set_read_timeout c t = c\<lparr>read_timeout := t\<rparr>"

definition set_write_timeout :: "connection \<Rightarrow> nat \<Rightarrow> connection" where
  "set_write_timeout c t = c\<lparr>write_timeout := t\<rparr>"

definition check_not_failed :: "connection \<Rightarrow> mine_rider_error + unit" where
  "check_not_failed c = (if write_failed c then Err Timeout else Ok ())"

definition error_poisons_connection :: "mine_rider_error \<Rightarrow> bool" where
  "error_poisons_connection e \<longleftrightarrow> e = Timeout"

text \<open>
  \<open>write_frame_with_timeout\<close>: the bytes that reached the socket and the result. A failed write
  may have pushed any prefix of the frame.
\<close>

datatype frame_write = Written | TimedOutAfter nat | FailedAfter nat

definition write_frame :: "frame_write \<Rightarrow> u8 list \<Rightarrow> (mine_rider_error + unit) \<times> u8 list" where
  "write_frame out frame =
     (case out of
        Written \<Rightarrow> (Ok (), frame)
      | TimedOutAfter n \<Rightarrow> (Err Timeout, take n frame)
      | FailedAfter n \<Rightarrow> (Err Io, take n frame))"

text \<open>Result, bytes on the wire, connection afterwards.\<close>

definition send_packet ::
  "block_cipher \<Rightarrow> deflate \<Rightarrow> frame_write \<Rightarrow> connection \<Rightarrow> i32 \<Rightarrow> u8 list \<Rightarrow>
   (mine_rider_error + unit) \<times> u8 list \<times> connection" where
  "send_packet aes defl out c pid payload =
     (case check_not_failed c of
        Err e \<Rightarrow> (Err e, [], c)
      | Ok _ \<Rightarrow>
        (case encode defl (cn_codec c) \<lparr>pk_id = pid, pk_payload = payload\<rparr> of
           Err e \<Rightarrow> (Err (Wire e), [], c)
         | Ok frame \<Rightarrow>
           (let (frame', c') = (case cn_cipher c of
                  None \<Rightarrow> (frame, c)
                | Some sc \<Rightarrow> (let (bs, sc') = encrypt aes sc frame in (bs, c\<lparr>cn_cipher := Some sc'\<rparr>)));
                (r, sent) = write_frame out frame' in
            case r of
              Err e \<Rightarrow> (Err e, sent, if error_poisons_connection e then c'\<lparr>write_failed := True\<rparr> else c')
            | Ok _ \<Rightarrow> (Ok (), sent, c'))))"

text \<open>One result of \<open>self.read.read\<close> under the read timeout; an empty chunk is end of file.\<close>

datatype socket_read = Chunk "u8 list" | ReadTimeout | ReadFailed

datatype read_outcome = Packet raw_packet | Failed mine_rider_error | Pending

definition receive :: "block_cipher \<Rightarrow> connection \<Rightarrow> u8 list \<Rightarrow> connection" where
  "receive aes c chunk =
     (case cn_cipher c of
        None \<Rightarrow> c\<lparr>read_buf := read_buf c @ chunk\<rparr>
      | Some sc \<Rightarrow> (let (bs, sc') = decrypt aes sc chunk in
                   c\<lparr>cn_cipher := Some sc', read_buf := read_buf c @ bs\<rparr>))"

text \<open>The loop of \<open>read_packet\<close>: decode from the buffer, else read once more.\<close>

fun read_packet_loop ::
  "block_cipher \<Rightarrow> inflate \<Rightarrow> connection \<Rightarrow> socket_read list \<Rightarrow>
   read_outcome \<times> connection \<times> socket_read list" where
  "read_packet_loop aes infl c reads =
     (case try_decode infl (cn_codec c) (read_buf c) of
        (Err e, buf) \<Rightarrow> (Failed (Wire e), c\<lparr>read_buf := buf\<rparr>, reads)
      | (Ok (Some p), buf) \<Rightarrow> (Packet p, c\<lparr>read_buf := buf\<rparr>, reads)
      | (Ok None, buf) \<Rightarrow>
        (let c' = c\<lparr>read_buf := buf\<rparr> in
         case reads of
           [] \<Rightarrow> (Pending, c', [])
         | ReadTimeout # rs \<Rightarrow> (Failed Timeout, c', rs)
         | ReadFailed # rs \<Rightarrow> (Failed Io, c', rs)
         | Chunk bs # rs \<Rightarrow>
             if bs = [] then (Failed ConnectionClosed, c', rs)
             else read_packet_loop aes infl (receive aes c' bs) rs))"

declare read_packet_loop.simps [simp del]

definition read_packet ::
  "block_cipher \<Rightarrow> inflate \<Rightarrow> connection \<Rightarrow> socket_read list \<Rightarrow>
   read_outcome \<times> connection \<times> socket_read list" where
  "read_packet aes infl c reads =
     (case check_not_failed c of
        Err e \<Rightarrow> (Failed e, c, reads)
      | Ok _ \<Rightarrow> read_packet_loop aes infl c reads)"

section \<open>The cipher is a synchronised stream\<close>

lemma shift_iv_length: "length iv = 16 \<Longrightarrow> shift_iv iv b = tl iv @ [b]"
  by (cases iv) (auto simp: shift_iv_def list_update_append)

lemma decrypt_encrypt_loop:
  "encrypt_loop aes iv bs = (cs, iv') \<Longrightarrow> decrypt_loop aes iv cs = (bs, iv')"
proof (induction bs arbitrary: iv cs)
  case (Cons b bs)
  obtain cs' iv'' where e: "encrypt_loop aes (shift_iv iv (b XOR aes iv ! 0)) bs = (cs', iv'')"
    by (cases "encrypt_loop aes (shift_iv iv (b XOR aes iv ! 0)) bs")
  with Cons.prems have cs: "cs = (b XOR aes iv ! 0) # cs'" and iv: "iv'' = iv'" by auto
  from Cons.IH [OF e [unfolded iv]] cs show ?case by (simp add: xor.assoc)
qed simp

lemma encrypt_loop_append:
  "encrypt_loop aes iv (a @ b) =
    (let (ca, iv1) = encrypt_loop aes iv a; (cb, iv2) = encrypt_loop aes iv1 b in (ca @ cb, iv2))"
  by (induction a arbitrary: iv) (auto simp: Let_def split: prod.splits)

lemma decrypt_loop_append:
  "decrypt_loop aes iv (a @ b) =
    (let (ca, iv1) = decrypt_loop aes iv a; (cb, iv2) = decrypt_loop aes iv1 b in (ca @ cb, iv2))"
  by (induction a arbitrary: iv) (auto simp: Let_def split: prod.splits)

lemma encrypt_loop_Nil: "fst (encrypt_loop aes iv bs) = [] \<longleftrightarrow> bs = []"
  by (cases bs) (auto simp: Let_def split: prod.splits)

text \<open>The two ends of a connection agree on the key and on the register of one direction.\<close>

definition in_sync :: "stream_cipher option \<Rightarrow> stream_cipher option \<Rightarrow> bool" where
  "in_sync sender receiver \<longleftrightarrow>
     (case (sender, receiver) of
        (None, None) \<Rightarrow> True
      | (Some a, Some b) \<Rightarrow> sc_key a = sc_key b \<and> enc_iv a = dec_iv b
      | _ \<Rightarrow> False)"

text \<open>
  Plain text of the bytes a receiver with this cipher is about to get, and its cipher after
  them.
\<close>

definition plain :: "block_cipher \<Rightarrow> stream_cipher option \<Rightarrow> u8 list \<Rightarrow> u8 list" where
  "plain aes sc bs = (case sc of None \<Rightarrow> bs | Some k \<Rightarrow> fst (decrypt aes k bs))"

definition advance :: "block_cipher \<Rightarrow> stream_cipher option \<Rightarrow> u8 list \<Rightarrow> stream_cipher option" where
  "advance aes sc bs = map_option (\<lambda>k. snd (decrypt aes k bs)) sc"

lemma plain_Nil [simp]: "plain aes sc [] = []"
  by (simp add: plain_def decrypt_def split: option.splits)

lemma plain_append: "plain aes sc (a @ b) = plain aes sc a @ plain aes (advance aes sc a) b"
  by (auto simp: plain_def advance_def decrypt_def decrypt_loop_append Let_def
      split: option.splits prod.splits)

lemma receive_eq:
  "receive aes c bs = c\<lparr>cn_cipher := advance aes (cn_cipher c) bs, read_buf := read_buf c @ plain aes (cn_cipher c) bs\<rparr>"
  by (cases "cn_cipher c") (auto simp: receive_def plain_def advance_def Let_def split: prod.splits)

section \<open>Sending and receiving a sequence of packets\<close>

text \<open>\<open>send_packet\<close> on every packet in turn, every write completing: the bytes on the wire.\<close>

fun send_all :: "block_cipher \<Rightarrow> deflate \<Rightarrow> connection \<Rightarrow> raw_packet list \<Rightarrow> u8 list \<times> connection" where
  "send_all aes defl c [] = ([], c)"
| "send_all aes defl c (p # ps) =
     (let (_, sent, c1) = send_packet aes defl Written c (pk_id p) (pk_payload p);
          (sents, c2) = send_all aes defl c1 ps in (sent @ sents, c2))"

text \<open>\<open>read_packet\<close> called until \<open>n\<close> packets were returned or a call gave something else.\<close>

fun read_packets ::
  "block_cipher \<Rightarrow> inflate \<Rightarrow> nat \<Rightarrow> connection \<Rightarrow> socket_read list \<Rightarrow>
   raw_packet list \<times> connection \<times> socket_read list" where
  "read_packets aes infl 0 c reads = ([], c, reads)"
| "read_packets aes infl (Suc n) c reads =
     (case read_packet aes infl c reads of
        (Packet p, c1, reads1) \<Rightarrow>
          (let (ps, c2, reads2) = read_packets aes infl n c1 reads1 in (p # ps, c2, reads2))
      | (_, c1, reads1) \<Rightarrow> ([], c1, reads1))"

definition frame_bytes :: "deflate \<Rightarrow> frame_codec \<Rightarrow> raw_packet \<Rightarrow> u8 list" where
  "frame_bytes defl c p = (case encode defl c p of Ok bs \<Rightarrow> bs | Err _ \<Rightarrow> [])"

lemma encode_frame_bytes: "sendable defl c p \<Longrightarrow> encode defl c p = Ok (frame_bytes defl c p)"
  by (metis encode_sendable frame_bytes_def old.sum.simps(6))

lemma send_packet_sync:
  assumes "sendable defl (cn_codec c) p" "\<not> write_failed c" "in_sync (cn_cipher c) rc"
    and "send_packet aes defl Written c (pk_id p) (pk_payload p) = (r, sent, c')"
  shows "r = Ok () \<and> plain aes rc sent = frame_bytes defl (cn_codec c) p \<and>
    in_sync (cn_cipher c') (advance aes rc sent) \<and> cn_codec c' = cn_codec c \<and> \<not> write_failed c'"
proof -
  have enc: "encode defl (cn_codec c) \<lparr>pk_id = pk_id p, pk_payload = pk_payload p\<rparr> =
      Ok (frame_bytes defl (cn_codec c) p)"
    using encode_frame_bytes [OF assms(1)] by (cases p) simp
  show ?thesis
  proof (cases "cn_cipher c")
    case None
    with assms enc show ?thesis
      by (auto simp: send_packet_def check_not_failed_def write_frame_def plain_def advance_def
          in_sync_def split: option.splits)
  next
    case (Some a)
    then obtain b where b: "rc = Some b" "sc_key a = sc_key b" "enc_iv a = dec_iv b"
      using assms(3) by (cases rc) (auto simp: in_sync_def)
    obtain cs iv where e: "encrypt_loop (aes (sc_key b)) (dec_iv b) (frame_bytes defl (cn_codec c) p) = (cs, iv)"
      by fastforce
    have out: "r = Ok ()" "sent = cs" "c' = c\<lparr>cn_cipher := Some (a\<lparr>enc_iv := iv\<rparr>)\<rparr>"
      using assms(2,4) enc Some b e
      by (auto simp: send_packet_def check_not_failed_def write_frame_def encrypt_def)
    have dec: "decrypt aes b sent = (frame_bytes defl (cn_codec c) p, b\<lparr>dec_iv := iv\<rparr>)"
      using decrypt_encrypt_loop [OF e] out(2) by (simp add: decrypt_def)
    show ?thesis using out(1,3) dec b assms(2) by (simp add: plain_def advance_def in_sync_def)
  qed
qed

lemma send_all_plain:
  "list_all (sendable defl (cn_codec c)) ps \<Longrightarrow> \<not> write_failed c \<Longrightarrow> in_sync (cn_cipher c) rc \<Longrightarrow>
   send_all aes defl c ps = (wire, c') \<Longrightarrow>
   plain aes rc wire = concat (map (frame_bytes defl (cn_codec c)) ps)"
proof (induction ps arbitrary: c rc wire)
  case (Cons p ps)
  obtain r sent c1 where s: "send_packet aes defl Written c (pk_id p) (pk_payload p) = (r, sent, c1)"
    using prod_cases3 by blast
  obtain sents where t: "send_all aes defl c1 ps = (sents, c')" "wire = sent @ sents"
    using Cons.prems(4) s by (auto split: prod.splits)
  from send_packet_sync [OF _ Cons.prems(2,3) s] Cons.prems(1)
  have p: "plain aes rc sent = frame_bytes defl (cn_codec c) p" "in_sync (cn_cipher c1) (advance aes rc sent)"
    "cn_codec c1 = cn_codec c" "\<not> write_failed c1" by auto
  from Cons.IH [OF _ p(4,2) t(1)] Cons.prems(1) p(1,3) t(2) show ?case
    by (simp add: plain_append)
qed simp

lemma read_packet_loop_delivers:
  assumes z: "zlib_lossless defl infl" and p: "sendable defl (cn_codec c) p"
    and "list_all (\<lambda>bs. bs \<noteq> []) chunks"
    and "read_buf c @ plain aes (cn_cipher c) (concat chunks) = frame_bytes defl (cn_codec c) p @ tail"
  shows "\<exists>c' chunks'. read_packet_loop aes infl c (map Chunk chunks) = (Packet p, c', map Chunk chunks') \<and>
    read_buf c' @ plain aes (cn_cipher c') (concat chunks') = tail \<and>
    list_all (\<lambda>bs. bs \<noteq> []) chunks' \<and> cn_codec c' = cn_codec c \<and> write_failed c' = write_failed c"
  using assms
proof (induction chunks arbitrary: c)
  case Nil
  then have "try_decode infl (cn_codec c) (read_buf c) = (Ok (Some p), tail)"
    using try_decode_encode [OF z Nil.prems(2) encode_frame_bytes [OF Nil.prems(2)], of tail] by simp
  then show ?case
    by (intro exI [of _ "c\<lparr>read_buf := tail\<rparr>"] exI [of _ "[]"])
       (simp add: read_packet_loop.simps [of aes infl c])
next
  case (Cons x xs)
  let ?f = "frame_bytes defl (cn_codec c) p"
  consider q where "read_buf c = ?f @ q" | suf where "?f = read_buf c @ suf" "suf \<noteq> []"
    using Cons.prems(4) unfolding append_eq_append_conv2 by (metis append_Nil2)
  then show ?case
  proof cases
    case 1
    then have "try_decode infl (cn_codec c) (read_buf c) = (Ok (Some p), q)"
      using try_decode_encode [OF z Cons.prems(2) encode_frame_bytes [OF Cons.prems(2)], of q] by simp
    then show ?thesis using 1 Cons.prems
      by (intro exI [of _ "c\<lparr>read_buf := q\<rparr>"] exI [of _ "x # xs"])
         (simp add: read_packet_loop.simps [of aes infl c])
  next
    case 2
    have "try_decode infl (cn_codec c) (read_buf c) = (Ok None, read_buf c)"
      using try_decode_encode_prefix [OF Cons.prems(2) encode_frame_bytes [OF Cons.prems(2)] 2] .
    then have step: "read_packet_loop aes infl c (map Chunk (x # xs)) =
        read_packet_loop aes infl (receive aes c x) (map Chunk xs)"
      using Cons.prems(3) by (simp add: read_packet_loop.simps [of aes infl c])
    have "\<exists>c' chunks'. read_packet_loop aes infl (receive aes c x) (map Chunk xs) =
        (Packet p, c', map Chunk chunks') \<and> read_buf c' @ plain aes (cn_cipher c') (concat chunks') = tail \<and>
        list_all (\<lambda>bs. bs \<noteq> []) chunks' \<and> cn_codec c' = cn_codec (receive aes c x) \<and>
        write_failed c' = write_failed (receive aes c x)"
      using Cons.prems by (intro Cons.IH) (simp_all add: receive_eq plain_append)
    then show ?thesis unfolding step by (simp add: receive_eq)
  qed
qed

lemma read_packets_deliver:
  assumes z: "zlib_lossless defl infl"
  shows "list_all (sendable defl (cn_codec c)) ps \<Longrightarrow> \<not> write_failed c \<Longrightarrow>
    list_all (\<lambda>bs. bs \<noteq> []) chunks \<Longrightarrow>
    read_buf c @ plain aes (cn_cipher c) (concat chunks) =
      concat (map (frame_bytes defl (cn_codec c)) ps) @ tail \<Longrightarrow>
    \<exists>c' reads'. read_packets aes infl (length ps) c (map Chunk chunks) = (ps, c', reads')"
proof (induction ps arbitrary: c chunks)
  case (Cons p ps)
  have "read_buf c @ plain aes (cn_cipher c) (concat chunks) =
      frame_bytes defl (cn_codec c) p @ (concat (map (frame_bytes defl (cn_codec c)) ps) @ tail)"
    using Cons.prems(4) by simp
  from read_packet_loop_delivers [OF z _ Cons.prems(3) this] Cons.prems(1) obtain c1 chunks1 where
    l: "read_packet_loop aes infl c (map Chunk chunks) = (Packet p, c1, map Chunk chunks1)" and
    c1: "read_buf c1 @ plain aes (cn_cipher c1) (concat chunks1) =
      concat (map (frame_bytes defl (cn_codec c)) ps) @ tail" "list_all (\<lambda>bs. bs \<noteq> []) chunks1"
      "cn_codec c1 = cn_codec c" "write_failed c1 = write_failed c"
    by auto
  from Cons.IH [of c1 chunks1] c1 Cons.prems(1,2) obtain c2 reads2 where
    "read_packets aes infl (length ps) c1 (map Chunk chunks1) = (ps, c2, reads2)" by auto
  with l Cons.prems(2) show ?case by (simp add: read_packet_def check_not_failed_def)
qed simp

section \<open>Runs of a connection\<close>

text \<open>
  One call of a \<open>pub\<close> method of \<open>Connection\<close>, labelled with the bytes it put on the wire. The
  second component is what the socket still delivers.
\<close>

inductive conn_step ::
  "block_cipher \<Rightarrow> deflate \<Rightarrow> inflate \<Rightarrow> connection \<times> socket_read list \<Rightarrow> u8 list \<Rightarrow>
   connection \<times> socket_read list \<Rightarrow> bool"
  for aes defl infl where
  Send: "send_packet aes defl out c pid payload = (r, sent, c') \<Longrightarrow>
    conn_step aes defl infl (c, reads) sent (c', reads)"
| Read: "read_packet aes infl c reads = (r, c', reads') \<Longrightarrow>
    conn_step aes defl infl (c, reads) [] (c', reads')"
| Compression: "conn_step aes defl infl (c, reads) [] (set_compression c t, reads)"
| Encryption: "conn_step aes defl infl (c, reads) [] (enable_encryption c k, reads)"
| State: "conn_step aes defl infl (c, reads) [] (set_state c st, reads)"
| ReadDeadline: "conn_step aes defl infl (c, reads) [] (set_read_timeout c n, reads)"
| WriteDeadline: "conn_step aes defl infl (c, reads) [] (set_write_timeout c n, reads)"

inductive_cases conn_stepE: "conn_step aes defl infl cf sent cf'"

inductive conn_run ::
  "block_cipher \<Rightarrow> deflate \<Rightarrow> inflate \<Rightarrow> connection \<times> socket_read list \<Rightarrow> u8 list \<Rightarrow>
   connection \<times> socket_read list \<Rightarrow> bool"
  for aes defl infl where
  Stop: "conn_run aes defl infl cf [] cf"
| Step: "conn_step aes defl infl cf sent cf1 \<Longrightarrow> conn_run aes defl infl cf1 sents cf2 \<Longrightarrow>
    conn_run aes defl infl cf (sent @ sents) cf2"

lemma send_packet_failed:
  "write_failed c \<Longrightarrow> send_packet aes defl out c pid payload = (Err Timeout, [], c)"
  by (simp add: send_packet_def check_not_failed_def)

lemma read_packet_failed: "write_failed c \<Longrightarrow> read_packet aes infl c reads = (Failed Timeout, c, reads)"
  by (simp add: read_packet_def check_not_failed_def)

lemma conn_step_failed:
  "conn_step aes defl infl cf sent cf' \<Longrightarrow> write_failed (fst cf) \<Longrightarrow>
   sent = [] \<and> write_failed (fst cf') \<and> snd cf' = snd cf"
  by (auto elim!: conn_stepE simp: send_packet_failed read_packet_failed set_compression_def
      enable_encryption_def set_state_def set_read_timeout_def set_write_timeout_def)

lemma conn_run_failed:
  "conn_run aes defl infl cf sent cf' \<Longrightarrow> write_failed (fst cf) \<Longrightarrow>
   sent = [] \<and> write_failed (fst cf') \<and> snd cf' = snd cf"
  by (induction rule: conn_run.induct) (auto dest: conn_step_failed)

lemma send_packet_Timeout:
  assumes "send_packet aes defl out c pid payload = (Err Timeout, sent, c')"
  shows "write_failed c'"
  using assms
  by (auto simp: send_packet_def check_not_failed_def error_poisons_connection_def Let_def write_frame_def
      split: sum.splits if_splits prod.splits option.splits frame_write.splits)

text \<open>A write that fails for another reason than the deadline leaves the connection usable.\<close>

lemma send_packet_poisons_only_on_Timeout:
  assumes "send_packet aes defl out c pid payload = (r, sent, c')" "\<not> write_failed c"
  shows "write_failed c' \<longleftrightarrow> r = Err Timeout"
  using assms
  by (auto simp: send_packet_def check_not_failed_def error_poisons_connection_def Let_def write_frame_def
      split: sum.splits if_splits prod.splits option.splits frame_write.splits)

lemma packets_delivered:
  assumes "zlib_lossless defl infl"
    and "list_all (sendable defl (cn_codec tx)) ps" and "\<not> write_failed tx"
    and "cn_codec rx = cn_codec tx" and "in_sync (cn_cipher tx) (cn_cipher rx)"
    and "read_buf rx = []" and "\<not> write_failed rx"
    and "send_all aes defl tx ps = (wire, tx')"
    and "concat chunks = wire" and "list_all (\<lambda>bs. bs \<noteq> []) chunks"
  shows "fst (read_packets aes infl (length ps) rx (map Chunk chunks)) = ps"
proof -
  have "plain aes (cn_cipher rx) wire = concat (map (frame_bytes defl (cn_codec tx)) ps)"
    by (rule send_all_plain [OF assms(2,3,5,8)])
  then have "read_buf rx @ plain aes (cn_cipher rx) (concat chunks) =
      concat (map (frame_bytes defl (cn_codec rx)) ps) @ []"
    using assms(4,6,9) by simp
  from read_packets_deliver [OF assms(1) _ assms(7,10) this] assms(2,4) show ?thesis by auto
qed

section \<open>Properties\<close>

text \<open>
  C30: packets arrive. Whatever the packets a peer sends with \<open>send_packet\<close> (all within the frame
  limit, all writes completing), and however the network splits the bytes into nonempty chunks,
  calling \<open>read_packet\<close> as often at the other end returns exactly those packets in order, with or
  without compression and encryption, as long as both ends use the same compression threshold
  and their ciphers are synchronised.
\<close>

theorem packets_arrive:
  assumes "zlib_lossless defl infl"
    and "list_all (sendable defl (cn_codec tx)) ps" and "\<not> write_failed tx"
    and "cn_codec rx = cn_codec tx" and "in_sync (cn_cipher tx) (cn_cipher rx)"
    and "read_buf rx = []" and "\<not> write_failed rx"
    and "send_all aes defl tx ps = (wire, tx')"
    and "concat chunks = wire" and "list_all (\<lambda>bs. bs \<noteq> []) chunks"
  shows "fst (read_packets aes infl (length ps) rx (map Chunk chunks)) = ps"
  using assms by (rule packets_delivered)

definition sample_key :: "u8 list" where
  "sample_key = [1, 2, 3, 4, 5, 6, 7, 8, 9, 10, 11, 12, 13, 14, 15, 16]"

definition sample_conn :: connection where
  "sample_conn = enable_encryption (set_compression (connect_with_timeouts default_timeouts) 4) sample_key"

definition sample_packets :: "raw_packet list" where
  "sample_packets = [\<lparr>pk_id = 1, pk_payload = [5]\<rparr>, \<lparr>pk_id = 2, pk_payload = [6, 7, 8, 9]\<rparr>]"

text \<open>The bytes on the wire arrive one at a time.\<close>

theorem packets_arrive_witness:
  "\<exists>wire tx'. send_all (\<lambda>k iv. map2 (XOR) k iv) Some sample_conn sample_packets = (wire, tx') \<and>
     fst (read_packets (\<lambda>k iv. map2 (XOR) k iv) (\<lambda>bs cap. Some (take cap bs)) (length sample_packets)
       sample_conn (map Chunk (map (\<lambda>b. [b]) wire))) = sample_packets"
proof -
  let ?aes = "\<lambda>k iv. map2 (XOR) k iv" and ?infl = "\<lambda>bs cap. Some (take cap bs)"
  obtain wire tx' where s: "send_all ?aes Some sample_conn sample_packets = (wire, tx')"
    by fastforce
  have z: "zlib_lossless Some ?infl" by (simp add: zlib_lossless_def)
  have p: "list_all (sendable Some (cn_codec sample_conn)) sample_packets" by code_simp
  have c: "concat (map (\<lambda>b. [b]) wire) = wire" by (induction wire) auto
  have "fst (read_packets ?aes ?infl (length sample_packets) sample_conn
      (map Chunk (map (\<lambda>b. [b]) wire))) = sample_packets"
    by (rule packets_arrive [OF z p _ refl _ _ _ s c])
       (simp_all add: sample_conn_def in_sync_def new_cipher_def enable_encryption_def set_compression_def
         connect_with_timeouts_def list_all_iff)
  with s show ?thesis by blast
qed

text \<open>
  C31: after a send that missed its deadline the connection is dead for good. Whatever methods
  are called on it afterwards, in whatever order, no further byte reaches the wire (so no frame
  follows the truncated one), nothing more is read from the socket, and every \<open>send_packet\<close> and
  \<open>read_packet\<close> fails with \<open>Timeout\<close>.
\<close>

theorem timed_out_connection_stays_dead:
  assumes "send_packet aes defl out c pid payload = (Err Timeout, sent, c1)"
    and "conn_run aes defl infl (c1, reads) later (c2, reads2)"
  shows "later = [] \<and> reads2 = reads \<and>
    send_packet aes defl out2 c2 pid2 payload2 = (Err Timeout, [], c2) \<and>
    read_packet aes infl c2 reads2 = (Failed Timeout, c2, reads2)"
  using conn_run_failed [OF assms(2)] send_packet_Timeout [OF assms(1)]
  by (simp add: send_packet_failed read_packet_failed)

theorem timed_out_connection_stays_dead_witness:
  "\<exists>c1 c2. send_packet (\<lambda>k iv. iv) Some (TimedOutAfter 1) (connect_with_timeouts default_timeouts) 7 [1, 2] =
     (Err Timeout, [3], c1) \<and>
   conn_run (\<lambda>k iv. iv) Some (\<lambda>bs cap. Some bs) (c1, [Chunk [9]]) [] (c2, [Chunk [9]]) \<and>
   send_packet (\<lambda>k iv. iv) Some Written c2 7 [] = (Err Timeout, [], c2)"
proof -
  let ?c1 = "(connect_with_timeouts default_timeouts)\<lparr>write_failed := True\<rparr>" and ?c2 = "\<lambda>c. set_state c Play"
  have s: "send_packet (\<lambda>k iv. iv) Some (TimedOutAfter 1) (connect_with_timeouts default_timeouts) 7 [1, 2] =
     (Err Timeout, [3], ?c1)" by code_simp
  have r: "conn_run (\<lambda>k iv. iv) Some (\<lambda>bs cap. Some bs) (?c1, [Chunk [9]]) ([] @ []) (?c2 ?c1, [Chunk [9]])"
    by (rule conn_run.Step [OF conn_step.State conn_run.Stop])
  show ?thesis
    using timed_out_connection_stays_dead [OF s r [simplified append_Nil], of Written 7 "[]"] s r by auto
qed

text \<open>
  a connection through a proxy ignores the configured read and write deadlines: it is the
  connection \<open>connect_with_timeouts\<close> would give for the defaults, and differs from the direct
  connection whenever a deadline is configured that is not the default.
\<close>

theorem proxy_ignores_timeouts:
  "connect_via_proxy t = connect_with_timeouts default_timeouts \<and>
   (connect_via_proxy t = connect_with_timeouts t \<longleftrightarrow>
      to_read t = to_read default_timeouts \<and> to_write t = to_write default_timeouts)"
  by (auto simp: connect_via_proxy_def connect_with_timeouts_def from_tcp_stream_def)

end
