(* ===== verification/Wire_Nbt.thy ===== *)
theory Wire_Nbt
  imports Wire_Buffer
begin

text \<open>
  Network NBT (crates/minerider-protocol/src/nbt.rs): the value type, its writer and its reader
  with the depth and node limits. The fields of the \<open>NbtList\<close> struct are the two arguments of
  the constructor.

  The reader recurses on the levels of nesting that are left, \<open>MAX_NBT_DEPTH + 1 - depth\<close>. The
  loop over the entries of a compound takes as fuel the number of bytes left, which every turn
  decreases; \<open>read_entries_loop\<close> shows that this is enough for the loop equation of the code.

  The writer and the reader are inverse to each other on values within the limits, and the
  reader accepts no other bytes (\<open>nbt\<close> is an \<open>exact_codec\<close>).
\<close>

section \<open>Values\<close>

definition MAX_NBT_DEPTH :: nat where "MAX_NBT_DEPTH = 64"
definition MAX_NBT_NODES :: nat where "MAX_NBT_NODES = 1000000"

datatype nbt =
    NbtByte i8
  | NbtShort i16
  | NbtInt i32
  | NbtLong i64
  | NbtFloat u32
  | NbtDouble u64
  | NbtByteArray "u8 list"
  | NbtString string
  | NbtList u8 "nbt list"
  | NbtCompound "(string \<times> nbt) list"
  | NbtIntArray "i32 list"
  | NbtLongArray "i64 list"

fun tag_id :: "nbt \<Rightarrow> u8" where
  "tag_id (NbtByte _) = 1"
| "tag_id (NbtShort _) = 2"
| "tag_id (NbtInt _) = 3"
| "tag_id (NbtLong _) = 4"
| "tag_id (NbtFloat _) = 5"
| "tag_id (NbtDouble _) = 6"
| "tag_id (NbtByteArray _) = 7"
| "tag_id (NbtString _) = 8"
| "tag_id (NbtList _ _) = 9"
| "tag_id (NbtCompound _) = 10"
| "tag_id (NbtIntArray _) = 11"
| "tag_id (NbtLongArray _) = 12"

definition new_list :: "nbt list \<Rightarrow> protocol_error + (u8 \<times> nbt list)" where
  "new_list items =
     (let tag = (case items of [] \<Rightarrow> 0 | i # _ \<Rightarrow> tag_id i) in
      if list_ex (\<lambda>i. tag_id i \<noteq> tag) items then Err InvalidNbt else Ok (tag, items))"

definition nbt_get :: "nbt \<Rightarrow> string \<Rightarrow> nbt option" where
  "nbt_get v name =
     (case v of NbtCompound entries \<Rightarrow> map_option snd (find (\<lambda>(n, _). n = name) entries) | _ \<Rightarrow> None)"

section \<open>Writing\<close>

definition write_nbt_string :: "packet_writer \<Rightarrow> string \<Rightarrow> protocol_error + packet_writer" where
  "write_nbt_string w s =
     (if length s > 65535 then Err InvalidNbt
      else Ok (put_bytes (put_u16 w (word_of_nat (length s))) (as_bytes s)))"

fun write_payload :: "packet_writer \<Rightarrow> nbt \<Rightarrow> protocol_error + packet_writer"
  and write_items :: "packet_writer \<Rightarrow> nbt list \<Rightarrow> protocol_error + packet_writer"
  and write_entries :: "packet_writer \<Rightarrow> (string \<times> nbt) list \<Rightarrow> protocol_error + packet_writer" where
  "write_payload w (NbtByte v) = Ok (put_i8 w v)"
| "write_payload w (NbtShort v) = Ok (put_i16 w v)"
| "write_payload w (NbtInt v) = Ok (put_i32 w v)"
| "write_payload w (NbtLong v) = Ok (put_i64 w v)"
| "write_payload w (NbtFloat v) = Ok (put_f32 w v)"
| "write_payload w (NbtDouble v) = Ok (put_f64 w v)"
| "write_payload w (NbtByteArray v) = Ok (put_bytes (put_i32 w (word_of_nat (length v))) v)"
| "write_payload w (NbtString v) = write_nbt_string w v"
| "write_payload w (NbtList tag items) =
     (if list_ex (\<lambda>i. tag_id i \<noteq> tag) items then Err InvalidNbt
      else write_items (put_i32 (put_u8 w tag) (word_of_nat (length items))) items)"
| "write_payload w (NbtCompound entries) =
     and_then (write_entries w entries) (\<lambda>w'. Ok (put_u8 w' 0))"
| "write_payload w (NbtIntArray v) = Ok (foldl put_i32 (put_i32 w (word_of_nat (length v))) v)"
| "write_payload w (NbtLongArray v) = Ok (foldl put_i64 (put_i32 w (word_of_nat (length v))) v)"
| "write_items w [] = Ok w"
| "write_items w (i # items) = and_then (write_payload w i) (\<lambda>w'. write_items w' items)"
| "write_entries w [] = Ok w"
| "write_entries w ((name, v) # entries) =
     and_then (write_nbt_string (put_u8 w (tag_id v)) name) (\<lambda>w1.
     and_then (write_payload w1 v) (\<lambda>w2. write_entries w2 entries))"

definition encode_nbt :: "packet_writer \<Rightarrow> nbt \<Rightarrow> protocol_error + packet_writer" where
  "encode_nbt w v = write_payload (put_u8 w (tag_id v)) v"

definition write_optional :: "packet_writer \<Rightarrow> nbt option \<Rightarrow> protocol_error + packet_writer" where
  "write_optional w v = (case v of None \<Rightarrow> Ok (put_u8 w 0) | Some n \<Rightarrow> encode_nbt w n)"

section \<open>Reading\<close>

definition read_length :: "nat \<Rightarrow> packet_reader \<Rightarrow> nat reading" where
  "read_length elem_size r =
     and_then (get_i32 r) (\<lambda>(len, r').
       if sint len < 0 then Err InvalidNbt
       else let n = nat (sint len); bytes = min (n * elem_size) (2 ^ 64 - 1) in
         if bytes > remaining r' then Err (BufferUnderflow bytes (remaining r')) else Ok (n, r'))"

definition read_nbt_string :: "packet_reader \<Rightarrow> string reading" where
  "read_nbt_string r =
     and_then (get_u16 r) (\<lambda>(len, r').
     and_then (read_bytes (unat len) r') (\<lambda>(bs, r'').
       case from_utf8 bs of None \<Rightarrow> Err InvalidUtf8 | Some s \<Rightarrow> Ok (s, r'')))"

text \<open>A reader of one value that also counts the nodes it has seen.\<close>

type_synonym 'v node_read = "nat \<Rightarrow> packet_reader \<Rightarrow> ('v \<times> nat) reading"

fun read_items :: "nbt node_read \<Rightarrow> nat \<Rightarrow> nbt list node_read" where
  "read_items rd 0 nodes r = Ok (([], nodes), r)"
| "read_items rd (Suc n) nodes r =
     and_then (rd nodes r) (\<lambda>((v, nodes1), r1).
     and_then (read_items rd n nodes1 r1) (\<lambda>((vs, nodes2), r2). Ok ((v # vs, nodes2), r2)))"

fun read_entries :: "(u8 \<Rightarrow> nbt node_read) \<Rightarrow> nat \<Rightarrow> (string \<times> nbt) list node_read" where
  "read_entries rd 0 nodes r = Err (BufferUnderflow 1 0)"
| "read_entries rd (Suc n) nodes r =
     and_then (get_u8 r) (\<lambda>(tag, r1).
       if tag = 0 then Ok (([], nodes), r1)
       else if \<not> (1 \<le> tag \<and> tag \<le> 12) then Err InvalidNbt
       else and_then (read_nbt_string r1) (\<lambda>(name, r2).
         and_then (rd tag nodes r2) (\<lambda>((v, nodes1), r3).
         and_then (read_entries rd n nodes1 r3) (\<lambda>((es, nodes2), r4).
           Ok (((name, v) # es, nodes2), r4)))))"

primrec read_payload :: "nat \<Rightarrow> u8 \<Rightarrow> nbt node_read" where
  "read_payload 0 = (\<lambda>tag nodes r. Err InvalidNbt)"
| "read_payload (Suc levels) = (\<lambda>tag nodes0 r.
     let nodes = nodes0 + 1 in
     if nodes > MAX_NBT_NODES then Err InvalidNbt
     else if tag = 1 then and_then (get_i8 r) (\<lambda>(v, r'). Ok ((NbtByte v, nodes), r'))
     else if tag = 2 then and_then (get_i16 r) (\<lambda>(v, r'). Ok ((NbtShort v, nodes), r'))
     else if tag = 3 then and_then (get_i32 r) (\<lambda>(v, r'). Ok ((NbtInt v, nodes), r'))
     else if tag = 4 then and_then (get_i64 r) (\<lambda>(v, r'). Ok ((NbtLong v, nodes), r'))
     else if tag = 5 then and_then (get_f32 r) (\<lambda>(v, r'). Ok ((NbtFloat v, nodes), r'))
     else if tag = 6 then and_then (get_f64 r) (\<lambda>(v, r'). Ok ((NbtDouble v, nodes), r'))
     else if tag = 7 then
       and_then (read_length 1 r) (\<lambda>(len, r1).
       and_then (read_bytes len r1) (\<lambda>(bs, r2). Ok ((NbtByteArray bs, nodes), r2)))
     else if tag = 8 then and_then (read_nbt_string r) (\<lambda>(s, r'). Ok ((NbtString s, nodes), r'))
     else if tag = 9 then
       and_then (get_u8 r) (\<lambda>(elem_tag, r1).
       and_then (get_i32 r1) (\<lambda>(count, r2).
         if sint count < 0 then Err InvalidNbt
         else if count = 0 then Ok ((NbtList elem_tag [], nodes), r2)
         else if \<not> (1 \<le> elem_tag \<and> elem_tag \<le> 12) then Err InvalidNbt
         else if nat (sint count) > remaining r2
           then Err (BufferUnderflow (nat (sint count)) (remaining r2))
         else and_then (read_items (read_payload levels elem_tag) (nat (sint count)) nodes r2)
           (\<lambda>((items, nodes'), r3). Ok ((NbtList elem_tag items, nodes'), r3))))
     else if tag = 10 then
       and_then (read_entries (read_payload levels) (Suc (remaining r)) nodes r)
         (\<lambda>((entries, nodes'), r'). Ok ((NbtCompound entries, nodes'), r'))
     else if tag = 11 then
       and_then (read_length 4 r) (\<lambda>(len, r1).
       and_then (read_n get_i32 len r1) (\<lambda>(v, r2). Ok ((NbtIntArray v, nodes), r2)))
     else if tag = 12 then
       and_then (read_length 8 r) (\<lambda>(len, r1).
       and_then (read_n get_i64 len r1) (\<lambda>(v, r2). Ok ((NbtLongArray v, nodes), r2)))
     else Err InvalidNbt)"

definition decode_nbt :: "packet_reader \<Rightarrow> nbt reading" where
  "decode_nbt r =
     and_then (get_u8 r) (\<lambda>(tag, r').
       if tag = 0 then Err InvalidNbt
       else and_then (read_payload (Suc MAX_NBT_DEPTH) tag 0 r') (\<lambda>((v, _), r''). Ok (v, r'')))"

definition read_optional :: "packet_reader \<Rightarrow> nbt option reading" where
  "read_optional r =
     (if rest r \<noteq> [] \<and> hd (rest r) = 0
      then and_then (get_u8 r) (\<lambda>(_, r'). Ok (None, r'))
      else and_then (decode_nbt r) (\<lambda>(v, r'). Ok (Some v, r')))"

section \<open>The bytes of a value\<close>

definition length_enc :: "'a list \<Rightarrow> u8 list" where
  "length_enc xs = to_be_bytes 4 (word_of_nat (length xs) :: i32)"

definition string_enc :: "string \<Rightarrow> u8 list" where
  "string_enc s = to_be_bytes 2 (word_of_nat (length s) :: u16) @ as_bytes s"

fun payload_enc :: "nbt \<Rightarrow> u8 list" where
  "payload_enc (NbtByte v) = [v]"
| "payload_enc (NbtShort v) = to_be_bytes 2 v"
| "payload_enc (NbtInt v) = to_be_bytes 4 v"
| "payload_enc (NbtLong v) = to_be_bytes 8 v"
| "payload_enc (NbtFloat v) = to_be_bytes 4 v"
| "payload_enc (NbtDouble v) = to_be_bytes 8 v"
| "payload_enc (NbtByteArray v) = length_enc v @ v"
| "payload_enc (NbtString v) = string_enc v"
| "payload_enc (NbtList tag items) = tag # length_enc items @ concat (map payload_enc items)"
| "payload_enc (NbtCompound entries) =
     concat (map (\<lambda>(name, v). tag_id v # string_enc name @ payload_enc v) entries) @ [0]"
| "payload_enc (NbtIntArray v) = length_enc v @ concat (map (to_be_bytes 4) v)"
| "payload_enc (NbtLongArray v) = length_enc v @ concat (map (to_be_bytes 8) v)"

definition nbt_enc :: "nbt \<Rightarrow> u8 list" where
  "nbt_enc v = tag_id v # payload_enc v"

fun nbt_nodes :: "nbt \<Rightarrow> nat" where
  "nbt_nodes (NbtList _ items) = Suc (sum_list (map nbt_nodes items))"
| "nbt_nodes (NbtCompound entries) = Suc (sum_list (map (\<lambda>(_, v). nbt_nodes v) entries))"
| "nbt_nodes _ = 1"

fun nbt_depth :: "nbt \<Rightarrow> nat" where
  "nbt_depth (NbtList _ items) = foldr (\<lambda>v m. max (Suc (nbt_depth v)) m) items 0"
| "nbt_depth (NbtCompound entries) = foldr (\<lambda>(_, v) m. max (Suc (nbt_depth v)) m) entries 0"
| "nbt_depth _ = 0"

definition string_ok :: "string \<Rightarrow> bool" where
  "string_ok s \<longleftrightarrow> valid_str s \<and> length s \<le> 65535"

definition length_ok :: "'a list \<Rightarrow> bool" where
  "length_ok xs \<longleftrightarrow> length xs < 2 ^ 31"

text \<open>
  The values that have an encoding: strings and lengths fit their prefixes, lists are
  homogeneous. (Rust's types give the UTF-8 part.)
\<close>

fun nbt_wf :: "nbt \<Rightarrow> bool" where
  "nbt_wf (NbtByteArray v) = length_ok v"
| "nbt_wf (NbtString v) = string_ok v"
| "nbt_wf (NbtList tag items) = (length_ok items \<and> list_all (\<lambda>v. tag_id v = tag \<and> nbt_wf v) items)"
| "nbt_wf (NbtCompound entries) = list_all (\<lambda>(name, v). string_ok name \<and> nbt_wf v) entries"
| "nbt_wf (NbtIntArray v) = length_ok v"
| "nbt_wf (NbtLongArray v) = length_ok v"
| "nbt_wf _ = True"

definition nbt_ok :: "nbt \<Rightarrow> bool" where
  "nbt_ok v \<longleftrightarrow> nbt_wf v \<and> nbt_depth v \<le> MAX_NBT_DEPTH \<and> nbt_nodes v \<le> MAX_NBT_NODES"

lemma nbt_depth_list: "nbt_depth (NbtList t items) < Suc k \<longleftrightarrow> (\<forall>v\<in>set items. nbt_depth v < k)"
  by (induction items) auto

lemma nbt_depth_compound:
  "nbt_depth (NbtCompound entries) < Suc k \<longleftrightarrow> (\<forall>(n, v)\<in>set entries. nbt_depth v < k)"
  by (induction entries) auto

lemma tag_id_range: "1 \<le> tag_id v \<and> tag_id v \<le> 12"
  by (cases v) (simp_all add: word_le_nat_alt)

lemma tag_id_nonzero [simp]: "tag_id v \<noteq> 0"
  by (cases v) simp_all

section \<open>Writing gives these bytes\<close>

lemma write_nbt_string_enc:
  "string_ok s \<Longrightarrow> \<exists>w'. write_nbt_string w s = Ok w' \<and> wr_buf w' = wr_buf w @ string_enc s"
  by (simp add: write_nbt_string_def string_ok_def string_enc_def u16.put_enc)

lemma write_payload_enc:
  "nbt_wf v \<Longrightarrow> \<exists>w'. write_payload w v = Ok w' \<and> wr_buf w' = wr_buf w @ payload_enc v"
  "list_all nbt_wf vs \<Longrightarrow> \<exists>w'. write_items w vs = Ok w' \<and> wr_buf w' = wr_buf w @ concat (map payload_enc vs)"
  "list_all (\<lambda>(name, v). string_ok name \<and> nbt_wf v) es \<Longrightarrow>
    \<exists>w'. write_entries w es = Ok w' \<and>
      wr_buf w' = wr_buf w @ concat (map (\<lambda>(name, v). tag_id v # string_enc name @ payload_enc v) es)"
proof (induction w v and w vs and w es rule: write_payload_write_items_write_entries.induct)
  case (9 w tag items)
  from 9 have "\<not> list_ex (\<lambda>i. tag_id i \<noteq> tag) items" "list_all nbt_wf items"
    by (auto simp: list_ex_iff list_all_iff)
  with 9 show ?case by (auto simp: length_enc_def u8.put_enc i32.put_enc)
next
  case (10 w entries)
  then show ?case by (auto simp: u8.put_enc)
next
  case (11 w v)
  then show ?case by (simp add: i32.foldl_put list_all_iff i32.put_enc length_enc_def)
next
  case (12 w v)
  then show ?case by (simp add: i64.foldl_put list_all_iff i32.put_enc length_enc_def)
next
  case (14 w i items)
  then obtain w1 where "write_payload w i = Ok w1" "wr_buf w1 = wr_buf w @ payload_enc i" by auto
  with "14.IH"(2) [OF this(1)] "14.prems" show ?case by auto
next
  case (16 w name v entries)
  obtain w1 where w1: "write_nbt_string (put_u8 w (tag_id v)) name = Ok w1"
      "wr_buf w1 = wr_buf w @ tag_id v # string_enc name"
    using write_nbt_string_enc [of name "put_u8 w (tag_id v)"] "16.prems" by (auto simp: u8.put_enc)
  obtain w2 where w2: "write_payload w1 v = Ok w2" "wr_buf w2 = wr_buf w1 @ payload_enc v"
    using "16.IH"(1) [OF w1(1)] "16.prems" by auto
  from "16.IH"(2) [OF w1(1) w2(1)] "16.prems" w1 w2 show ?case by auto
qed (auto simp: write_nbt_string_enc i8.put_enc i16.put_enc i32.put_enc i64.put_enc f32.put_enc f64.put_enc
      length_enc_def)

lemma encode_nbt_enc: "nbt_wf v \<Longrightarrow> \<exists>w'. encode_nbt w v = Ok w' \<and> wr_buf w' = wr_buf w @ nbt_enc v"
  using write_payload_enc(1) [of v "put_u8 w (tag_id v)"]
  by (auto simp: encode_nbt_def nbt_enc_def u8.put_enc)

section \<open>Reading these bytes gives the value back\<close>

lemma read_length_at:
  assumes "length_ok xs" "length xs * k \<le> length suf"
  shows "read_length k (reader_at pre (length_enc xs @ suf)) = Ok (length xs, reader_at (pre @ length_enc xs) suf)"
  using assms i32.get_enc [where v = "word_of_nat (length xs)"]
  by (simp add: read_length_def length_enc_def length_ok_def sint_word_of_nat_len Let_def min_def)

lemma read_nbt_string_at:
  assumes "string_ok s"
  shows "read_nbt_string (reader_at pre (string_enc s @ suf)) = Ok (s, reader_at (pre @ string_enc s) suf)"
  using assms u16.get_enc [where v = "word_of_nat (length s)"]
  by (simp add: read_nbt_string_def string_enc_def string_ok_def unat_of_nat wire_simps)

definition reads_back :: "nbt node_read \<Rightarrow> nbt \<Rightarrow> bool" where
  "reads_back rd v \<longleftrightarrow> (\<forall>nodes pre suf. nodes + nbt_nodes v \<le> MAX_NBT_NODES \<longrightarrow>
     rd nodes (reader_at pre (payload_enc v @ suf)) =
       Ok ((v, nodes + nbt_nodes v), reader_at (pre @ payload_enc v) suf))"

lemma read_items_enc:
  "\<forall>v\<in>set vs. reads_back rd v \<Longrightarrow> nodes + sum_list (map nbt_nodes vs) \<le> MAX_NBT_NODES \<Longrightarrow>
   read_items rd (length vs) nodes (reader_at pre (concat (map payload_enc vs) @ suf)) =
     Ok ((vs, nodes + sum_list (map nbt_nodes vs)), reader_at (pre @ concat (map payload_enc vs)) suf)"
proof (induction vs arbitrary: nodes pre)
  case (Cons v vs)
  have "rd nodes (reader_at pre (payload_enc v @ concat (map payload_enc vs) @ suf)) =
      Ok ((v, nodes + nbt_nodes v), reader_at (pre @ payload_enc v) (concat (map payload_enc vs) @ suf))"
    using Cons.prems by (simp add: reads_back_def)
  moreover have "read_items rd (length vs) (nodes + nbt_nodes v)
      (reader_at (pre @ payload_enc v) (concat (map payload_enc vs) @ suf)) =
      Ok ((vs, nodes + nbt_nodes v + sum_list (map nbt_nodes vs)),
          reader_at ((pre @ payload_enc v) @ concat (map payload_enc vs)) suf)"
    using Cons.prems by (intro Cons.IH) auto
  ultimately show ?case by (simp add: add.assoc)
qed simp

lemma read_entries_enc:
  "\<forall>(name, v)\<in>set es. string_ok name \<and> reads_back (rd (tag_id v)) v \<Longrightarrow>
   nodes + sum_list (map (\<lambda>(_, v). nbt_nodes v) es) \<le> MAX_NBT_NODES \<Longrightarrow> length es < n \<Longrightarrow>
   read_entries rd n nodes (reader_at pre (payload_enc (NbtCompound es) @ suf)) =
     Ok ((es, nodes + sum_list (map (\<lambda>(_, v). nbt_nodes v) es)), reader_at (pre @ payload_enc (NbtCompound es)) suf)"
proof (induction es arbitrary: nodes pre n)
  case Nil
  then obtain m where "n = Suc m" by (cases n) auto
  then show ?case by (simp add: wire_simps)
next
  case (Cons e es)
  obtain name v where e: "e = (name, v)" by fastforce
  obtain m where m: "n = Suc m" "length es < m" using Cons.prems(3) by (cases n) auto
  let ?tail = "payload_enc (NbtCompound es) @ suf"
  have bytes: "payload_enc (NbtCompound (e # es)) @ suf = tag_id v # string_enc name @ payload_enc v @ ?tail"
    by (simp add: e)
  have u: "get_u8 (reader_at pre (tag_id v # t)) = Ok (tag_id v, reader_at (pre @ [tag_id v]) t)" for t
    by (simp add: wire_simps)
  have s: "read_nbt_string (reader_at p (string_enc name @ t)) = Ok (name, reader_at (p @ string_enc name) t)" for p t
    using Cons.prems(1) by (simp add: e read_nbt_string_at)
  have r: "rd (tag_id v) nodes (reader_at p (payload_enc v @ t)) =
      Ok ((v, nodes + nbt_nodes v), reader_at (p @ payload_enc v) t)" for p t
    using Cons.prems(1,2) by (simp add: e reads_back_def)
  have i: "read_entries rd m (nodes + nbt_nodes v) (reader_at p ?tail) =
      Ok ((es, nodes + nbt_nodes v + sum_list (map (\<lambda>(_, v). nbt_nodes v) es)),
          reader_at (p @ payload_enc (NbtCompound es)) suf)" for p
    using Cons.prems m(2) by (intro Cons.IH) (auto simp: e)
  show ?case
    unfolding bytes m(1) using tag_id_range [of v]
    by (simp add: u s r i e add.assoc del: payload_enc.simps) simp
qed

lemma length_payloads: "length es < Suc (length (payload_enc (NbtCompound es) @ suf))"
proof -
  have "length es \<le> length (concat (map (\<lambda>(name, v). tag_id v # string_enc name @ payload_enc v) es))"
    by (induction es) auto
  then show ?thesis by simp
qed

lemma payload_nonempty: "payload_enc v \<noteq> []"
  by (cases v) (auto simp: length_enc_def string_enc_def dest: arg_cong [where f = length])

lemma length_items: "length vs \<le> length (concat (map payload_enc vs))"
proof (induction vs)
  case (Cons v vs)
  then show ?case using payload_nonempty [of v] by (cases "payload_enc v") auto
qed simp

lemma read_payload_tag:
  assumes "nodes < MAX_NBT_NODES"
  shows
  "read_payload (Suc k) 1 nodes r = and_then (get_i8 r) (\<lambda>(v, r'). Ok ((NbtByte v, Suc nodes), r'))"
  "read_payload (Suc k) 2 nodes r = and_then (get_i16 r) (\<lambda>(v, r'). Ok ((NbtShort v, Suc nodes), r'))"
  "read_payload (Suc k) 3 nodes r = and_then (get_i32 r) (\<lambda>(v, r'). Ok ((NbtInt v, Suc nodes), r'))"
  "read_payload (Suc k) 4 nodes r = and_then (get_i64 r) (\<lambda>(v, r'). Ok ((NbtLong v, Suc nodes), r'))"
  "read_payload (Suc k) 5 nodes r = and_then (get_f32 r) (\<lambda>(v, r'). Ok ((NbtFloat v, Suc nodes), r'))"
  "read_payload (Suc k) 6 nodes r = and_then (get_f64 r) (\<lambda>(v, r'). Ok ((NbtDouble v, Suc nodes), r'))"
  "read_payload (Suc k) 7 nodes r =
     and_then (read_length 1 r) (\<lambda>(len, r1).
     and_then (read_bytes len r1) (\<lambda>(bs, r2). Ok ((NbtByteArray bs, Suc nodes), r2)))"
  "read_payload (Suc k) 8 nodes r = and_then (read_nbt_string r) (\<lambda>(s, r'). Ok ((NbtString s, Suc nodes), r'))"
  "read_payload (Suc k) 9 nodes r =
     and_then (get_u8 r) (\<lambda>(elem_tag, r1).
     and_then (get_i32 r1) (\<lambda>(count, r2).
       if sint count < 0 then Err InvalidNbt
       else if count = 0 then Ok ((NbtList elem_tag [], Suc nodes), r2)
       else if \<not> (1 \<le> elem_tag \<and> elem_tag \<le> 12) then Err InvalidNbt
       else if nat (sint count) > remaining r2
         then Err (BufferUnderflow (nat (sint count)) (remaining r2))
       else and_then (read_items (read_payload k elem_tag) (nat (sint count)) (Suc nodes) r2)
         (\<lambda>((items, nodes'), r3). Ok ((NbtList elem_tag items, nodes'), r3))))"
  "read_payload (Suc k) 10 nodes r =
     and_then (read_entries (read_payload k) (Suc (remaining r)) (Suc nodes) r)
       (\<lambda>((entries, nodes'), r'). Ok ((NbtCompound entries, nodes'), r'))"
  "read_payload (Suc k) 11 nodes r =
     and_then (read_length 4 r) (\<lambda>(len, r1).
     and_then (read_n get_i32 len r1) (\<lambda>(v, r2). Ok ((NbtIntArray v, Suc nodes), r2)))"
  "read_payload (Suc k) 12 nodes r =
     and_then (read_length 8 r) (\<lambda>(len, r1).
     and_then (read_n get_i64 len r1) (\<lambda>(v, r2). Ok ((NbtLongArray v, Suc nodes), r2)))"
  using assms by (simp_all add: Let_def del: read_entries.simps)

declare read_payload.simps(2) [simp del] read_entries.simps(2) [simp del]

lemma read_payload_leaf_enc:
  "reads_back (read_payload (Suc k) 1) (NbtByte b)"
  "reads_back (read_payload (Suc k) 2) (NbtShort s)"
  "reads_back (read_payload (Suc k) 3) (NbtInt i)"
  "reads_back (read_payload (Suc k) 4) (NbtLong l)"
  "reads_back (read_payload (Suc k) 5) (NbtFloat f)"
  "reads_back (read_payload (Suc k) 6) (NbtDouble d)"
  "length_ok bs \<Longrightarrow> reads_back (read_payload (Suc k) 7) (NbtByteArray bs)"
  "string_ok t \<Longrightarrow> reads_back (read_payload (Suc k) 8) (NbtString t)"
  by (simp_all add: reads_back_def read_payload_tag i8.get_enc [simplified] i16.get_enc i32.get_enc
      i64.get_enc f32.get_enc f64.get_enc read_nbt_string_at read_length_at wire_simps)

lemma read_payload_array_enc:
  "length_ok is \<Longrightarrow> reads_back (read_payload (Suc k) 11) (NbtIntArray is)"
  "length_ok ls \<Longrightarrow> reads_back (read_payload (Suc k) 12) (NbtLongArray ls)"
  by (simp_all add: reads_back_def read_payload_tag read_length_at length_concat comp_def sum_list_triv
      list_all_iff i32.read_n_enc i64.read_n_enc)

lemma read_payload_list_enc:
  assumes len: "length_ok items" and tags: "\<forall>v\<in>set items. tag_id v = tag"
    and items: "\<forall>v\<in>set items. reads_back (read_payload k tag) v"
  shows "reads_back (read_payload (Suc k) 9) (NbtList tag items)"
  unfolding reads_back_def
proof (intro allI impI)
  fix nodes pre suf
  assume n: "nodes + nbt_nodes (NbtList tag items) \<le> MAX_NBT_NODES"
  have cnt: "get_i32 (reader_at p (length_enc items @ t)) =
      Ok (word_of_nat (length items), reader_at (p @ length_enc items) t)" for p t
    by (simp add: length_enc_def i32.get_enc)
  have sz: "sint (word_of_nat (length items) :: i32) = int (length items)"
    using len by (intro sint_word_of_nat_len) (simp add: length_ok_def)
  have z: "(word_of_nat (length items) :: i32) = 0 \<longleftrightarrow> items = []"
    using sz by auto
  show "read_payload (Suc k) 9 nodes (reader_at pre (payload_enc (NbtList tag items) @ suf)) =
      Ok ((NbtList tag items, nodes + nbt_nodes (NbtList tag items)),
          reader_at (pre @ payload_enc (NbtList tag items)) suf)"
  proof (cases "items = []")
    case True
    then show ?thesis using n cnt by (simp add: read_payload_tag wire_simps)
  next
    case False
    then have range: "1 \<le> tag \<and> tag \<le> 12" using tags tag_id_range by (cases items) auto
    show ?thesis
      using n False range length_items [of items] read_items_enc [OF items, of "Suc nodes"]
      by (simp add: read_payload_tag wire_simps cnt sz z)
  qed
qed

lemma read_payload_compound_enc:
  assumes "\<forall>(name, v)\<in>set es. string_ok name \<and> reads_back (read_payload k (tag_id v)) v"
  shows "reads_back (read_payload (Suc k) 10) (NbtCompound es)"
  unfolding reads_back_def
proof (intro allI impI)
  fix nodes pre suf
  assume "nodes + nbt_nodes (NbtCompound es) \<le> MAX_NBT_NODES"
  then show "read_payload (Suc k) 10 nodes (reader_at pre (payload_enc (NbtCompound es) @ suf)) =
      Ok ((NbtCompound es, nodes + nbt_nodes (NbtCompound es)), reader_at (pre @ payload_enc (NbtCompound es)) suf)"
    using read_entries_enc [OF assms _ length_payloads, of "Suc nodes" suf pre suf]
    by (simp add: read_payload_tag del: payload_enc.simps)
qed

lemma read_payload_enc: "nbt_wf v \<Longrightarrow> nbt_depth v < levels \<Longrightarrow> reads_back (read_payload levels (tag_id v)) v"
proof (induction v arbitrary: levels)
  case (NbtList tag items)
  then obtain k where k: "levels = Suc k" by (cases levels) auto
  show ?case
    using NbtList unfolding k nbt_depth_list tag_id.simps
    by (intro read_payload_list_enc) (auto simp: list_all_iff)
next
  case (NbtCompound entries)
  then obtain k where k: "levels = Suc k" by (cases levels) auto
  have "string_ok name \<and> reads_back (read_payload k (tag_id v)) v" if e: "(name, v) \<in> set entries" for name v
  proof -
    have "nbt_wf v" "string_ok name" "nbt_depth v < k"
      using e NbtCompound.prems unfolding k nbt_depth_compound by (auto simp: list_all_iff)
    with NbtCompound.IH [OF e, of v k] show ?thesis by simp
  qed
  then show ?case unfolding k tag_id.simps by (intro read_payload_compound_enc) blast
qed (case_tac levels; simp add: read_payload_leaf_enc read_payload_array_enc)+

section \<open>Only these bytes are accepted\<close>

context exact_codec
begin

lemma read_n_exact:
  "read_n get n (reader_at pre suf) = Ok (vs, r') \<Longrightarrow>
   length vs = n \<and> list_all valid vs \<and>
   (\<exists>suf'. suf = concat (map enc vs) @ suf' \<and> r' = reader_at (pre @ concat (map enc vs)) suf')"
proof (induction n arbitrary: pre suf vs)
  case (Suc n)
  from Suc.prems obtain v r1 vs' where
    v: "get (reader_at pre suf) = Ok (v, r1)" and vs': "read_n get n r1 = Ok (vs', r')" "vs = v # vs'" by auto
  from get_exact [OF v] obtain suf1 where
    1: "valid v" "suf = enc v @ suf1" "r1 = reader_at (pre @ enc v) suf1" by blast
  from Suc.IH [OF vs'(1) [unfolded 1(3)]] 1 vs'(2) show ?case by auto
qed auto

end

lemma word_of_nat_sint: "0 \<le> sint (v::i32) \<Longrightarrow> word_of_nat (nat (sint v)) = v"
  by (simp add: of_nat_nat)

lemma sint_i32_less: "nat (sint (v::i32)) < 2 ^ 31"
  using sint_less [of v] by (simp add: nat_less_iff)

lemma read_length_exact:
  assumes "read_length k (reader_at pre suf) = Ok (n, r')"
  shows "n < 2 ^ 31 \<and> (\<exists>suf'. suf = to_be_bytes 4 (word_of_nat n :: i32) @ suf' \<and>
    r' = reader_at (pre @ to_be_bytes 4 (word_of_nat n :: i32)) suf')"
proof -
  from assms obtain len where len: "get_i32 (reader_at pre suf) = Ok (len, r')" "0 \<le> sint len" "n = nat (sint len)"
    by (auto simp: read_length_def Let_def split: if_splits)
  from i32.get_exact [OF len(1)] len(2,3) sint_i32_less [of len] show ?thesis
    by (simp add: word_of_nat_sint)
qed

lemma read_bytes_exact:
  "read_bytes n (reader_at pre suf) = Ok (bs, r') \<Longrightarrow>
   length bs = n \<and> (\<exists>suf'. suf = bs @ suf' \<and> r' = reader_at (pre @ bs) suf')"
  by (rule take_array_exact) (simp only: read_bytes_def take_array_def)

lemma read_nbt_string_exact:
  assumes "read_nbt_string (reader_at pre suf) = Ok (s, r')"
  shows "string_ok s \<and> (\<exists>suf'. suf = string_enc s @ suf' \<and> r' = reader_at (pre @ string_enc s) suf')"
proof -
  from assms obtain len r1 bs where len: "get_u16 (reader_at pre suf) = Ok (len, r1)"
      and bs: "read_bytes (unat len) r1 = Ok (bs, r')" "from_utf8 bs = Some s"
    by (auto simp: read_nbt_string_def split: option.splits)
  from u16.get_exact [OF len] obtain suf1 where
    1: "suf = to_be_bytes 2 len @ suf1" "r1 = reader_at (pre @ to_be_bytes 2 len) suf1" by blast
  from read_bytes_exact [OF bs(1) [unfolded 1(2)]] obtain suf' where
    2: "length bs = unat len" "suf1 = bs @ suf'" "r' = reader_at ((pre @ to_be_bytes 2 len) @ bs) suf'" by blast
  from from_utf8_SomeD [OF bs(2)] have s: "valid_str s" "as_bytes s = bs" by auto
  then have "length s = unat len" using 2(1) by (metis length_as_bytes)
  moreover have "unat len \<le> 65535" using unsigned_less [of len, where 'a = nat] by simp
  ultimately show ?thesis using s 1 2 by (simp add: string_ok_def string_enc_def)
qed

definition node_exact :: "nat \<Rightarrow> u8 \<Rightarrow> nbt node_read \<Rightarrow> bool" where
  "node_exact levels tag rd \<longleftrightarrow> (\<forall>nodes pre suf v nodes' r'.
     rd nodes (reader_at pre suf) = Ok ((v, nodes'), r') \<longrightarrow>
     tag_id v = tag \<and> nbt_wf v \<and> nbt_depth v < levels \<and> nodes' = nodes + nbt_nodes v \<and>
     nodes' \<le> MAX_NBT_NODES \<and>
     (\<exists>suf'. suf = payload_enc v @ suf' \<and> r' = reader_at (pre @ payload_enc v) suf'))"

lemma node_exactE:
  assumes "node_exact levels tag rd" "rd nodes (reader_at pre suf) = Ok ((v, nodes'), r')"
  obtains suf' where "tag_id v = tag" "nbt_wf v" "nbt_depth v < levels" "nodes' = nodes + nbt_nodes v"
    "nodes' \<le> MAX_NBT_NODES" "suf = payload_enc v @ suf'" "r' = reader_at (pre @ payload_enc v) suf'"
  using assms unfolding node_exact_def by blast

lemma read_items_exact:
  assumes rd: "node_exact levels tag rd"
  shows "nodes \<le> MAX_NBT_NODES \<Longrightarrow> read_items rd n nodes (reader_at pre suf) = Ok ((vs, nodes'), r') \<Longrightarrow>
    length vs = n \<and> list_all (\<lambda>v. tag_id v = tag \<and> nbt_wf v \<and> nbt_depth v < levels) vs \<and>
    nodes' = nodes + sum_list (map nbt_nodes vs) \<and> nodes' \<le> MAX_NBT_NODES \<and>
    (\<exists>suf'. suf = concat (map payload_enc vs) @ suf' \<and> r' = reader_at (pre @ concat (map payload_enc vs)) suf')"
proof (induction n arbitrary: nodes pre suf vs)
  case (Suc n)
  from Suc.prems(2) obtain v nodes1 r1 vs' where
    v: "rd nodes (reader_at pre suf) = Ok ((v, nodes1), r1)" and
    vs': "read_items rd n nodes1 r1 = Ok ((vs', nodes'), r')" "vs = v # vs'" by auto
  from rd v show ?case
  proof (rule node_exactE)
    fix suf1
    assume 1: "tag_id v = tag" "nbt_wf v" "nbt_depth v < levels" "nodes1 = nodes + nbt_nodes v"
      "nodes1 \<le> MAX_NBT_NODES" "suf = payload_enc v @ suf1" "r1 = reader_at (pre @ payload_enc v) suf1"
    from Suc.IH [OF 1(5) vs'(1) [unfolded 1(7)]] 1 vs'(2) show ?thesis by auto
  qed
qed auto

lemma read_entries_exact:
  assumes rd: "\<And>tag. node_exact levels tag (rd tag)"
  shows "nodes \<le> MAX_NBT_NODES \<Longrightarrow> read_entries rd n nodes (reader_at pre suf) = Ok ((es, nodes'), r') \<Longrightarrow>
    list_all (\<lambda>(name, v). string_ok name \<and> nbt_wf v \<and> nbt_depth v < levels) es \<and>
    nodes' = nodes + sum_list (map (\<lambda>(_, v). nbt_nodes v) es) \<and> nodes' \<le> MAX_NBT_NODES \<and>
    (\<exists>suf'. suf = payload_enc (NbtCompound es) @ suf' \<and>
      r' = reader_at (pre @ payload_enc (NbtCompound es)) suf')"
proof (induction n arbitrary: nodes pre suf es)
  case (Suc n)
  from Suc.prems(2) obtain tag r1 where tag: "get_u8 (reader_at pre suf) = Ok (tag, r1)"
    by (auto simp: read_entries.simps)
  from u8.get_exact [OF tag] obtain suf1 where 1: "suf = [tag] @ suf1" "r1 = reader_at (pre @ [tag]) suf1" by blast
  show ?case
  proof (cases "tag = 0")
    case True
    then show ?thesis using Suc.prems tag 1 by (auto simp: read_entries.simps)
  next
    case False
    with Suc.prems(2) tag obtain name r2 v nodes1 r3 es' where
      name: "read_nbt_string r1 = Ok (name, r2)" and v: "rd tag nodes r2 = Ok ((v, nodes1), r3)" and
      es': "read_entries rd n nodes1 r3 = Ok ((es', nodes'), r')" "es = (name, v) # es'"
      by (auto simp: read_entries.simps split: if_splits)
    from read_nbt_string_exact [OF name [unfolded 1(2)]] obtain suf2 where
      2: "string_ok name" "suf1 = string_enc name @ suf2" "r2 = reader_at ((pre @ [tag]) @ string_enc name) suf2"
      by blast
    from rd v [unfolded 2(3)] show ?thesis
    proof (rule node_exactE)
      fix suf3
      assume 3: "tag_id v = tag" "nbt_wf v" "nbt_depth v < levels" "nodes1 = nodes + nbt_nodes v"
        "nodes1 \<le> MAX_NBT_NODES" "suf2 = payload_enc v @ suf3"
        "r3 = reader_at (((pre @ [tag]) @ string_enc name) @ payload_enc v) suf3"
      from Suc.IH [OF 3(5) es'(1) [unfolded 3(7)]] 1 2 3 es'(2) show ?thesis by auto
    qed
  qed
qed simp

lemma read_payload_nodes: "read_payload (Suc k) tag nodes r = Ok x \<Longrightarrow> nodes < MAX_NBT_NODES"
  by (cases "nodes < MAX_NBT_NODES") (simp_all add: read_payload.simps(2))

lemma read_payload_bad_tag:
  "tag \<notin> {1, 2, 3, 4, 5, 6, 7, 8, 9, 10, 11, 12} \<Longrightarrow> read_payload (Suc k) tag nodes r = Err InvalidNbt"
  by (simp add: read_payload.simps(2))

lemma node_exactI:
  assumes "\<And>nodes pre suf v nodes' r'. nodes < MAX_NBT_NODES \<Longrightarrow>
    read_payload (Suc k) tag nodes (reader_at pre suf) = Ok ((v, nodes'), r') \<Longrightarrow>
    tag_id v = tag \<and> nbt_wf v \<and> nbt_depth v < Suc k \<and> nodes' = nodes + nbt_nodes v \<and>
     nodes' \<le> MAX_NBT_NODES \<and>
     (\<exists>suf'. suf = payload_enc v @ suf' \<and> r' = reader_at (pre @ payload_enc v) suf')"
  shows "node_exact (Suc k) tag (read_payload (Suc k) tag)"
  unfolding node_exact_def using assms read_payload_nodes by blast

lemma read_payload_leaf_exact:
  "node_exact (Suc k) 1 (read_payload (Suc k) 1)"
  "node_exact (Suc k) 2 (read_payload (Suc k) 2)"
  "node_exact (Suc k) 3 (read_payload (Suc k) 3)"
  "node_exact (Suc k) 4 (read_payload (Suc k) 4)"
  "node_exact (Suc k) 5 (read_payload (Suc k) 5)"
  "node_exact (Suc k) 6 (read_payload (Suc k) 6)"
  "node_exact (Suc k) 8 (read_payload (Suc k) 8)"
  by (rule node_exactI, auto simp: read_payload_tag dest!: i8.get_exact i16.get_exact i32.get_exact
      i64.get_exact f32.get_exact f64.get_exact read_nbt_string_exact)+

lemma read_payload_array_exact:
  "node_exact (Suc k) 7 (read_payload (Suc k) 7)"
  "node_exact (Suc k) 11 (read_payload (Suc k) 11)"
  "node_exact (Suc k) 12 (read_payload (Suc k) 12)"
  by (rule node_exactI, auto simp: read_payload_tag length_ok_def length_enc_def
      dest!: read_length_exact read_bytes_exact i32.read_n_exact i64.read_n_exact)+

lemma read_payload_list_exact:
  assumes "\<And>tag. node_exact k tag (read_payload k tag)"
  shows "node_exact (Suc k) 9 (read_payload (Suc k) 9)"
proof (rule node_exactI)
  fix nodes pre suf v nodes' r'
  assume n: "nodes < MAX_NBT_NODES"
    and rd: "read_payload (Suc k) 9 nodes (reader_at pre suf) = Ok ((v, nodes'), r')"
  from rd obtain tag r1 count r2 where
    tag: "get_u8 (reader_at pre suf) = Ok (tag, r1)" and count: "get_i32 r1 = Ok (count, r2)" "0 \<le> sint count"
    by (auto simp: read_payload_tag [OF n] split: if_splits)
  from u8.get_exact [OF tag] obtain suf1 where 1: "suf = [tag] @ suf1" "r1 = reader_at (pre @ [tag]) suf1" by blast
  from i32.get_exact [OF count(1) [unfolded 1(2)]] obtain suf2 where
    2: "suf1 = to_be_bytes 4 count @ suf2" "r2 = reader_at ((pre @ [tag]) @ to_be_bytes 4 count) suf2" by blast
  show "tag_id v = 9 \<and> nbt_wf v \<and> nbt_depth v < Suc k \<and> nodes' = nodes + nbt_nodes v \<and> nodes' \<le> MAX_NBT_NODES \<and>
     (\<exists>suf'. suf = payload_enc v @ suf' \<and> r' = reader_at (pre @ payload_enc v) suf')"
  proof (cases "count = 0")
    case True
    with rd tag count n 1 2 show ?thesis
      by (auto simp: read_payload_tag length_enc_def length_ok_def)
  next
    case False
    with rd tag count n obtain items where
      v: "read_items (read_payload k tag) (nat (sint count)) (Suc nodes) r2 = Ok ((items, nodes'), r')"
        "v = NbtList tag items"
      by (auto simp: read_payload_tag split: if_splits)
    from read_items_exact [OF assms _ v(1) [unfolded 2(2)]] n obtain suf3 where
      3: "length items = nat (sint count)"
        "list_all (\<lambda>v. tag_id v = tag \<and> nbt_wf v \<and> nbt_depth v < k) items"
        "nodes' = Suc nodes + sum_list (map nbt_nodes items)" "nodes' \<le> MAX_NBT_NODES"
        "suf2 = concat (map payload_enc items) @ suf3"
        "r' = reader_at (((pre @ [tag]) @ to_be_bytes 4 count) @ concat (map payload_enc items)) suf3"
      by auto
    have "length_ok items" "length_enc items = to_be_bytes 4 count"
      using 3(1) count(2) sint_i32_less [of count] by (simp_all add: length_ok_def length_enc_def word_of_nat_sint)
    with 1 2 3 v(2) show ?thesis
      by (auto simp: list_all_iff nbt_depth_list simp del: nbt_depth.simps)
  qed
qed

lemma read_payload_compound_exact:
  assumes "\<And>tag. node_exact k tag (read_payload k tag)"
  shows "node_exact (Suc k) 10 (read_payload (Suc k) 10)"
proof (rule node_exactI)
  fix nodes pre suf v nodes' r'
  assume n: "nodes < MAX_NBT_NODES"
    and rd: "read_payload (Suc k) 10 nodes (reader_at pre suf) = Ok ((v, nodes'), r')"
  from rd obtain es where
    v: "read_entries (read_payload k) (Suc (length suf)) (Suc nodes) (reader_at pre suf) = Ok ((es, nodes'), r')"
      "v = NbtCompound es"
    by (auto simp: read_payload_tag [OF n])
  from read_entries_exact [OF assms _ v(1)] n v(2)
  show "tag_id v = 10 \<and> nbt_wf v \<and> nbt_depth v < Suc k \<and> nodes' = nodes + nbt_nodes v \<and> nodes' \<le> MAX_NBT_NODES \<and>
     (\<exists>suf'. suf = payload_enc v @ suf' \<and> r' = reader_at (pre @ payload_enc v) suf')"
    unfolding v(2) nbt_depth_compound by (auto simp: list_all_iff)
qed

lemma read_payload_exact: "node_exact levels tag (read_payload levels tag)"
proof (induction levels arbitrary: tag)
  case 0
  show ?case by (simp add: node_exact_def)
next
  case (Suc k)
  show ?case
  proof (cases "tag \<in> {1, 2, 3, 4, 5, 6, 7, 8, 9, 10, 11, 12}")
    case True
    with read_payload_leaf_exact [of k] read_payload_array_exact [of k] read_payload_list_exact [OF Suc]
      read_payload_compound_exact [OF Suc] show ?thesis by blast
  next
    case False
    with read_payload_bad_tag show ?thesis by (simp add: node_exact_def)
  qed
qed

section \<open>The codec\<close>

lemma decode_nbt_enc:
  assumes "nbt_ok v"
  shows "decode_nbt (reader_at pre (nbt_enc v @ suf)) = Ok (v, reader_at (pre @ nbt_enc v) suf)"
  using assms read_payload_enc [of v "Suc MAX_NBT_DEPTH"]
  by (simp add: nbt_ok_def decode_nbt_def nbt_enc_def wire_simps reads_back_def)

lemma decode_nbt_exact:
  assumes "decode_nbt (reader_at pre suf) = Ok (v, r')"
  shows "nbt_ok v \<and> (\<exists>suf'. suf = nbt_enc v @ suf' \<and> r' = reader_at (pre @ nbt_enc v) suf')"
proof -
  from assms obtain tag r1 nodes where tag: "get_u8 (reader_at pre suf) = Ok (tag, r1)"
      and v: "read_payload (Suc MAX_NBT_DEPTH) tag 0 r1 = Ok ((v, nodes), r')"
    by (auto simp: decode_nbt_def split: if_splits)
  from u8.get_exact [OF tag] obtain suf1 where 1: "suf = [tag] @ suf1" "r1 = reader_at (pre @ [tag]) suf1" by blast
  from read_payload_exact v [unfolded 1(2)] show ?thesis
    by (rule node_exactE) (auto simp: 1 nbt_ok_def nbt_enc_def)
qed

text \<open>The writer of values that have an encoding, as the codec interface wants it.\<close>

definition put_nbt :: "packet_writer \<Rightarrow> nbt \<Rightarrow> packet_writer" where
  "put_nbt w v = (case encode_nbt w v of Ok w' \<Rightarrow> w' | Err _ \<Rightarrow> w)"

interpretation nbt: exact_codec put_nbt decode_nbt nbt_enc nbt_ok
proof
  fix v w
  show "nbt_ok v \<Longrightarrow> wr_buf (put_nbt w v) = wr_buf w @ nbt_enc v"
    using encode_nbt_enc [of v w] by (auto simp: put_nbt_def nbt_ok_def)
  show "nbt_enc v \<noteq> []" by (simp add: nbt_enc_def)
qed (auto simp: decode_nbt_enc dest: decode_nbt_exact)

section \<open>The fuel of the compound loop\<close>

lemma entry_cong:
  assumes "\<And>name r2 v nodes1 r3. read_nbt_string r1 = Ok (name, r2) \<Longrightarrow> rd nodes r2 = Ok ((v, nodes1), r3) \<Longrightarrow>
    f nodes1 r3 = g nodes1 r3"
  shows "and_then (read_nbt_string r1) (\<lambda>(name, r2).
      and_then (rd nodes r2) (\<lambda>((v, nodes1), r3). and_then (f nodes1 r3) (h name v))) =
    and_then (read_nbt_string r1) (\<lambda>(name, r2).
      and_then (rd nodes r2) (\<lambda>((v, nodes1), r3). and_then (g nodes1 r3) (h name v)))"
proof (cases "read_nbt_string r1")
  case (Inr x)
  obtain name r2 where x: "x = (name, r2)" by fastforce
  show ?thesis
  proof (cases "rd nodes r2")
    case (Inr y)
    obtain v nodes1 r3 where y: "y = ((v, nodes1), r3)" by (metis surj_pair)
    have "f nodes1 r3 = g nodes1 r3" using assms \<open>read_nbt_string r1 = Ok x\<close> Inr x y by blast
    with \<open>read_nbt_string r1 = Ok x\<close> Inr x y show ?thesis by simp
  qed (simp add: Inr x)
qed simp

lemma read_entries_fuel:
  "length suf < n \<Longrightarrow> length suf < m \<Longrightarrow>
   read_entries (read_payload k) n nodes (reader_at pre suf) = read_entries (read_payload k) m nodes (reader_at pre suf)"
proof (induction n arbitrary: m nodes pre suf)
  case (Suc n)
  then obtain m' where m: "m = Suc m'" by (cases m) auto
  show ?case
  proof (cases suf)
    case Nil
    then show ?thesis by (simp add: m read_entries.simps wire_simps)
  next
    case (Cons tag suf1)
    have u: "get_u8 (reader_at pre suf) = Ok (tag, reader_at (pre @ [tag]) suf1)"
      by (simp add: Cons wire_simps)
    have "read_entries (read_payload k) n nodes1 r3 = read_entries (read_payload k) m' nodes1 r3"
      if name: "read_nbt_string (reader_at (pre @ [tag]) suf1) = Ok (name, r2)"
        and v: "read_payload k tag nodes r2 = Ok ((v, nodes1), r3)" for name r2 v nodes1 r3
    proof -
      from read_nbt_string_exact [OF name] obtain suf2 p2 where
        2: "suf1 = string_enc name @ suf2" "r2 = reader_at p2 suf2" by blast
      from read_payload_exact v [unfolded 2(2)] show ?thesis
      proof (rule node_exactE)
        fix suf3
        assume 3: "suf2 = payload_enc v @ suf3" "r3 = reader_at (p2 @ payload_enc v) suf3"
        then have "length suf3 < n" "length suf3 < m'" using Suc.prems 2(1) Cons m by auto
        with Suc.IH 3(2) show ?thesis by blast
      qed
    qed
    note step = this
    show ?thesis
      unfolding m read_entries.simps(2) u and_then_Ok prod.case
      by (intro if_cong refl) (rule entry_cong, erule step, assumption)
  qed
qed simp

text \<open>The loop as the code has it, without fuel.\<close>

lemma read_entries_loop:
  "read_entries (read_payload k) (Suc (length suf)) nodes (reader_at pre suf) =
     and_then (get_u8 (reader_at pre suf)) (\<lambda>(tag, r1).
       if tag = 0 then Ok (([], nodes), r1)
       else if \<not> (1 \<le> tag \<and> tag \<le> 12) then Err InvalidNbt
       else and_then (read_nbt_string r1) (\<lambda>(name, r2).
         and_then (read_payload k tag nodes r2) (\<lambda>((v, nodes1), r3).
         and_then (read_entries (read_payload k) (Suc (remaining r3)) nodes1 r3) (\<lambda>((es, nodes2), r4).
           Ok (((name, v) # es, nodes2), r4)))))"
proof (cases suf)
  case Nil
  then show ?thesis by (simp add: read_entries.simps wire_simps)
next
  case (Cons tag suf1)
  have u: "get_u8 (reader_at pre suf) = Ok (tag, reader_at (pre @ [tag]) suf1)"
    by (simp add: Cons wire_simps)
  have "read_entries (read_payload k) (length suf) nodes1 r3 =
      read_entries (read_payload k) (Suc (remaining r3)) nodes1 r3"
    if name: "read_nbt_string (reader_at (pre @ [tag]) suf1) = Ok (name, r2)"
      and v: "read_payload k tag nodes r2 = Ok ((v, nodes1), r3)" for name r2 v nodes1 r3
  proof -
    from read_nbt_string_exact [OF name] obtain suf2 p2 where
      2: "suf1 = string_enc name @ suf2" "r2 = reader_at p2 suf2" by blast
    from read_payload_exact v [unfolded 2(2)] show ?thesis
    proof (rule node_exactE)
      fix suf3
      assume 3: "suf2 = payload_enc v @ suf3" "r3 = reader_at (p2 @ payload_enc v) suf3"
      then have "length suf3 < length suf" using 2(1) Cons by auto
      then show ?thesis unfolding 3(2) reader_at_obs by (rule read_entries_fuel) simp
    qed
  qed
  note step = this
  show ?thesis
    unfolding read_entries.simps(2) [of _ "length suf"] u and_then_Ok prod.case
    by (intro if_cong refl) (rule entry_cong, erule step, assumption)
qed

section \<open>Properties\<close>

text \<open>
  C28: an NBT value whose strings and lengths fit, whose lists are homogeneous and which is within
  the depth and node limits is written, and reads back unchanged with the cursor right behind
  it; an optional value, present or absent, does as well.
\<close>

theorem nbt_roundtrip:
  assumes "nbt_ok v"
  shows "(\<exists>w. encode_nbt new_writer v = Ok w \<and>
      decode_nbt (reader_at pre (wr_buf w @ suf)) = Ok (v, reader_at (pre @ wr_buf w) suf) \<and>
      write_optional new_writer (Some v) = Ok w \<and>
      read_optional (reader_at pre (wr_buf w @ suf)) = Ok (Some v, reader_at (pre @ wr_buf w) suf)) \<and>
    (\<exists>w. write_optional new_writer None = Ok w \<and>
      read_optional (reader_at pre (wr_buf w @ suf)) = Ok (None, reader_at (pre @ wr_buf w) suf))"
proof
  obtain w where w: "encode_nbt new_writer v = Ok w" "wr_buf w = nbt_enc v"
    using encode_nbt_enc [of v new_writer] assms by (auto simp: nbt_ok_def new_writer_def)
  have "rest (reader_at pre (nbt_enc v @ suf)) = tag_id v # payload_enc v @ suf" by (simp add: nbt_enc_def)
  with w nbt.get_enc [OF assms, of pre suf]
  show "\<exists>w. encode_nbt new_writer v = Ok w \<and>
      decode_nbt (reader_at pre (wr_buf w @ suf)) = Ok (v, reader_at (pre @ wr_buf w) suf) \<and>
      write_optional new_writer (Some v) = Ok w \<and>
      read_optional (reader_at pre (wr_buf w @ suf)) = Ok (Some v, reader_at (pre @ wr_buf w) suf)"
    by (simp add: write_optional_def read_optional_def)
  show "\<exists>w. write_optional new_writer None = Ok w \<and>
      read_optional (reader_at pre (wr_buf w @ suf)) = Ok (None, reader_at (pre @ wr_buf w) suf)"
    by (simp add: write_optional_def read_optional_def u8.put_enc new_writer_def wire_simps)
qed

definition sample_nbt :: nbt where
  "sample_nbt = NbtCompound [(''a'', NbtList 3 [NbtInt 5, NbtInt 6]), (''b'', NbtString ''hi'')]"

theorem nbt_roundtrip_witness:
  "nbt_ok sample_nbt \<and>
   (\<exists>w. encode_nbt new_writer sample_nbt = Ok w \<and>
      decode_nbt (reader_at [] (wr_buf w @ [7])) = Ok (sample_nbt, reader_at ([] @ wr_buf w) [7]))"
proof -
  have ok: "nbt_ok sample_nbt" by code_simp
  show ?thesis using nbt_roundtrip [OF ok, of "[]" "[7]"] ok by blast
qed

text \<open>
  C29: whatever bytes arrive, a value that is decoded is at most 64 levels deep and has at most a
  million tags, and writing it gives exactly the bytes that were consumed: every value has one
  encoding only.
\<close>

theorem nbt_decode_canonical:
  assumes "decode_nbt (reader_at pre suf) = Ok (v, r')"
  shows "nbt_depth v \<le> MAX_NBT_DEPTH \<and> nbt_nodes v \<le> MAX_NBT_NODES \<and>
    (\<exists>w suf'. encode_nbt new_writer v = Ok w \<and> suf = wr_buf w @ suf' \<and> r' = reader_at (pre @ wr_buf w) suf')"
  using nbt.get_exact [OF assms] encode_nbt_enc [of v new_writer] by (auto simp: nbt_ok_def new_writer_def)

theorem nbt_decode_canonical_witness:
  "decode_nbt (reader_at [] [9, 1, 0, 0, 0, 1, 5, 42]) =
     Ok (NbtList 1 [NbtByte 5], reader_at [9, 1, 0, 0, 0, 1, 5] [42]) \<and>
   nbt_depth (NbtList 1 [NbtByte 5]) \<le> MAX_NBT_DEPTH"
proof -
  have d: "decode_nbt (reader_at [] [9, 1, 0, 0, 0, 1, 5, 42]) =
     Ok (NbtList 1 [NbtByte 5], reader_at [9, 1, 0, 0, 0, 1, 5] [42])" by code_simp
  show ?thesis using nbt_decode_canonical [OF d] d by blast
qed

end
