(* ===== verification/Lua_Queue.thy ===== *)
theory Lua_Queue
  imports Prelude "HOL-Library.AList" "HOL-Library.Multiset"
begin

text \<open>
  The bounded queues between the supervisors and the Lua workers (src/src/lua/queue.rs): the
  plain FIFO, the three-lane priority queue and the \<open>QueueDesign\<close> that hides which one is used.
  The \<open>QueueItem\<close> trait of the item type is two functions, its priority and its name.
  A \<open>HashMap\<close> is an association list with distinct keys, an \<open>Instant\<close> a natural number.

  The contract of a queue is the locale \<open>event_queue\<close>: its abstract state is the list of items
  pushed since the last drain, and \<open>deliver\<close> says what a drain makes of them. It is interpreted
  on the FIFO, on the priority queue and on the queue design.
\<close>

section \<open>Data\<close>

datatype priority = High | Coalescible | Low

record 'e envelope =
  env_bot_id :: u32
  env_event :: 'e
  env_enqueued_at :: nat
  env_bot_seq :: u64

datatype push_outcome =
  Accepted | DroppedOldest | DroppedNewest | Coalesced | CriticalOverflow | Closed

datatype overflow_policy = DropOldest | DropNewest

record queue_stats =
  qs_peak_depth :: nat
  qs_dropped :: u64
  qs_coalesced :: u64
  qs_accepted :: u64

definition default_stats :: queue_stats where
  "default_stats = \<lparr>qs_peak_depth = 0, qs_dropped = 0, qs_coalesced = 0, qs_accepted = 0\<rparr>"

text \<open>The counter updates every push ends with.\<close>

definition count_dropped :: "queue_stats \<Rightarrow> queue_stats" where
  "count_dropped s = s\<lparr>qs_dropped := qs_dropped s + 1\<rparr>"

definition count_accepted :: "queue_stats \<Rightarrow> queue_stats" where
  "count_accepted s = s\<lparr>qs_accepted := qs_accepted s + 1\<rparr>"

definition count_coalesced :: "queue_stats \<Rightarrow> queue_stats" where
  "count_coalesced s = s\<lparr>qs_coalesced := qs_coalesced s + 1\<rparr>"

definition note_depth :: "nat \<Rightarrow> queue_stats \<Rightarrow> queue_stats" where
  "note_depth n s = s\<lparr>qs_peak_depth := max (qs_peak_depth s) n\<rparr>"

section \<open>The FIFO queue\<close>

record 'e fifo_queue =
  ff_capacity :: nat
  ff_policy :: overflow_policy
  ff_items :: "'e envelope list"
  ff_stats :: queue_stats

definition fifo_new :: "nat \<Rightarrow> overflow_policy \<Rightarrow> 'e fifo_queue" where
  "fifo_new capacity policy =
     \<lparr>ff_capacity = capacity, ff_policy = policy, ff_items = [], ff_stats = default_stats\<rparr>"

definition fifo_push :: "'e fifo_queue \<Rightarrow> 'e envelope \<Rightarrow> push_outcome \<times> 'e fifo_queue" where
  "fifo_push q e =
     (if length (ff_items q) \<ge> ff_capacity q then
        (case ff_policy q of
           DropOldest \<Rightarrow>
             (let items = tl (ff_items q) @ [e] in
              (DroppedOldest,
               q\<lparr>ff_items := items, ff_stats := note_depth (length items) (count_dropped (ff_stats q))\<rparr>))
         | DropNewest \<Rightarrow> (DroppedNewest, q\<lparr>ff_stats := count_dropped (ff_stats q)\<rparr>))
      else
        (let items = ff_items q @ [e] in
         (Accepted,
          q\<lparr>ff_items := items, ff_stats := note_depth (length items) (count_accepted (ff_stats q))\<rparr>)))"

definition fifo_pop :: "'e fifo_queue \<Rightarrow> 'e envelope option \<times> 'e fifo_queue" where
  "fifo_pop q = (case ff_items q of [] \<Rightarrow> (None, q) | e # es \<Rightarrow> (Some e, q\<lparr>ff_items := es\<rparr>))"

definition fifo_drain_ready :: "'e fifo_queue \<Rightarrow> 'e envelope list \<times> 'e fifo_queue" where
  "fifo_drain_ready q = (ff_items q, q\<lparr>ff_items := []\<rparr>)"

definition fifo_depth :: "'e fifo_queue \<Rightarrow> nat" where
  "fifo_depth q = length (ff_items q)"

section \<open>The priority queue\<close>

type_synonym coalesce_key = "u32 \<times> string"

record 'e priority_queue =
  pq_high :: "'e envelope list"
  pq_high_capacity :: nat
  pq_coalesced :: "(coalesce_key \<times> 'e envelope) list"
  pq_coalesce_order :: "coalesce_key list"
  pq_low :: "'e envelope list"
  pq_low_capacity :: nat
  pq_stats_high :: queue_stats
  pq_stats_coalesced :: queue_stats
  pq_stats_low :: queue_stats

definition pq_new :: "nat \<Rightarrow> nat \<Rightarrow> 'e priority_queue" where
  "pq_new high_capacity low_capacity =
     \<lparr>pq_high = [], pq_high_capacity = high_capacity, pq_coalesced = [], pq_coalesce_order = [],
      pq_low = [], pq_low_capacity = low_capacity, pq_stats_high = default_stats,
      pq_stats_coalesced = default_stats, pq_stats_low = default_stats\<rparr>"

definition key_of :: "('e \<Rightarrow> string) \<Rightarrow> 'e envelope \<Rightarrow> coalesce_key" where
  "key_of nm e = (env_bot_id e, nm (env_event e))"

definition pq_push ::
  "('e \<Rightarrow> priority) \<Rightarrow> ('e \<Rightarrow> string) \<Rightarrow> 'e priority_queue \<Rightarrow> 'e envelope \<Rightarrow>
   push_outcome \<times> 'e priority_queue" where
  "pq_push pri nm q e =
     (case pri (env_event e) of
        High \<Rightarrow>
          if length (pq_high q) \<ge> pq_high_capacity q then
            (CriticalOverflow, q\<lparr>pq_stats_high := count_dropped (pq_stats_high q)\<rparr>)
          else
            (let high = pq_high q @ [e] in
             (Accepted,
              q\<lparr>pq_high := high, pq_stats_high := note_depth (length high) (count_accepted (pq_stats_high q))\<rparr>))
      | Coalescible \<Rightarrow>
          (let key = key_of nm e;
               replaced = (map_of (pq_coalesced q) key \<noteq> None);
               m = AList.update key e (pq_coalesced q);
               order = (if replaced then pq_coalesce_order q else pq_coalesce_order q @ [key]);
               stats = (if replaced then count_coalesced (pq_stats_coalesced q)
                        else count_accepted (pq_stats_coalesced q)) in
           (if replaced then Coalesced else Accepted,
            q\<lparr>pq_coalesced := m, pq_coalesce_order := order, pq_stats_coalesced := note_depth (length m) stats\<rparr>))
      | Low \<Rightarrow>
          if length (pq_low q) \<ge> pq_low_capacity q then
            (let low = tl (pq_low q) @ [e] in
             (DroppedOldest,
              q\<lparr>pq_low := low, pq_stats_low := note_depth (length low) (count_dropped (pq_stats_low q))\<rparr>))
          else
            (let low = pq_low q @ [e] in
             (Accepted,
              q\<lparr>pq_low := low, pq_stats_low := note_depth (length low) (count_accepted (pq_stats_low q))\<rparr>)))"

text \<open>The loop of \<open>drain_ready\<close> over the coalescing order.\<close>

fun drain_coalesced ::
  "coalesce_key list \<Rightarrow> (coalesce_key \<times> 'e envelope) list \<Rightarrow>
   'e envelope list \<times> (coalesce_key \<times> 'e envelope) list" where
  "drain_coalesced [] m = ([], m)"
| "drain_coalesced (key # order) m =
     (case map_of m key of
        Some e \<Rightarrow> (let (out, m') = drain_coalesced order (AList.delete key m) in (e # out, m'))
      | None \<Rightarrow> drain_coalesced order m)"

definition pq_drain_ready :: "'e priority_queue \<Rightarrow> 'e envelope list \<times> 'e priority_queue" where
  "pq_drain_ready q =
     (let (latest, m) = drain_coalesced (pq_coalesce_order q) (pq_coalesced q) in
      (pq_high q @ latest @ pq_low q,
       q\<lparr>pq_high := [], pq_coalesced := m, pq_coalesce_order := [], pq_low := []\<rparr>))"

definition pq_depth :: "'e priority_queue \<Rightarrow> nat" where
  "pq_depth q = length (pq_high q) + length (pq_coalesced q) + length (pq_low q)"

definition pq_stats :: "'e priority_queue \<Rightarrow> queue_stats \<times> queue_stats \<times> queue_stats" where
  "pq_stats q = (pq_stats_high q, pq_stats_coalesced q, pq_stats_low q)"

section \<open>The two designs behind one interface\<close>

datatype 'e queue_design = Fifo "'e fifo_queue" | Priority "'e priority_queue"

definition qd_push ::
  "('e \<Rightarrow> priority) \<Rightarrow> ('e \<Rightarrow> string) \<Rightarrow> 'e queue_design \<Rightarrow> 'e envelope \<Rightarrow>
   push_outcome \<times> 'e queue_design" where
  "qd_push pri nm d e =
     (case d of
        Fifo q \<Rightarrow> (let (outcome, q') = fifo_push q e in (outcome, Fifo q'))
      | Priority q \<Rightarrow> (let (outcome, q') = pq_push pri nm q e in (outcome, Priority q')))"

definition qd_drain_ready :: "'e queue_design \<Rightarrow> 'e envelope list \<times> 'e queue_design" where
  "qd_drain_ready d =
     (case d of
        Fifo q \<Rightarrow> (let (out, q') = fifo_drain_ready q in (out, Fifo q'))
      | Priority q \<Rightarrow> (let (out, q') = pq_drain_ready q in (out, Priority q')))"

definition qd_depth :: "'e queue_design \<Rightarrow> nat" where
  "qd_depth d = (case d of Fifo q \<Rightarrow> fifo_depth q | Priority q \<Rightarrow> pq_depth q)"

definition qd_is_empty :: "'e queue_design \<Rightarrow> bool" where
  "qd_is_empty d \<longleftrightarrow> qd_depth d = 0"

definition qd_peak_depth :: "'e queue_design \<Rightarrow> nat" where
  "qd_peak_depth d =
     (case d of
        Fifo q \<Rightarrow> qs_peak_depth (ff_stats q)
      | Priority q \<Rightarrow> (let (high, coalesced, low) = pq_stats q in
          qs_peak_depth high + qs_peak_depth coalesced + qs_peak_depth low))"

definition qd_dropped :: "'e queue_design \<Rightarrow> u64" where
  "qd_dropped d =
     (case d of
        Fifo q \<Rightarrow> qs_dropped (ff_stats q)
      | Priority q \<Rightarrow> (let (high, _, low) = pq_stats q in qs_dropped high + qs_dropped low))"

definition qd_critical_overflow :: "'e queue_design \<Rightarrow> u64" where
  "qd_critical_overflow d =
     (case d of Fifo _ \<Rightarrow> 0 | Priority q \<Rightarrow> qs_dropped (fst (pq_stats q)))"

section \<open>The contract of a queue\<close>

datatype 'e queue_op = Push "'e envelope" | Drain

fun pushed :: "'e queue_op list \<Rightarrow> 'e envelope list" where
  "pushed [] = []"
| "pushed (Push e # ops) = e # pushed ops"
| "pushed (Drain # ops) = pushed ops"

text \<open>A worker's view of its queue: what all drains of a run of operations returned, and the queue.\<close>

fun queue_run ::
  "('q \<Rightarrow> 'e envelope \<Rightarrow> push_outcome \<times> 'q) \<Rightarrow> ('q \<Rightarrow> 'e envelope list \<times> 'q) \<Rightarrow> 'q \<Rightarrow> 'e queue_op list \<Rightarrow>
   'e envelope list \<times> 'q" where
  "queue_run push drain q [] = ([], q)"
| "queue_run push drain q (Push e # ops) = queue_run push drain (snd (push q e)) ops"
| "queue_run push drain q (Drain # ops) =
     (let (out, q1) = drain q; (outs, q2) = queue_run push drain q1 ops in (out @ outs, q2))"

text \<open>
  \<open>holds q es\<close>: the queue is what the pushes \<open>es\<close> since the last drain made of an empty one;
  \<open>deliver c es\<close>: what a queue of configuration \<open>c\<close> hands over for them.
\<close>

locale event_queue =
  fixes push :: "'q \<Rightarrow> 'e envelope \<Rightarrow> push_outcome \<times> 'q"
    and drain :: "'q \<Rightarrow> 'e envelope list \<times> 'q"
    and depth :: "'q \<Rightarrow> nat"
    and cfg :: "'q \<Rightarrow> 'c"
    and deliver :: "'c \<Rightarrow> 'e envelope list \<Rightarrow> 'e envelope list"
    and holds :: "'q \<Rightarrow> 'e envelope list \<Rightarrow> bool"
  assumes push_holds: "holds q es \<Longrightarrow> push q e = (r, q') \<Longrightarrow> holds q' (es @ [e]) \<and> cfg q' = cfg q"
    and drain_holds: "holds q es \<Longrightarrow> drain q = (out, q') \<Longrightarrow>
      out = deliver (cfg q) es \<and> holds q' [] \<and> cfg q' = cfg q"
    and depth_holds: "holds q es \<Longrightarrow> depth q = length (deliver (cfg q) es)"
    and deliver_mset: "mset (deliver c es) \<subseteq># mset es"
begin

lemma deliver_Nil [simp]: "deliver c [] = []"
  using deliver_mset [of c "[]"] by simp

lemma pushes_hold:
  "holds q es \<Longrightarrow> holds (foldl (\<lambda>q e. snd (push q e)) q es') (es @ es') \<and>
     cfg (foldl (\<lambda>q e. snd (push q e)) q es') = cfg q"
proof (induction es' arbitrary: q es)
  case (Cons e es')
  obtain r q' where p: "push q e = (r, q')" by fastforce
  from push_holds [OF Cons.prems p] Cons.IH [of q' "es @ [e]"] p show ?case by simp
qed simp

lemma drain_after_pushes:
  assumes "holds q []"
  shows "fst (drain (foldl (\<lambda>q e. snd (push q e)) q es)) = deliver (cfg q) es"
proof -
  obtain out q' where "drain (foldl (\<lambda>q e. snd (push q e)) q es) = (out, q')" by fastforce
  with drain_holds pushes_hold [OF assms, of es] show ?thesis by fastforce
qed

lemma drain_twice:
  assumes "holds q es" "drain q = (out, q')"
  shows "fst (drain q') = []" "depth q' = 0"
proof -
  from drain_holds [OF assms] have q': "holds q' []" by simp
  obtain out' q'' where d: "drain q' = (out', q'')" by fastforce
  from drain_holds [OF q' d] d show "fst (drain q') = []" by simp
  from depth_holds [OF q'] show "depth q' = 0" by simp
qed

text \<open>Nothing is invented and nothing is delivered twice, however pushes and drains interleave.\<close>

lemma run_delivers:
  "holds q es \<Longrightarrow> queue_run push drain q ops = (out, q') \<Longrightarrow>
   \<exists>es'. holds q' es' \<and> cfg q' = cfg q \<and> mset out + mset es' \<subseteq># mset es + mset (pushed ops)"
proof (induction ops arbitrary: q es out rule: pushed.induct)
  case (2 e ops)
  obtain r q1 where p: "push q e = (r, q1)" by fastforce
  from push_holds [OF "2.prems"(1) p] have "holds q1 (es @ [e])" "cfg q1 = cfg q" by auto
  from "2.IH" [OF this(1)] this(2) p "2.prems"(2) show ?case by auto
next
  case (3 ops)
  obtain o1 q1 where d: "drain q = (o1, q1)" by fastforce
  obtain o2 where r: "queue_run push drain q1 ops = (o2, q')" "out = o1 @ o2"
    using "3.prems"(2) d by (auto split: prod.splits)
  from drain_holds [OF "3.prems"(1) d] have q1: "o1 = deliver (cfg q) es" "holds q1 []" "cfg q1 = cfg q" by auto
  from "3.IH" [OF q1(2) r(1)] obtain es' where
    es': "holds q' es'" "cfg q' = cfg q1" "mset o2 + mset es' \<subseteq># mset (pushed ops)" by auto
  have "mset o1 + (mset o2 + mset es') \<subseteq># mset es + mset (pushed ops)"
    unfolding q1(1) by (rule subset_mset.add_mono [OF deliver_mset es'(3)])
  with es' q1(3) r(2) show ?case by (auto simp: ac_simps)
qed auto

end

section \<open>The FIFO keeps the first or the last items\<close>

definition last_n :: "nat \<Rightarrow> 'a list \<Rightarrow> 'a list" where
  "last_n n xs = drop (length xs - n) xs"

lemma length_last_n [simp]: "length (last_n n xs) = min n (length xs)"
  by (simp add: last_n_def)

lemma last_n_Nil [simp]: "last_n n [] = []"
  by (simp add: last_n_def)

lemma last_n_snoc:
  assumes "0 < n"
  shows "last_n n (xs @ [x]) = (if n \<le> length xs then tl (last_n n xs) @ [x] else last_n n xs @ [x])"
proof (cases "n \<le> length xs")
  case True
  then have "drop (Suc (length xs) - n) xs = tl (drop (length xs - n) xs)"
    by (simp add: Suc_diff_le drop_Suc tl_drop)
  with True assms show ?thesis by (simp add: last_n_def)
qed (simp add: last_n_def)

lemma mset_drop_subset: "mset (drop n xs) \<subseteq># mset xs"
  by (metis append_take_drop_id mset_append mset_subset_eq_add_right)

lemma mset_take_subset: "mset (take n xs) \<subseteq># mset xs"
  by (metis append_take_drop_id mset_append mset_subset_eq_add_left)

lemma last_n_subset: "mset (last_n n xs) \<subseteq># mset xs"
  by (simp add: last_n_def mset_drop_subset)

definition fifo_deliver :: "nat \<times> overflow_policy \<Rightarrow> 'e envelope list \<Rightarrow> 'e envelope list" where
  "fifo_deliver c es =
     (case c of (cap, DropNewest) \<Rightarrow> take cap es | (cap, DropOldest) \<Rightarrow> last_n (max 1 cap) es)"

definition fifo_cfg :: "'e fifo_queue \<Rightarrow> nat \<times> overflow_policy" where
  "fifo_cfg q = (ff_capacity q, ff_policy q)"

definition fifo_holds :: "'e fifo_queue \<Rightarrow> 'e envelope list \<Rightarrow> bool" where
  "fifo_holds q es \<longleftrightarrow> ff_items q = fifo_deliver (fifo_cfg q) es"

lemma fifo_push_holds:
  assumes "fifo_holds q es" "fifo_push q e = (r, q')"
  shows "fifo_holds q' (es @ [e]) \<and> fifo_cfg q' = fifo_cfg q"
proof (cases "ff_policy q")
  case DropOldest
  with assms last_n_snoc [of "max 1 (ff_capacity q)" es e] show ?thesis
    by (cases es) (auto simp: fifo_push_def fifo_holds_def fifo_deliver_def fifo_cfg_def Let_def split: if_splits)
next
  case DropNewest
  with assms show ?thesis
    by (auto simp: fifo_push_def fifo_holds_def fifo_deliver_def fifo_cfg_def Let_def split: if_splits)
qed

interpretation fifo: event_queue fifo_push fifo_drain_ready fifo_depth fifo_cfg fifo_deliver fifo_holds
proof
  fix q q' :: "'a fifo_queue" and es out e r c
  show "fifo_holds q es \<Longrightarrow> fifo_push q e = (r, q') \<Longrightarrow> fifo_holds q' (es @ [e]) \<and> fifo_cfg q' = fifo_cfg q"
    by (rule fifo_push_holds)
  show "fifo_holds q es \<Longrightarrow> fifo_drain_ready q = (out, q') \<Longrightarrow>
      out = fifo_deliver (fifo_cfg q) es \<and> fifo_holds q' [] \<and> fifo_cfg q' = fifo_cfg q"
    by (auto simp: fifo_drain_ready_def fifo_holds_def fifo_cfg_def fifo_deliver_def last_n_def
        split: overflow_policy.splits)
  show "fifo_holds q es \<Longrightarrow> fifo_depth q = length (fifo_deliver (fifo_cfg q) es)"
    by (simp add: fifo_depth_def fifo_holds_def)
  show "mset (fifo_deliver c es) \<subseteq># mset es"
    by (auto simp: fifo_deliver_def last_n_subset mset_take_subset split: prod.splits overflow_policy.splits)
qed

section \<open>The priority queue delivers three lanes\<close>

definition lane :: "('e \<Rightarrow> priority) \<Rightarrow> priority \<Rightarrow> 'e envelope list \<Rightarrow> 'e envelope list" where
  "lane pri p es = filter (\<lambda>e. pri (env_event e) = p) es"

text \<open>The distinct elements in the order of their first occurrence.\<close>

definition first_occurrences :: "'a list \<Rightarrow> 'a list" where
  "first_occurrences xs = rev (remdups (rev xs))"

definition latest :: "('e \<Rightarrow> string) \<Rightarrow> 'e envelope list \<Rightarrow> coalesce_key \<Rightarrow> 'e envelope" where
  "latest nm es k = last (filter (\<lambda>e. key_of nm e = k) es)"

definition latest_per_key :: "('e \<Rightarrow> string) \<Rightarrow> 'e envelope list \<Rightarrow> 'e envelope list" where
  "latest_per_key nm es = map (latest nm es) (first_occurrences (map (key_of nm) es))"

definition pq_deliver ::
  "('e \<Rightarrow> priority) \<Rightarrow> ('e \<Rightarrow> string) \<Rightarrow> nat \<times> nat \<Rightarrow> 'e envelope list \<Rightarrow> 'e envelope list" where
  "pq_deliver pri nm c es =
     take (fst c) (lane pri High es) @ latest_per_key nm (lane pri Coalescible es) @
     last_n (max 1 (snd c)) (lane pri Low es)"

definition pq_cfg :: "'e priority_queue \<Rightarrow> nat \<times> nat" where
  "pq_cfg q = (pq_high_capacity q, pq_low_capacity q)"

definition pq_holds ::
  "('e \<Rightarrow> priority) \<Rightarrow> ('e \<Rightarrow> string) \<Rightarrow> 'e priority_queue \<Rightarrow> 'e envelope list \<Rightarrow> bool" where
  "pq_holds pri nm q es \<longleftrightarrow>
     pq_high q = take (pq_high_capacity q) (lane pri High es) \<and>
     pq_low q = last_n (max 1 (pq_low_capacity q)) (lane pri Low es) \<and>
     pq_coalesce_order q = first_occurrences (map (key_of nm) (lane pri Coalescible es)) \<and>
     distinct (map fst (pq_coalesced q)) \<and>
     map_of (pq_coalesced q) =
       (\<lambda>k. if k \<in> set (map (key_of nm) (lane pri Coalescible es))
            then Some (latest nm (lane pri Coalescible es) k) else None)"

lemma first_occurrences_snoc:
  "first_occurrences (xs @ [x]) = (if x \<in> set xs then first_occurrences xs else first_occurrences xs @ [x])"
  by (simp add: first_occurrences_def)

lemma first_occurrences_set [simp]: "set (first_occurrences xs) = set xs"
  by (simp add: first_occurrences_def)

lemma first_occurrences_distinct [simp]: "distinct (first_occurrences xs)"
  by (simp add: first_occurrences_def)

lemma latest_snoc: "latest nm (es @ [e]) k = (if key_of nm e = k then e else latest nm es k)"
  by (simp add: latest_def)

lemma lane_snoc [simp]:
  "lane pri p (es @ [e]) = (if pri (env_event e) = p then lane pri p es @ [e] else lane pri p es)"
  by (simp add: lane_def)

lemma lane_Nil [simp]: "lane pri p [] = []"
  by (simp add: lane_def)

lemma pq_push_holds:
  assumes "pq_holds pri nm q es" "pq_push pri nm q e = (r, q')"
  shows "pq_holds pri nm q' (es @ [e]) \<and> pq_cfg q' = pq_cfg q"
proof (cases "pri (env_event e)")
  case High
  with assms show ?thesis
    by (auto simp: pq_push_def pq_holds_def pq_cfg_def Let_def split: if_splits)
next
  case Low
  with assms last_n_snoc [of "max 1 (pq_low_capacity q)" "lane pri Low es" e] show ?thesis
    by (cases "lane pri Low es") (auto simp: pq_push_def pq_holds_def pq_cfg_def Let_def split: if_splits)
next
  case Coalescible
  let ?cs = "lane pri Coalescible es" and ?k = "key_of nm e"
  have m: "map_of (pq_coalesced q) = (\<lambda>k. if k \<in> set (map (key_of nm) ?cs) then Some (latest nm ?cs k) else None)"
    using assms(1) by (simp add: pq_holds_def)
  have m': "map_of (AList.update ?k e (pq_coalesced q)) =
      (\<lambda>k. if k \<in> set (map (key_of nm) (?cs @ [e])) then Some (latest nm (?cs @ [e]) k) else None)"
    unfolding update_conv' m by (auto simp: latest_snoc)
  have "(map_of (pq_coalesced q) ?k \<noteq> None) = (?k \<in> set (map (key_of nm) ?cs))" by (simp add: m)
  with assms m' Coalescible show ?thesis
    by (auto simp: pq_push_def pq_holds_def pq_cfg_def Let_def first_occurrences_snoc distinct_update)
qed

lemma drain_coalesced_all:
  assumes "distinct order" "\<forall>k\<in>set order. map_of m k = Some (f k)" "\<forall>k. map_of m k \<noteq> None \<longrightarrow> k \<in> set order"
  shows "drain_coalesced order m = (map f order, [])"
  using assms
proof (induction order arbitrary: m)
  case Nil
  then have "map_of m k = None" for k by (cases k) auto
  then have "map_of m = Map.empty" by (rule ext)
  then show ?case by (simp add: map_of_eq_empty_iff)
next
  case (Cons k order)
  have "drain_coalesced order (AList.delete k m) = (map f order, [])"
    using Cons.prems by (intro Cons.IH) (auto simp: delete_conv')
  with Cons.prems show ?case by simp
qed

lemma pq_coalesced_length:
  assumes "pq_holds pri nm q es"
  shows "length (pq_coalesced q) = length (pq_coalesce_order q)"
proof -
  have "set (map fst (pq_coalesced q)) = set (pq_coalesce_order q)"
    using assms unfolding pq_holds_def by (auto simp flip: dom_map_of_conv_image_fst simp: dom_def split: if_splits)
  moreover have "distinct (map fst (pq_coalesced q))" "distinct (pq_coalesce_order q)"
    using assms by (auto simp: pq_holds_def)
  ultimately show ?thesis by (metis distinct_card length_map)
qed

lemma latest_in: "k \<in> set (map (key_of nm) es) \<Longrightarrow> latest nm es k \<in> set (filter (\<lambda>e. key_of nm e = k) es)"
  unfolding latest_def by (intro last_in_set) (auto simp: filter_empty_conv)

lemma latest_subset:
  "distinct ks \<Longrightarrow> set ks \<subseteq> set (map (key_of nm) es) \<Longrightarrow>
   mset (map (latest nm es) ks) \<subseteq># mset (filter (\<lambda>e. key_of nm e \<in> set ks) es)"
proof (induction ks)
  case (Cons k ks)
  have "{#latest nm es k#} \<subseteq># mset (filter (\<lambda>e. key_of nm e = k) es)"
    using latest_in [of k nm es] Cons.prems by (simp add: mset_subset_eq_single)
  moreover have "mset (map (latest nm es) ks) \<subseteq># mset (filter (\<lambda>e. key_of nm e \<in> set ks) es)"
    using Cons by simp
  ultimately have "{#latest nm es k#} + mset (map (latest nm es) ks) \<subseteq>#
      mset (filter (\<lambda>e. key_of nm e = k) es) + mset (filter (\<lambda>e. key_of nm e \<in> set ks) es)"
    by (rule subset_mset.add_mono)
  also have "\<dots> = mset (filter (\<lambda>e. key_of nm e \<in> set (k # ks)) es)"
    using Cons.prems(1) by (induction es) auto
  finally show ?case by simp
qed simp

lemma latest_per_key_subset: "mset (latest_per_key nm es) \<subseteq># mset es"
proof -
  have "mset (latest_per_key nm es) \<subseteq># mset (filter (\<lambda>e. key_of nm e \<in> set (map (key_of nm) es)) es)"
    unfolding latest_per_key_def
    using latest_subset [of "first_occurrences (map (key_of nm) es)" nm es] by simp
  also have "\<dots> \<subseteq># mset es" by (simp add: multiset_filter_subset)
  finally show ?thesis .
qed

lemma lanes_partition:
  "mset (lane pri High es) + mset (lane pri Coalescible es) + mset (lane pri Low es) = mset es"
proof (induction es)
  case (Cons e es)
  then show ?case by (cases "pri (env_event e)") (auto simp: lane_def)
qed simp

lemma pq_deliver_subset: "mset (pq_deliver pri nm c es) \<subseteq># mset es"
proof -
  have "mset (pq_deliver pri nm c es) \<subseteq>#
      mset (lane pri High es) + mset (lane pri Coalescible es) + mset (lane pri Low es)"
    unfolding pq_deliver_def mset_append add.assoc
    by (intro subset_mset.add_mono mset_take_subset latest_per_key_subset last_n_subset)
  then show ?thesis by (simp add: lanes_partition)
qed

lemma pq_drain_holds:
  assumes "pq_holds pri nm q es" "pq_drain_ready q = (out, q')"
  shows "out = pq_deliver pri nm (pq_cfg q) es \<and> pq_holds pri nm q' [] \<and> pq_cfg q' = pq_cfg q"
proof -
  let ?cs = "lane pri Coalescible es"
  have "drain_coalesced (pq_coalesce_order q) (pq_coalesced q) = (map (latest nm ?cs) (pq_coalesce_order q), [])"
    using assms(1) by (intro drain_coalesced_all) (auto simp: pq_holds_def split: if_splits)
  with assms show ?thesis
    by (auto simp: pq_drain_ready_def pq_holds_def pq_deliver_def pq_cfg_def latest_per_key_def
        first_occurrences_def)
qed

interpretation pq: event_queue "pq_push pri nm" pq_drain_ready pq_depth pq_cfg "pq_deliver pri nm" "pq_holds pri nm"
  for pri nm
proof
  fix q q' :: "'a priority_queue" and es out e r c
  show "pq_holds pri nm q es \<Longrightarrow> pq_push pri nm q e = (r, q') \<Longrightarrow>
      pq_holds pri nm q' (es @ [e]) \<and> pq_cfg q' = pq_cfg q"
    by (rule pq_push_holds)
  show "pq_holds pri nm q es \<Longrightarrow> pq_drain_ready q = (out, q') \<Longrightarrow>
      out = pq_deliver pri nm (pq_cfg q) es \<and> pq_holds pri nm q' [] \<and> pq_cfg q' = pq_cfg q"
    by (rule pq_drain_holds)
  show "pq_depth q = length (pq_deliver pri nm (pq_cfg q) es)" if "pq_holds pri nm q es"
    using that pq_coalesced_length [OF that]
    by (simp add: pq_depth_def pq_deliver_def pq_cfg_def pq_holds_def latest_per_key_def)
  show "mset (pq_deliver pri nm c es) \<subseteq># mset es" by (rule pq_deliver_subset)
qed

lemma pq_new_holds: "pq_holds pri nm (pq_new h l) []"
  by (simp add: pq_holds_def pq_new_def first_occurrences_def)

section \<open>The queue design\<close>

type_synonym design_cfg = "(nat \<times> overflow_policy) + (nat \<times> nat)"

definition qd_cfg :: "'e queue_design \<Rightarrow> design_cfg" where
  "qd_cfg d = (case d of Fifo q \<Rightarrow> Inl (fifo_cfg q) | Priority q \<Rightarrow> Inr (pq_cfg q))"

definition qd_deliver ::
  "('e \<Rightarrow> priority) \<Rightarrow> ('e \<Rightarrow> string) \<Rightarrow> design_cfg \<Rightarrow> 'e envelope list \<Rightarrow> 'e envelope list" where
  "qd_deliver pri nm c es = (case c of Inl f \<Rightarrow> fifo_deliver f es | Inr p \<Rightarrow> pq_deliver pri nm p es)"

definition qd_holds ::
  "('e \<Rightarrow> priority) \<Rightarrow> ('e \<Rightarrow> string) \<Rightarrow> 'e queue_design \<Rightarrow> 'e envelope list \<Rightarrow> bool" where
  "qd_holds pri nm d es = (case d of Fifo q \<Rightarrow> fifo_holds q es | Priority q \<Rightarrow> pq_holds pri nm q es)"

lemmas qd_defs = qd_push_def qd_drain_ready_def qd_depth_def qd_cfg_def qd_deliver_def qd_holds_def

interpretation qd: event_queue "qd_push pri nm" qd_drain_ready qd_depth qd_cfg "qd_deliver pri nm" "qd_holds pri nm"
  for pri nm
proof
  fix d d' :: "'a queue_design" and es out e r c
  show "qd_holds pri nm d es \<Longrightarrow> qd_push pri nm d e = (r, d') \<Longrightarrow>
      qd_holds pri nm d' (es @ [e]) \<and> qd_cfg d' = qd_cfg d"
    by (cases d) (auto simp: qd_defs split: prod.splits dest: fifo.push_holds pq.push_holds)
  show "qd_holds pri nm d es \<Longrightarrow> qd_drain_ready d = (out, d') \<Longrightarrow>
      out = qd_deliver pri nm (qd_cfg d) es \<and> qd_holds pri nm d' [] \<and> qd_cfg d' = qd_cfg d"
    by (cases d) (auto simp: qd_defs split: prod.splits dest: fifo.drain_holds pq.drain_holds)
  show "qd_holds pri nm d es \<Longrightarrow> qd_depth d = length (qd_deliver pri nm (qd_cfg d) es)"
    by (cases d) (auto simp: qd_defs dest: fifo.depth_holds pq.depth_holds)
  show "mset (qd_deliver pri nm c es) \<subseteq># mset es"
    by (auto simp: qd_deliver_def fifo.deliver_mset pq.deliver_mset split: sum.splits)
qed

definition qd_new :: "'e queue_design \<Rightarrow> bool" where
  "qd_new d \<longleftrightarrow> (\<exists>cap pol. d = Fifo (fifo_new cap pol)) \<or> (\<exists>h l. d = Priority (pq_new h l))"

lemma qd_new_holds: "qd_new d \<Longrightarrow> qd_holds pri nm d []"
  by (auto simp: qd_new_def qd_holds_def pq_new_holds fifo_holds_def fifo_new_def fifo_deliver_def
      split: prod.splits overflow_policy.splits)

section \<open>Depth statistics\<close>

definition peaks_ok :: "'e queue_design \<Rightarrow> bool" where
  "peaks_ok d =
     (case d of
        Fifo q \<Rightarrow> length (ff_items q) \<le> qs_peak_depth (ff_stats q)
      | Priority q \<Rightarrow>
          length (pq_high q) \<le> qs_peak_depth (pq_stats_high q) \<and>
          length (pq_coalesced q) \<le> qs_peak_depth (pq_stats_coalesced q) \<and>
          length (pq_low q) \<le> qs_peak_depth (pq_stats_low q))"

definition qd_step :: "('e \<Rightarrow> priority) \<Rightarrow> ('e \<Rightarrow> string) \<Rightarrow> 'e queue_design \<Rightarrow> 'e queue_op \<Rightarrow> 'e queue_design" where
  "qd_step pri nm d op = (case op of Push e \<Rightarrow> snd (qd_push pri nm d e) | Drain \<Rightarrow> snd (qd_drain_ready d))"

text \<open>The depth before every operation of a run, and at its end.\<close>

fun qd_depths :: "('e \<Rightarrow> priority) \<Rightarrow> ('e \<Rightarrow> string) \<Rightarrow> 'e queue_design \<Rightarrow> 'e queue_op list \<Rightarrow> nat list" where
  "qd_depths pri nm d [] = [qd_depth d]"
| "qd_depths pri nm d (op # ops) = qd_depth d # qd_depths pri nm (qd_step pri nm d op) ops"

lemmas stats_defs = count_dropped_def count_accepted_def count_coalesced_def note_depth_def

lemma drain_coalesced_length: "length (snd (drain_coalesced order m)) \<le> length m"
proof (induction order arbitrary: m)
  case (Cons k order)
  have "length (snd (drain_coalesced order (AList.delete k m))) \<le> length m"
    using Cons.IH [of "AList.delete k m"] length_delete_le [of k m] by simp
  with Cons.IH [of m] show ?case by (auto split: option.splits prod.splits)
qed simp

lemma qd_step_peaks:
  assumes "peaks_ok d"
  shows "peaks_ok (qd_step pri nm d op) \<and> qd_peak_depth d \<le> qd_peak_depth (qd_step pri nm d op)"
proof (cases d)
  case (Fifo q)
  with assms show ?thesis
    by (auto simp: qd_step_def qd_push_def qd_drain_ready_def peaks_ok_def qd_peak_depth_def fifo_push_def
        fifo_drain_ready_def stats_defs Let_def split: queue_op.splits overflow_policy.splits)
next
  case (Priority q)
  show ?thesis
  proof (cases op)
    case (Push e)
    with Priority assms show ?thesis
      by (cases "pri (env_event e)")
         (auto simp: qd_step_def qd_push_def peaks_ok_def qd_peak_depth_def pq_push_def pq_stats_def
           stats_defs Let_def)
  next
    case Drain
    obtain out m where dc: "drain_coalesced (pq_coalesce_order q) (pq_coalesced q) = (out, m)" by fastforce
    with drain_coalesced_length [of "pq_coalesce_order q" "pq_coalesced q"] Drain Priority assms
    show ?thesis
      by (auto simp: qd_step_def qd_drain_ready_def peaks_ok_def qd_peak_depth_def pq_drain_ready_def pq_stats_def)
  qed
qed

lemma qd_depth_peak: "peaks_ok d \<Longrightarrow> qd_depth d \<le> qd_peak_depth d"
  by (auto simp: peaks_ok_def qd_depth_def qd_peak_depth_def fifo_depth_def pq_depth_def pq_stats_def
      split: queue_design.splits)

lemma qd_depths_peak:
  "peaks_ok d \<Longrightarrow> n \<in> set (qd_depths pri nm d ops) \<Longrightarrow> n \<le> qd_peak_depth (foldl (qd_step pri nm) d ops)"
proof -
  have mono: "peaks_ok d \<Longrightarrow> qd_peak_depth d \<le> qd_peak_depth (foldl (qd_step pri nm) d ops)" for d ops
    by (induction ops arbitrary: d) (auto dest: qd_step_peaks [where pri = pri and nm = nm] intro: order_trans)
  show "peaks_ok d \<Longrightarrow> n \<in> set (qd_depths pri nm d ops) \<Longrightarrow> n \<le> qd_peak_depth (foldl (qd_step pri nm) d ops)"
  proof (induction ops arbitrary: d)
    case Nil
    then show ?case by (simp add: qd_depth_peak)
  next
    case (Cons op ops)
    from Cons.prems(2) consider "n = qd_depth d" | "n \<in> set (qd_depths pri nm (qd_step pri nm d op) ops)" by auto
    then show ?case
    proof cases
      case 1
      with qd_depth_peak [OF Cons.prems(1)] mono [OF Cons.prems(1), of "op # ops"] show ?thesis by simp
    next
      case 2
      with Cons.IH qd_step_peaks [OF Cons.prems(1)] show ?thesis by simp
    qed
  qed
qed

section \<open>Properties\<close>

text \<open>
  C5: what a worker gets from its queue, in closed form. Draining a priority queue after any
  pushes returns the first \<open>high_capacity\<close> critical items in order, then for every (bot, kind)
  the latest coalescible item, in the order the kinds first appeared, then the last
  \<open>low_capacity\<close> low items (at least one) in order.
\<close>

theorem priority_queue_delivery:
  "fst (pq_drain_ready (foldl (\<lambda>q e. snd (pq_push pri nm q e)) (pq_new h l) es)) =
     take h (lane pri High es) @ latest_per_key nm (lane pri Coalescible es) @
     last_n (max 1 l) (lane pri Low es)"
  using pq.drain_after_pushes [OF pq_new_holds [of pri nm h l], of es]
  by (simp add: pq_deliver_def pq_cfg_def pq_new_def)


definition sample_env :: "u64 \<Rightarrow> priority envelope" where
  "sample_env n = \<lparr>env_bot_id = 1, env_event = Low, env_enqueued_at = 0, env_bot_seq = n\<rparr>"


text \<open>
  \<open>peak_depth\<close> of a new queue is never below the depth the queue ever had, but for the
  priority queue it is the sum of the peaks of its lanes, which a queue that never held more
  than one item can drive to two: it is not the highest combined depth.
\<close>

theorem peak_depth_is_an_upper_bound:
  "(\<forall>d n. qd_new d \<and> n \<in> set (qd_depths pri nm d ops) \<longrightarrow>
      n \<le> qd_peak_depth (foldl (qd_step pri nm) d ops)) \<and>
   (\<exists>d ops. qd_new (d :: priority queue_design) \<and> list_all (\<lambda>n. n \<le> 1) (qd_depths id (\<lambda>_. ''k'') d ops) \<and>
      qd_peak_depth (foldl (qd_step id (\<lambda>_. ''k'')) d ops) = 2)"
proof (intro conjI allI impI exI)
  fix d :: "'a queue_design" and n
  assume n: "qd_new d \<and> n \<in> set (qd_depths pri nm d ops)"
  then have "peaks_ok d" by (auto simp: qd_new_def peaks_ok_def fifo_new_def pq_new_def)
  with n qd_depths_peak show "n \<le> qd_peak_depth (foldl (qd_step pri nm) d ops)" by blast
next
  let ?ops = "[Push \<lparr>env_bot_id = 1, env_event = High, env_enqueued_at = 0, env_bot_seq = 1\<rparr>, Drain, Push (sample_env 2)]"
  show "qd_new (Priority (pq_new 1 1) :: priority queue_design)" by (auto simp: qd_new_def)
  show "list_all (\<lambda>n. n \<le> 1) (qd_depths id (\<lambda>_. ''k'') (Priority (pq_new 1 1)) ?ops)" by code_simp
  show "qd_peak_depth (foldl (qd_step id (\<lambda>_. ''k'')) (Priority (pq_new 1 1)) ?ops) = 2" by code_simp
qed

theorem peak_depth_is_an_upper_bound_witness:
  "qd_new (Fifo (fifo_new 3 DropOldest) :: priority queue_design) \<and>
   1 \<in> set (qd_depths id (\<lambda>_. ''k'') (Fifo (fifo_new 3 DropOldest)) [Push (sample_env 1)]) \<and>
   1 \<le> qd_peak_depth (foldl (qd_step id (\<lambda>_. ''k'')) (Fifo (fifo_new 3 DropOldest)) [Push (sample_env 1)])"
proof -
  have n: "qd_new (Fifo (fifo_new 3 DropOldest) :: priority queue_design)" by (auto simp: qd_new_def)
  have i: "1 \<in> set (qd_depths id (\<lambda>_. ''k'') (Fifo (fifo_new 3 DropOldest)) [Push (sample_env 1)])"
    by code_simp
  show ?thesis
    using n i peak_depth_is_an_upper_bound [of id "\<lambda>_. ''k''" "[Push (sample_env 1)]"] by blast
qed

end
