(* ===== verification/Lua_Dispatch.thy ===== *)
theory Lua_Dispatch
  imports Lua_Queue
begin

text \<open>
  The dispatcher between the supervisors and the Lua workers, src/src/lua/dispatcher.rs with the
  work items of src/src/lua/event.rs: one queue per worker, bots assigned to workers by their
  id, and the bookkeeping for results that could not be delivered.

  \<^item> A \<open>BotEvent\<close> is of any type \<open>'b\<close> and a message payload of any type \<open>'v\<close>; the tables that
    classify bot events (\<open>bot_event_priority\<close>, \<open>bot_event_name\<close>) are arguments, so what is shown
    holds for every classification.
  \<^item> \<open>push\<close> reads the closed flag before it takes the lock of the queue, and takes the locks
    again after an overflow. It is modelled in those steps, so that other threads may run in
    between; \<open>wq_push\<close> is the call without interference.
  \<^item> \<open>wait_for_batch\<close> is one wake-up: it drains, or it times out with nothing.
  \<^item> The clock is read once per call: the notice of an overflow carries the time of the push.
\<close>

section \<open>Work items\<close>

record script_error =
  se_code :: string
  se_retryable :: bool
  se_bot_id :: "u32 option"
  se_generation :: "u64 option"

definition new_script_error :: "string \<Rightarrow> script_error" where
  "new_script_error code = \<lparr>se_code = code, se_retryable = False, se_bot_id = None, se_generation = None\<rparr>"

definition worker_overloaded :: script_error where
  "worker_overloaded = (new_script_error ''worker_overloaded'')\<lparr>se_retryable := True\<rparr>"

definition shutdown_error :: script_error where
  "shutdown_error = new_script_error ''shutdown''"

datatype action_outcome =
    DeliveredSent
  | ActionConfirmed i32
  | ActionCorrected i32
  | ActionError script_error

record action_result =
  ar_request_id :: u64
  ar_bot_id :: u32
  ar_outcome :: action_outcome

datatype ('b, 'v) work_item =
    BotItem 'b
  | ActionResult action_result
  | CallbackCompletion action_result
  | Message string 'v
  | TimerFired u64
  | ScriptError string string
  | ScriptDisabled string
  | WorkerOverloaded

fun item_priority :: "('b \<Rightarrow> priority) \<Rightarrow> ('b, 'v) work_item \<Rightarrow> priority" where
  "item_priority bot_priority (BotItem event) = bot_priority event"
| "item_priority _ (ActionResult _) = High"
| "item_priority _ (CallbackCompletion _) = High"
| "item_priority _ (Message _ _) = Low"
| "item_priority _ (TimerFired _) = Low"
| "item_priority _ (ScriptError _ _) = High"
| "item_priority _ (ScriptDisabled _) = High"
| "item_priority _ WorkerOverloaded = Low"

fun item_name :: "('b \<Rightarrow> string) \<Rightarrow> ('b, 'v) work_item \<Rightarrow> string" where
  "item_name bot_name (BotItem event) = bot_name event"
| "item_name _ (ActionResult _) = ''action_result''"
| "item_name _ (CallbackCompletion _) = ''callback_completion''"
| "item_name _ (Message _ _) = ''message''"
| "item_name _ (TimerFired _) = ''timer''"
| "item_name _ (ScriptError _ _) = ''script_error''"
| "item_name _ (ScriptDisabled _) = ''script_disabled''"
| "item_name _ WorkerOverloaded = ''worker_overload''"

text \<open>The request a pending callback may wait for.\<close>

fun resolvable_request_id :: "('b, 'v) work_item \<Rightarrow> u64 option" where
  "resolvable_request_id (ActionResult r) = Some (ar_request_id r)"
| "resolvable_request_id (CallbackCompletion r) = Some (ar_request_id r)"
| "resolvable_request_id _ = None"

section \<open>The queue of a worker\<close>

record ('b, 'v) worker_queue =
  wq_state :: "('b, 'v) work_item queue_design"
  wq_closed :: bool
  wq_critical_overflow :: u64
  wq_failed_requests :: "(u64 \<times> script_error) list"

definition new_worker_queue :: "('b, 'v) work_item queue_design \<Rightarrow> ('b, 'v) worker_queue" where
  "new_worker_queue design = \<lparr>wq_state = design, wq_closed = False, wq_critical_overflow = 0, wq_failed_requests = []\<rparr>"

definition record_failure :: "u64 option \<Rightarrow> script_error \<Rightarrow> ('b, 'v) worker_queue \<Rightarrow> ('b, 'v) worker_queue" where
  "record_failure request err q = (case request of
     None \<Rightarrow> q
   | Some i \<Rightarrow> q\<lparr>wq_failed_requests := wq_failed_requests q @ [(i, err)]\<rparr>)"

type_synonym ('b, 'v) work = "('b, 'v) work_item envelope"

definition overload_notice :: "nat \<Rightarrow> ('b, 'v) work" where
  "overload_notice now = \<lparr>env_bot_id = 0, env_event = WorkerOverloaded, env_enqueued_at = now, env_bot_seq = 0\<rparr>"

text \<open>
  A push is at one of these places: before the closed flag is read, before the item is
  enqueued, and, after an overflow, before the loss is recorded and before the notice is sent.
  \<open>Inl\<close> is the outcome of the call, \<open>Inr\<close> the next place.
\<close>

datatype push_stage = PushCheck | PushEnqueue | PushLost | PushNotice

fun push_step ::
  "('b \<Rightarrow> priority) \<Rightarrow> ('b \<Rightarrow> string) \<Rightarrow> push_stage \<Rightarrow> ('b, 'v) work \<Rightarrow> ('b, 'v) worker_queue \<Rightarrow>
   (push_outcome + push_stage) \<times> ('b, 'v) worker_queue" where
  "push_step pri nm PushCheck e q =
    (if wq_closed q then (Inl Closed, record_failure (resolvable_request_id (env_event e)) shutdown_error q)
     else (Inr PushEnqueue, q))"
| "push_step pri nm PushEnqueue e q =
    (let (outcome, state) = qd_push (item_priority pri) (item_name nm) (wq_state q) e in
     (if outcome = CriticalOverflow then Inr PushLost else Inl outcome, q\<lparr>wq_state := state\<rparr>))"
| "push_step pri nm PushLost e q =
    (Inr PushNotice, record_failure (resolvable_request_id (env_event e)) worker_overloaded
       (q\<lparr>wq_critical_overflow := wq_critical_overflow q + 1\<rparr>))"
| "push_step pri nm PushNotice e q =
    (Inl CriticalOverflow, q\<lparr>wq_state :=
       snd (qd_push (item_priority pri) (item_name nm) (wq_state q) (overload_notice (env_enqueued_at e)))\<rparr>)"

definition wq_push ::
  "('b \<Rightarrow> priority) \<Rightarrow> ('b \<Rightarrow> string) \<Rightarrow> ('b, 'v) work \<Rightarrow> ('b, 'v) worker_queue \<Rightarrow> push_outcome \<times> ('b, 'v) worker_queue" where
  "wq_push pri nm e q = (case push_step pri nm PushCheck e q of
     (Inl outcome, q1) \<Rightarrow> (outcome, q1)
   | (Inr _, q1) \<Rightarrow> (case push_step pri nm PushEnqueue e q1 of
       (Inl outcome, q2) \<Rightarrow> (outcome, q2)
     | (Inr _, q2) \<Rightarrow>
         (CriticalOverflow, snd (push_step pri nm PushNotice e (snd (push_step pri nm PushLost e q2))))))"

definition take_failed_requests :: "('b, 'v) worker_queue \<Rightarrow> (u64 \<times> script_error) list \<times> ('b, 'v) worker_queue" where
  "take_failed_requests q = (wq_failed_requests q, q\<lparr>wq_failed_requests := []\<rparr>)"

definition wait_for_batch :: "('b, 'v) worker_queue \<Rightarrow> ('b, 'v) work list \<times> ('b, 'v) worker_queue" where
  "wait_for_batch q = (if \<not> qd_is_empty (wq_state q) \<or> wq_closed q
     then (let (batch, state) = qd_drain_ready (wq_state q) in (batch, q\<lparr>wq_state := state\<rparr>))
     else ([], q))"

definition close_queue :: "('b, 'v) worker_queue \<Rightarrow> ('b, 'v) worker_queue" where
  "close_queue q = q\<lparr>wq_closed := True\<rparr>"

section \<open>The dispatcher\<close>

record ('b, 'v) dispatcher =
  dp_queues :: "('b, 'v) worker_queue list"
  dp_next_request_id :: u64
  dp_per_bot_seq :: "(u32 \<times> u64) list"

definition new_dispatcher :: "('b, 'v) worker_queue list \<Rightarrow> ('b, 'v) dispatcher" where
  "new_dispatcher queues = \<lparr>dp_queues = queues, dp_next_request_id = 1, dp_per_bot_seq = []\<rparr>"

definition worker_index_for :: "('b, 'v) dispatcher \<Rightarrow> u32 \<Rightarrow> nat" where
  "worker_index_for d bot_id = unat bot_id mod length (dp_queues d)"

definition bot_seq :: "('b, 'v) dispatcher \<Rightarrow> u32 \<Rightarrow> u64" where
  "bot_seq d bot_id = (case map_of (dp_per_bot_seq d) bot_id of None \<Rightarrow> 0 | Some n \<Rightarrow> n)"

definition next_bot_seq :: "u32 \<Rightarrow> ('b, 'v) dispatcher \<Rightarrow> u64 \<times> ('b, 'v) dispatcher" where
  "next_bot_seq bot_id d = (let n = bot_seq d bot_id + 1 in
     (n, d\<lparr>dp_per_bot_seq := AList.update bot_id n (dp_per_bot_seq d)\<rparr>))"

definition allocate_request_id :: "('b, 'v) dispatcher \<Rightarrow> u64 \<times> ('b, 'v) dispatcher" where
  "allocate_request_id d = (dp_next_request_id d, d\<lparr>dp_next_request_id := dp_next_request_id d + 1\<rparr>)"

text \<open>\<open>None\<close> is the panic of an index that no queue has.\<close>

definition push_to ::
  "('b \<Rightarrow> priority) \<Rightarrow> ('b \<Rightarrow> string) \<Rightarrow> nat \<Rightarrow> ('b, 'v) work \<Rightarrow> ('b, 'v) dispatcher \<Rightarrow>
   (push_outcome \<times> ('b, 'v) dispatcher) option" where
  "push_to pri nm i e d = (if i < length (dp_queues d)
     then (let (outcome, q) = wq_push pri nm e (dp_queues d ! i) in
       Some (outcome, d\<lparr>dp_queues := (dp_queues d)[i := q]\<rparr>))
     else None)"

definition dispatch_bot_event ::
  "('b \<Rightarrow> priority) \<Rightarrow> ('b \<Rightarrow> string) \<Rightarrow> nat \<Rightarrow> u32 \<Rightarrow> 'b \<Rightarrow> ('b, 'v) dispatcher \<Rightarrow>
   (push_outcome \<times> ('b, 'v) dispatcher) option" where
  "dispatch_bot_event pri nm now bot_id event d =
    (let i = worker_index_for d bot_id; (n, d1) = next_bot_seq bot_id d in
     push_to pri nm i \<lparr>env_bot_id = bot_id, env_event = BotItem event, env_enqueued_at = now, env_bot_seq = n\<rparr> d1)"

definition dispatch_timer ::
  "('b \<Rightarrow> priority) \<Rightarrow> ('b \<Rightarrow> string) \<Rightarrow> nat \<Rightarrow> u32 \<Rightarrow> u64 \<Rightarrow> ('b, 'v) dispatcher \<Rightarrow>
   (push_outcome \<times> ('b, 'v) dispatcher) option" where
  "dispatch_timer pri nm now bot_id timer_id d =
    (let i = worker_index_for d bot_id; (n, d1) = next_bot_seq bot_id d in
     push_to pri nm i \<lparr>env_bot_id = bot_id, env_event = TimerFired timer_id, env_enqueued_at = now, env_bot_seq = n\<rparr> d1)"

definition dispatch_action_result ::
  "('b \<Rightarrow> priority) \<Rightarrow> ('b \<Rightarrow> string) \<Rightarrow> nat \<Rightarrow> nat \<Rightarrow> action_result \<Rightarrow> ('b, 'v) dispatcher \<Rightarrow>
   (push_outcome \<times> ('b, 'v) dispatcher) option" where
  "dispatch_action_result pri nm now origin_worker r d =
    (let owner = worker_index_for d (ar_bot_id r);
         e = (\<lambda>item. \<lparr>env_bot_id = ar_bot_id r, env_event = item, env_enqueued_at = now, env_bot_seq = 0\<rparr>) in
     case push_to pri nm owner (e (ActionResult r)) d of
       None \<Rightarrow> None
     | Some (outcome, d1) \<Rightarrow>
         if origin_worker = owner then Some (outcome, d1)
         else push_to pri nm origin_worker (e (CallbackCompletion r)) d1)"

definition broadcast_message ::
  "('b \<Rightarrow> priority) \<Rightarrow> ('b \<Rightarrow> string) \<Rightarrow> nat \<Rightarrow> string \<Rightarrow> 'v \<Rightarrow> ('b, 'v) dispatcher \<Rightarrow> ('b, 'v) dispatcher" where
  "broadcast_message pri nm now topic payload d = d\<lparr>dp_queues :=
     map (\<lambda>q. snd (wq_push pri nm \<lparr>env_bot_id = 0, env_event = Message topic payload, env_enqueued_at = now, env_bot_seq = 0\<rparr> q))
       (dp_queues d)\<rparr>"

definition close_all :: "('b, 'v) dispatcher \<Rightarrow> ('b, 'v) dispatcher" where
  "close_all d = d\<lparr>dp_queues := map close_queue (dp_queues d)\<rparr>"

section \<open>Concurrent pushes to one queue\<close>

text \<open>
  Producers begin pushes and advance them one step at a time, the queue is closed, and the
  worker takes batches and failed requests, in any order. The state keeps what was begun,
  drained and resolved.
\<close>

record ('b, 'v) queue_system =
  qy_queue :: "('b, 'v) worker_queue"
  qy_flight :: "(push_stage \<times> ('b, 'v) work) list"
  qy_begun :: "('b, 'v) work list"
  qy_delivered :: "('b, 'v) work list"
  qy_resolved :: "(u64 \<times> script_error) list"

datatype ('b, 'v) queue_action =
    BeginPush "('b, 'v) work" | AdvancePush nat | CloseQueue | TakeBatch | TakeFailed

definition start_system :: "('b, 'v) worker_queue \<Rightarrow> ('b, 'v) queue_system" where
  "start_system q = \<lparr>qy_queue = q, qy_flight = [], qy_begun = [], qy_delivered = [], qy_resolved = []\<rparr>"

definition advance_push ::
  "('b \<Rightarrow> priority) \<Rightarrow> ('b \<Rightarrow> string) \<Rightarrow> nat \<Rightarrow> ('b, 'v) queue_system \<Rightarrow> ('b, 'v) queue_system" where
  "advance_push pri nm i y = (if i < length (qy_flight y) then
     (let (stage, e) = qy_flight y ! i; others = take i (qy_flight y) @ drop (Suc i) (qy_flight y);
          (r, q) = push_step pri nm stage e (qy_queue y)
      in y\<lparr>qy_queue := q, qy_flight := (case r of Inl _ \<Rightarrow> others | Inr stage' \<Rightarrow> (stage', e) # others)\<rparr>)
   else y)"

fun queue_step ::
  "('b \<Rightarrow> priority) \<Rightarrow> ('b \<Rightarrow> string) \<Rightarrow> ('b, 'v) queue_action \<Rightarrow> ('b, 'v) queue_system \<Rightarrow> ('b, 'v) queue_system" where
  "queue_step pri nm (BeginPush e) y = y\<lparr>qy_flight := (PushCheck, e) # qy_flight y, qy_begun := e # qy_begun y\<rparr>"
| "queue_step pri nm (AdvancePush i) y = advance_push pri nm i y"
| "queue_step pri nm CloseQueue y = y\<lparr>qy_queue := close_queue (qy_queue y)\<rparr>"
| "queue_step pri nm TakeBatch y = (let (batch, q) = wait_for_batch (qy_queue y) in
     y\<lparr>qy_queue := q, qy_delivered := qy_delivered y @ batch\<rparr>)"
| "queue_step pri nm TakeFailed y = (let (failed, q) = take_failed_requests (qy_queue y) in
     y\<lparr>qy_queue := q, qy_resolved := qy_resolved y @ failed\<rparr>)"

section \<open>No request is lost\<close>

definition requests :: "('b, 'v) work list \<Rightarrow> u64 multiset" where
  "requests es = mset (List.map_filter (\<lambda>e. resolvable_request_id (env_event e)) es)"

lemma requests_simps [simp]:
  "requests [] = {#}"
  "requests (e # es) = (case resolvable_request_id (env_event e) of None \<Rightarrow> {#} | Some i \<Rightarrow> {#i#}) + requests es"
  by (simp_all add: requests_def List.map_filter_simps split: option.split)

lemma requests_append [simp]: "requests (es @ fs) = requests es + requests fs"
  by (induction es) auto

lemma requests_none: "(\<And>e. e \<in> set es \<Longrightarrow> resolvable_request_id (env_event e) = None) \<Longrightarrow> requests es = {#}"
  by (induction es) auto

text \<open>Requests still with their push: not yet enqueued, or lost and not yet recorded.\<close>

definition in_flight :: "(push_stage \<times> ('b, 'v) work) list \<Rightarrow> u64 multiset" where
  "in_flight fl = requests (map snd (filter (\<lambda>(stage, _). stage \<noteq> PushNotice) fl))"

lemma in_flight_simps [simp]:
  "in_flight [] = {#}"
  "in_flight ((stage, e) # fl) = (if stage = PushNotice then {#} else requests [e]) + in_flight fl"
  by (simp_all add: in_flight_def)

lemma in_flight_append [simp]: "in_flight (fl @ gl) = in_flight fl + in_flight gl"
  by (simp add: in_flight_def)

lemma in_flight_take_drop:
  assumes "i < length fl" "fl ! i = (stage, e)"
  shows "in_flight fl = in_flight ((stage, e) # take i fl @ drop (Suc i) fl)"
proof -
  have "fl = take i fl @ (stage, e) # drop (Suc i) fl"
    using assms by (metis id_take_nth_drop)
  then have "in_flight fl = in_flight (take i fl @ (stage, e) # drop (Suc i) fl)"
    by simp
  then show ?thesis
    by (simp add: union_ac)
qed

definition queued_requests :: "('b, 'v) worker_queue \<Rightarrow> u64 multiset" where
  "queued_requests q = (case wq_state q of Priority p \<Rightarrow> requests (pq_high p) | Fifo f \<Rightarrow> {#})"

text \<open>In a priority queue requests are in the high lane only.\<close>

definition other_lanes :: "'e priority_queue \<Rightarrow> 'e envelope set" where
  "other_lanes p = set (pq_low p) \<union> snd ` set (pq_coalesced p)"

definition lanes_ok :: "('b, 'v) worker_queue \<Rightarrow> bool" where
  "lanes_ok q \<longleftrightarrow> (\<exists>p. wq_state q = Priority p \<and>
     (\<forall>e \<in> other_lanes p. resolvable_request_id (env_event e) = None))"

lemma resolvable_is_high: "item_priority pri item \<noteq> High \<Longrightarrow> resolvable_request_id item = None"
  by (cases item) auto

lemma set_update_subset: "snd ` set (AList.update k v m) \<subseteq> insert v (snd ` set m)"
  by (induction m) auto

lemma pq_push_lanes:
  assumes "pq_push P nm p e = (outcome, p')"
  shows "other_lanes p' \<subseteq> other_lanes p \<union> (if P (env_event e) = High then {} else {e})"
    and "pq_high p' = pq_high p @ (if P (env_event e) = High \<and> outcome \<noteq> CriticalOverflow then [e] else [])"
    and "outcome = CriticalOverflow \<Longrightarrow> P (env_event e) = High"
proof -
  have tl: "set (tl (pq_low p)) \<subseteq> set (pq_low p)"
    by (cases "pq_low p") auto
  show "other_lanes p' \<subseteq> other_lanes p \<union> (if P (env_event e) = High then {} else {e})"
    using assms tl set_update_subset [of "key_of nm e" e "pq_coalesced p"]
    by (cases "P (env_event e)") (auto 0 3 simp: pq_push_def Let_def other_lanes_def image_subset_iff split: if_splits)
  show "pq_high p' = pq_high p @ (if P (env_event e) = High \<and> outcome \<noteq> CriticalOverflow then [e] else [])"
    "outcome = CriticalOverflow \<Longrightarrow> P (env_event e) = High"
    using assms by (cases "P (env_event e)"; auto simp: pq_push_def Let_def split: if_splits)+
qed

lemma drain_coalesced_from:
  "set (fst (drain_coalesced order m)) \<subseteq> snd ` set m \<and> set (snd (drain_coalesced order m)) \<subseteq> set m"
proof (induction order arbitrary: m)
  case (Cons k order)
  have del: "set (AList.delete k m) \<subseteq> set m"
    by (auto simp: AList.delete_eq)
  show ?case
  proof (cases "map_of m k")
    case None
    then show ?thesis
      using Cons.IH [of m] by simp
  next
    case (Some e)
    then have "e \<in> snd ` set m"
      using map_of_SomeD by force
    moreover obtain out m' where "drain_coalesced order (AList.delete k m) = (out, m')"
      by fastforce
    ultimately show ?thesis
      using Cons.IH [of "AList.delete k m"] del image_mono [OF del, of snd] Some by auto
  qed
qed simp

lemma pq_drain_lanes:
  assumes "pq_drain_ready p = (batch, p')"
  shows "\<exists>es. batch = pq_high p @ es \<and> set es \<subseteq> other_lanes p" and "pq_high p' = []" and "other_lanes p' \<subseteq> other_lanes p"
  using assms drain_coalesced_from [of "pq_coalesce_order p" "pq_coalesced p"]
  by (auto simp: pq_drain_ready_def other_lanes_def split: prod.splits)

text \<open>Every request that was begun is at exactly one place.\<close>

definition system_ok :: "('b, 'v) queue_system \<Rightarrow> bool" where
  "system_ok y \<longleftrightarrow> lanes_ok (qy_queue y) \<and>
     requests (qy_begun y) = in_flight (qy_flight y) + queued_requests (qy_queue y) + requests (qy_delivered y) +
       mset (map fst (wq_failed_requests (qy_queue y))) + mset (map fst (qy_resolved y))"

lemma record_failure_requests:
  "mset (map fst (wq_failed_requests (record_failure (resolvable_request_id (env_event e)) err q))) =
    mset (map fst (wq_failed_requests q)) + requests [e]"
  by (simp add: record_failure_def split: option.split)

lemma record_failure_state [simp]: "wq_state (record_failure r err q) = wq_state q"
  by (simp add: record_failure_def split: option.split)

lemma push_step_ok:
  assumes "push_step pri nm stage e q = (r, q')" "lanes_ok q"
  shows "lanes_ok q'"
    and "in_flight [(stage, e)] + queued_requests q + mset (map fst (wq_failed_requests q)) =
      in_flight (case r of Inl _ \<Rightarrow> [] | Inr stage' \<Rightarrow> [(stage', e)]) + queued_requests q' +
        mset (map fst (wq_failed_requests q'))"
proof -
  obtain p where p: "wq_state q = Priority p" "\<And>f. f \<in> other_lanes p \<Longrightarrow> resolvable_request_id (env_event f) = None"
    using assms(2) by (auto simp: lanes_ok_def)
  have enqueue: "(\<forall>f \<in> other_lanes p'. resolvable_request_id (env_event f) = None) \<and>
      requests (pq_high p') = requests (pq_high p) + (if outcome = CriticalOverflow then {#} else requests [f])"
    if "pq_push (item_priority pri) (item_name nm) p f = (outcome, p')" for f outcome p'
  proof -
    note lanes = pq_push_lanes [OF that]
    have "resolvable_request_id (env_event f) = None" if "item_priority pri (env_event f) \<noteq> High"
      using resolvable_is_high [OF that] .
    then show ?thesis
      using lanes p(2) by (auto split: if_splits)
  qed
  have "lanes_ok q' \<and> in_flight [(stage, e)] + queued_requests q + mset (map fst (wq_failed_requests q)) =
      in_flight (case r of Inl _ \<Rightarrow> [] | Inr stage' \<Rightarrow> [(stage', e)]) + queued_requests q' +
        mset (map fst (wq_failed_requests q'))"
  proof (cases stage)
    case PushCheck
    then show ?thesis
      using assms record_failure_requests [of e shutdown_error q]
      by (auto simp: lanes_ok_def queued_requests_def split: if_splits)
  next
    case PushEnqueue
    obtain outcome p' where push: "pq_push (item_priority pri) (item_name nm) p e = (outcome, p')"
      by fastforce
    show ?thesis
      using assms(1) PushEnqueue p(1) push enqueue [OF push]
      by (auto simp: qd_push_def lanes_ok_def queued_requests_def split: if_splits)
  next
    case PushLost
    then show ?thesis
      using assms record_failure_requests [of e worker_overloaded "q\<lparr>wq_critical_overflow := wq_critical_overflow q + 1\<rparr>"]
      by (auto simp: lanes_ok_def queued_requests_def)
  next
    case PushNotice
    obtain outcome p' where push: "pq_push (item_priority pri) (item_name nm) p (overload_notice (env_enqueued_at e)) = (outcome, p')"
      by fastforce
    show ?thesis
      using assms(1) PushNotice p(1) push enqueue [OF push]
      by (auto simp: qd_push_def lanes_ok_def queued_requests_def overload_notice_def)
  qed
  then show "lanes_ok q'" "in_flight [(stage, e)] + queued_requests q + mset (map fst (wq_failed_requests q)) =
      in_flight (case r of Inl _ \<Rightarrow> [] | Inr stage' \<Rightarrow> [(stage', e)]) + queued_requests q' +
        mset (map fst (wq_failed_requests q'))"
    by blast+
qed

lemma queue_step_ok:
  assumes "system_ok y"
  shows "system_ok (queue_step pri nm action y)"
proof (cases action)
  case (BeginPush e)
  then show ?thesis
    using assms by (simp add: system_ok_def union_ac)
next
  case (AdvancePush i)
  show ?thesis
  proof (cases "i < length (qy_flight y)")
    case True
    obtain stage e where at: "qy_flight y ! i = (stage, e)"
      by fastforce
    obtain r q where step: "push_step pri nm stage e (qy_queue y) = (r, q)"
      by fastforce
    let ?others = "take i (qy_flight y) @ drop (Suc i) (qy_flight y)"
    have flight: "in_flight (qy_flight y) = in_flight [(stage, e)] + in_flight ?others"
      using in_flight_take_drop [OF True at] by simp
    have y': "queue_step pri nm action y = y\<lparr>qy_queue := q,
        qy_flight := (case r of Inl _ \<Rightarrow> [] | Inr stage' \<Rightarrow> [(stage', e)]) @ ?others\<rparr>"
      using AdvancePush True at step by (simp add: advance_push_def split: sum.split)
    have "lanes_ok (qy_queue y)"
      using assms by (simp add: system_ok_def)
    note moved = push_step_ok [OF step this]
    have "requests (qy_begun y) = (in_flight [(stage, e)] + queued_requests (qy_queue y) + mset (map fst (wq_failed_requests (qy_queue y)))) +
        in_flight ?others + requests (qy_delivered y) + mset (map fst (qy_resolved y))"
      using assms flight by (simp add: system_ok_def union_ac)
    then show ?thesis
      using moved unfolding y' system_ok_def by (simp add: union_ac)
  next
    case False
    then show ?thesis
      using assms AdvancePush by (simp add: advance_push_def)
  qed
next
  case CloseQueue
  then show ?thesis
    using assms by (simp add: system_ok_def close_queue_def lanes_ok_def queued_requests_def)
next
  case TakeBatch
  obtain p where p: "wq_state (qy_queue y) = Priority p" "\<And>f. f \<in> other_lanes p \<Longrightarrow> resolvable_request_id (env_event f) = None"
    using assms by (auto simp: system_ok_def lanes_ok_def)
  obtain batch p' where drain: "pq_drain_ready p = (batch, p')"
    by fastforce
  obtain es where es: "batch = pq_high p @ es" "set es \<subseteq> other_lanes p"
    using pq_drain_lanes(1) [OF drain] by blast
  then have "requests batch = requests (pq_high p)"
    using requests_none [of es] p(2) by auto
  then show ?thesis
    using assms TakeBatch p pq_drain_lanes(2,3) [OF drain] drain
    by (auto simp: system_ok_def wait_for_batch_def qd_drain_ready_def lanes_ok_def queued_requests_def union_ac)
next
  case TakeFailed
  then show ?thesis
    using assms by (simp add: system_ok_def take_failed_requests_def lanes_ok_def queued_requests_def union_ac)
qed

lemma start_system_ok: "system_ok (start_system (new_worker_queue (Priority (pq_new h l))))"
  by (simp add: system_ok_def start_system_def new_worker_queue_def lanes_ok_def queued_requests_def
      pq_new_def other_lanes_def)

lemma queue_run_ok: "system_ok y \<Longrightarrow> system_ok (fold (queue_step pri nm) actions y)"
  by (induction actions arbitrary: y) (simp_all add: queue_step_ok)

section \<open>Bots and their workers\<close>

text \<open>An item that carries a sequence number of its bot, and the worker an item belongs to.\<close>

fun sequenced :: "('b, 'v) work_item \<Rightarrow> bool" where
  "sequenced (BotItem _) = True"
| "sequenced (TimerFired _) = True"
| "sequenced _ = False"

fun owned :: "('b, 'v) work_item \<Rightarrow> bool" where
  "owned (BotItem _) = True"
| "owned (TimerFired _) = True"
| "owned (ActionResult _) = True"
| "owned _ = False"

definition contents :: "'e queue_design \<Rightarrow> 'e envelope set" where
  "contents d = (case d of Fifo q \<Rightarrow> set (ff_items q) | Priority p \<Rightarrow> set (pq_high p) \<union> other_lanes p)"

definition lanes :: "'e queue_design \<Rightarrow> 'e envelope list list" where
  "lanes d = (case d of Fifo q \<Rightarrow> [ff_items q] | Priority p \<Rightarrow> [pq_high p, pq_low p])"

lemma qd_push_contents: "contents (snd (qd_push P nm d e)) \<subseteq> insert e (contents d)"
proof (cases d)
  case (Fifo q)
  have "set (tl (ff_items q)) \<subseteq> set (ff_items q)"
    by (cases "ff_items q") auto
  then show ?thesis
    using Fifo by (auto simp: qd_push_def contents_def fifo_push_def Let_def split: overflow_policy.split)
next
  case (Priority p)
  obtain outcome p' where "pq_push P nm p e = (outcome, p')"
    by fastforce
  then show ?thesis
    using Priority pq_push_lanes(1,2) [of P nm p e outcome p'] by (auto simp: qd_push_def contents_def split: if_splits)
qed

lemma qd_drain_contents: "contents (snd (qd_drain_ready d)) \<subseteq> contents d"
proof (cases d)
  case (Fifo q)
  then show ?thesis
    by (simp add: qd_drain_ready_def contents_def fifo_drain_ready_def)
next
  case (Priority p)
  obtain batch p' where "pq_drain_ready p = (batch, p')"
    by fastforce
  then show ?thesis
    using Priority pq_drain_lanes(2,3) [of p batch p'] by (auto simp: qd_drain_ready_def contents_def)
qed

text \<open>A push leaves a lane alone, or appends to it, perhaps after dropping its oldest item.\<close>

lemma qd_push_lanes:
  assumes "l' \<in> set (lanes (snd (qd_push P nm d e)))"
  shows "\<exists>l \<in> set (lanes d). l' = l \<or> l' = l @ [e] \<or> l' = tl l @ [e]"
proof (cases d)
  case (Fifo q)
  then show ?thesis
    using assms by (auto simp: qd_push_def lanes_def fifo_push_def Let_def split: if_splits overflow_policy.splits)
next
  case (Priority p)
  then show ?thesis
    using assms by (cases "P (env_event e)") (auto simp: qd_push_def lanes_def pq_push_def Let_def split: if_splits)
qed

lemma qd_drain_lanes: "l \<in> set (lanes (snd (qd_drain_ready d))) \<Longrightarrow> l = []"
  by (cases d) (auto simp: qd_drain_ready_def lanes_def fifo_drain_ready_def pq_drain_ready_def split: prod.splits)

definition lane_ok :: "('b, 'v) work list \<Rightarrow> bool" where
  "lane_ok = sorted_wrt (\<lambda>e f. sequenced (env_event e) \<and> sequenced (env_event f) \<and> env_bot_id e = env_bot_id f \<longrightarrow>
     unat (env_bot_seq e) < unat (env_bot_seq f))"

definition queue_ok :: "nat \<Rightarrow> (u32 \<Rightarrow> nat) \<Rightarrow> nat \<Rightarrow> ('b, 'v) work_item queue_design \<Rightarrow> bool" where
  "queue_ok n sq i st \<longleftrightarrow>
     (\<forall>e \<in> contents st. (owned (env_event e) \<longrightarrow> unat (env_bot_id e) mod n = i) \<and>
        (sequenced (env_event e) \<longrightarrow> unat (env_bot_seq e) \<le> sq (env_bot_id e))) \<and>
     (\<forall>l \<in> set (lanes st). lane_ok l)"

lemma lanes_contents: "l \<in> set (lanes st) \<Longrightarrow> set l \<subseteq> contents st"
  by (cases st) (auto simp: lanes_def contents_def other_lanes_def)

lemma lane_ok_append:
  assumes "lane_ok l" "\<And>f. f \<in> set l \<Longrightarrow> sequenced (env_event f) \<Longrightarrow> sequenced (env_event e) \<Longrightarrow> env_bot_id f = env_bot_id e \<Longrightarrow>
    unat (env_bot_seq f) < unat (env_bot_seq e)"
  shows "lane_ok (l @ [e]) \<and> lane_ok (tl l @ [e])"
proof (cases l)
  case Nil
  then show ?thesis
    by (simp add: lane_ok_def)
next
  case (Cons f l')
  then show ?thesis
    using assms by (auto simp: lane_ok_def sorted_wrt_append)
qed

lemma qd_push_queue_ok:
  assumes "queue_ok n sq i st" "owned (env_event e) \<Longrightarrow> unat (env_bot_id e) mod n = i"
    and "sequenced (env_event e) \<Longrightarrow> sq (env_bot_id e) < unat (env_bot_seq e)"
    and "\<And>b. sq b \<le> sq' b" "sequenced (env_event e) \<Longrightarrow> unat (env_bot_seq e) \<le> sq' (env_bot_id e)"
  shows "queue_ok n sq' i (snd (qd_push P nm st e))"
  unfolding queue_ok_def
proof (intro conjI ballI impI)
  fix f
  assume "f \<in> contents (snd (qd_push P nm st e))"
  then have f: "f = e \<or> f \<in> contents st"
    using qd_push_contents [of P nm st e] by blast
  then show "owned (env_event f) \<Longrightarrow> unat (env_bot_id f) mod n = i"
    using assms(1,2) by (auto simp: queue_ok_def)
  show "sequenced (env_event f) \<Longrightarrow> unat (env_bot_seq f) \<le> sq' (env_bot_id f)"
    using f assms(1,4,5) le_trans by (fastforce simp: queue_ok_def)
next
  fix l'
  assume "l' \<in> set (lanes (snd (qd_push P nm st e)))"
  then obtain l where l: "l \<in> set (lanes st)" "l' = l \<or> l' = l @ [e] \<or> l' = tl l @ [e]"
    using qd_push_lanes by blast
  have "lane_ok l"
    using l(1) assms(1) by (simp add: queue_ok_def)
  moreover have "unat (env_bot_seq f) < unat (env_bot_seq e)"
    if "f \<in> set l" "sequenced (env_event f)" "sequenced (env_event e)" "env_bot_id f = env_bot_id e" for f
  proof -
    have "f \<in> contents st"
      using that(1) lanes_contents [OF l(1)] by blast
    then show ?thesis
      using assms(1,3) that(2-4) by (fastforce simp: queue_ok_def)
  qed
  ultimately show "lane_ok l'"
    using lane_ok_append [of l e] l(2) by blast
qed

lemma queue_ok_mono:
  assumes "queue_ok n sq i st" "\<And>b. sq b \<le> sq' b"
  shows "queue_ok n sq' i st"
  using assms le_trans unfolding queue_ok_def by blast

lemma wq_push_queue_ok:
  assumes "queue_ok n sq i (wq_state q)" "owned (env_event e) \<Longrightarrow> unat (env_bot_id e) mod n = i"
    and "sequenced (env_event e) \<Longrightarrow> sq (env_bot_id e) < unat (env_bot_seq e)"
    and "\<And>b. sq b \<le> sq' b" "sequenced (env_event e) \<Longrightarrow> unat (env_bot_seq e) \<le> sq' (env_bot_id e)"
  shows "queue_ok n sq' i (wq_state (snd (wq_push pri nm e q)))"
proof -
  let ?st = "snd (qd_push (item_priority pri) (item_name nm) (wq_state q) e)"
  have pushed: "queue_ok n sq' i ?st"
    by (rule qd_push_queue_ok) (use assms in auto)
  then have noticed: "queue_ok n sq' i (snd (qd_push (item_priority pri) (item_name nm) ?st (overload_notice t)))" for t
    by (rule qd_push_queue_ok) (auto simp: overload_notice_def)
  have "wq_state (snd (wq_push pri nm e q)) \<in> {wq_state q, ?st,
      snd (qd_push (item_priority pri) (item_name nm) ?st (overload_notice (env_enqueued_at e)))}"
    by (auto simp: wq_push_def record_failure_def split: prod.splits option.splits)
  then show ?thesis
    using pushed noticed queue_ok_mono [OF assms(1,4)] by auto
qed

lemma wait_for_batch_queue_ok:
  assumes "queue_ok n sq i (wq_state q)"
  shows "queue_ok n sq i (wq_state (snd (wait_for_batch q)))"
proof -
  have "queue_ok n sq i (snd (qd_drain_ready (wq_state q)))"
    using assms qd_drain_contents [of "wq_state q"] qd_drain_lanes [of _ "wq_state q"]
    by (fastforce simp: queue_ok_def lane_ok_def)
  then show ?thesis
    using assms by (auto simp: wait_for_batch_def split: prod.splits)
qed

section \<open>Runs of the dispatcher\<close>

datatype ('b, 'v) dispatch_call =
    DispatchEvent nat u32 'b
  | DispatchTimer nat u32 u64
  | DispatchResult nat nat action_result
  | Broadcast nat string 'v
  | WorkerDrains nat
  | CloseAll

fun dispatch_step ::
  "('b \<Rightarrow> priority) \<Rightarrow> ('b \<Rightarrow> string) \<Rightarrow> ('b, 'v) dispatch_call \<Rightarrow> ('b, 'v) dispatcher \<Rightarrow> ('b, 'v) dispatcher option" where
  "dispatch_step pri nm (DispatchEvent now bot_id event) d = map_option snd (dispatch_bot_event pri nm now bot_id event d)"
| "dispatch_step pri nm (DispatchTimer now bot_id timer_id) d = map_option snd (dispatch_timer pri nm now bot_id timer_id d)"
| "dispatch_step pri nm (DispatchResult now origin r) d = map_option snd (dispatch_action_result pri nm now origin r d)"
| "dispatch_step pri nm (Broadcast now topic payload) d = Some (broadcast_message pri nm now topic payload d)"
| "dispatch_step pri nm (WorkerDrains i) d = (if i < length (dp_queues d)
     then Some (d\<lparr>dp_queues := (dp_queues d)[i := snd (wait_for_batch (dp_queues d ! i))]\<rparr>) else None)"
| "dispatch_step pri nm CloseAll d = Some (close_all d)"

fun dispatch_run ::
  "('b \<Rightarrow> priority) \<Rightarrow> ('b \<Rightarrow> string) \<Rightarrow> ('b, 'v) dispatch_call list \<Rightarrow> ('b, 'v) dispatcher \<Rightarrow> ('b, 'v) dispatcher option" where
  "dispatch_run pri nm [] d = Some d"
| "dispatch_run pri nm (call # calls) d = (case dispatch_step pri nm call d of
     None \<Rightarrow> None
   | Some d1 \<Rightarrow> dispatch_run pri nm calls d1)"

definition dispatcher_ok :: "nat \<Rightarrow> ('b, 'v) dispatcher \<Rightarrow> bool" where
  "dispatcher_ok k d \<longleftrightarrow> (\<forall>b. unat (bot_seq d b) \<le> k) \<and>
     (\<forall>i < length (dp_queues d). queue_ok (length (dp_queues d)) (\<lambda>b. unat (bot_seq d b)) i (wq_state (dp_queues d ! i)))"

lemma bot_seq_queues [simp]: "bot_seq (d\<lparr>dp_queues := qs\<rparr>) b = bot_seq d b"
  by (simp add: bot_seq_def)

lemma bot_seq_update: "bot_seq (d\<lparr>dp_per_bot_seq := AList.update b n (dp_per_bot_seq d)\<rparr>) b' = (if b' = b then n else bot_seq d b')"
  by (simp add: bot_seq_def AList.update_conv')

lemma dispatcher_ok_replace:
  assumes "dispatcher_ok k d" "i < length (dp_queues d)"
    and "queue_ok (length (dp_queues d)) (\<lambda>b. unat (bot_seq d b)) i (wq_state q)"
  shows "dispatcher_ok k (d\<lparr>dp_queues := (dp_queues d)[i := q]\<rparr>)"
  using assms by (auto simp: dispatcher_ok_def nth_list_update)

text \<open>An item without a number leaves the counters alone.\<close>

lemma push_to_unsequenced:
  assumes "push_to pri nm i e d = Some (outcome, d')" "dispatcher_ok k d" "\<not> sequenced (env_event e)"
    and "owned (env_event e) \<Longrightarrow> unat (env_bot_id e) mod length (dp_queues d) = i"
  shows "dispatcher_ok k d' \<and> length (dp_queues d') = length (dp_queues d)"
proof -
  have i: "i < length (dp_queues d)" and d': "d' = d\<lparr>dp_queues := (dp_queues d)[i := snd (wq_push pri nm e (dp_queues d ! i))]\<rparr>"
    using assms(1) by (auto simp: push_to_def split: if_splits prod.splits)
  have "queue_ok (length (dp_queues d)) (\<lambda>b. unat (bot_seq d b)) i (wq_state (dp_queues d ! i))"
    using assms(2) i by (simp add: dispatcher_ok_def)
  then have "queue_ok (length (dp_queues d)) (\<lambda>b. unat (bot_seq d b)) i (wq_state (snd (wq_push pri nm e (dp_queues d ! i))))"
    by (rule wq_push_queue_ok) (use assms(3,4) in auto)
  then show ?thesis
    using dispatcher_ok_replace [OF assms(2) i] d' by simp
qed

lemma push_to_sequenced:
  assumes "push_to pri nm (worker_index_for d b) \<lparr>env_bot_id = b, env_event = item, env_enqueued_at = now, env_bot_seq = n\<rparr> d1 = Some (outcome, d')"
    and "next_bot_seq b d = (n, d1)" "dispatcher_ok k d" "sequenced item" "Suc k < 2 ^ 64"
  shows "dispatcher_ok (Suc k) d'"
proof -
  let ?e = "\<lparr>env_bot_id = b, env_event = item, env_enqueued_at = now, env_bot_seq = n\<rparr>"
  let ?i = "worker_index_for d b"
  have n: "n = bot_seq d b + 1" and d1: "d1 = d\<lparr>dp_per_bot_seq := AList.update b n (dp_per_bot_seq d)\<rparr>"
    using assms(2) by (auto simp: next_bot_seq_def Let_def)
  have "unat (bot_seq d b) \<le> k"
    using assms(3) by (simp add: dispatcher_ok_def)
  then have unat: "unat n = Suc (unat (bot_seq d b))"
    using assms(5) unfolding n by (simp add: unat_word_ariths)
  have seq: "bot_seq d1 b' = (if b' = b then n else bot_seq d b')" for b'
    unfolding d1 by (rule bot_seq_update)
  have i: "?i < length (dp_queues d)" and d': "d' = d1\<lparr>dp_queues := (dp_queues d)[?i := snd (wq_push pri nm ?e (dp_queues d ! ?i))]\<rparr>"
    using assms(1) by (auto simp: d1 push_to_def split: if_splits prod.splits)
  have mono: "unat (bot_seq d b') \<le> unat (bot_seq d1 b')" for b'
    using unat by (simp add: seq)
  have old: "queue_ok (length (dp_queues d)) (\<lambda>b. unat (bot_seq d b)) j (wq_state (dp_queues d ! j))"
    if "j < length (dp_queues d)" for j
    using assms(3) that by (simp add: dispatcher_ok_def)
  have "queue_ok (length (dp_queues d)) (\<lambda>b. unat (bot_seq d1 b)) ?i (wq_state (snd (wq_push pri nm ?e (dp_queues d ! ?i))))"
    by (rule wq_push_queue_ok [OF old [OF i]]) (use mono unat assms(4) in \<open>auto simp: seq worker_index_for_def\<close>)
  moreover have "queue_ok (length (dp_queues d)) (\<lambda>b. unat (bot_seq d1 b)) j (wq_state (dp_queues d ! j))"
    if "j < length (dp_queues d)" for j
    using queue_ok_mono [OF old [OF that] mono] .
  moreover have "unat (bot_seq d1 b') \<le> Suc k" for b'
    using assms(3) unat by (auto simp: seq dispatcher_ok_def le_SucI)
  ultimately show ?thesis
    unfolding d' using i by (auto simp: dispatcher_ok_def nth_list_update)
qed

lemma dispatcher_ok_Suc: "dispatcher_ok k d \<Longrightarrow> dispatcher_ok (Suc k) d"
  by (simp add: dispatcher_ok_def le_SucI)

lemma dispatch_action_result_ok:
  assumes "dispatch_action_result pri nm now origin r d = Some (outcome, d')" "dispatcher_ok k d"
  shows "dispatcher_ok k d'"
proof -
  let ?owner = "worker_index_for d (ar_bot_id r)"
  let ?e = "\<lambda>item. \<lparr>env_bot_id = ar_bot_id r, env_event = item, env_enqueued_at = now, env_bot_seq = 0\<rparr>"
  obtain o1 d1 where first: "push_to pri nm ?owner (?e (ActionResult r)) d = Some (o1, d1)"
    and second: "if origin = ?owner then d' = d1 else push_to pri nm origin (?e (CallbackCompletion r)) d1 = Some (outcome, d')"
    using assms(1) by (auto simp: dispatch_action_result_def Let_def split: option.splits if_splits)
  have "dispatcher_ok k d1 \<and> length (dp_queues d1) = length (dp_queues d)"
    by (rule push_to_unsequenced [OF first assms(2)]) (simp_all add: worker_index_for_def)
  then show ?thesis
    using second push_to_unsequenced [of pri nm origin "?e (CallbackCompletion r)" d1 outcome d' k] by (auto split: if_splits)
qed

lemma broadcast_message_ok:
  assumes "dispatcher_ok k d"
  shows "dispatcher_ok k (broadcast_message pri nm now topic payload d)"
proof -
  let ?e = "\<lparr>env_bot_id = 0, env_event = Message topic payload, env_enqueued_at = now, env_bot_seq = 0\<rparr>"
  have "queue_ok (length (dp_queues d)) (\<lambda>b. unat (bot_seq d b)) i (wq_state (snd (wq_push pri nm ?e (dp_queues d ! i))))"
    if "i < length (dp_queues d)" for i
    by (rule wq_push_queue_ok [where sq = "\<lambda>b. unat (bot_seq d b)"]) (use assms that in \<open>auto simp: dispatcher_ok_def\<close>)
  then show ?thesis
    using assms by (simp add: dispatcher_ok_def broadcast_message_def)
qed

lemma dispatch_step_ok:
  assumes "dispatch_step pri nm call d = Some d'" "dispatcher_ok k d" "Suc k < 2 ^ 64"
  shows "dispatcher_ok (Suc k) d'"
proof (cases call)
  case (DispatchEvent now b event)
  obtain n d1 where next_seq: "next_bot_seq b d = (n, d1)"
    by fastforce
  then show ?thesis
    using assms DispatchEvent push_to_sequenced [OF _ next_seq assms(2) _ assms(3), of pri nm "BotItem event" now]
    by (auto simp: dispatch_bot_event_def Let_def)
next
  case (DispatchTimer now b timer)
  obtain n d1 where next_seq: "next_bot_seq b d = (n, d1)"
    by fastforce
  then show ?thesis
    using assms DispatchTimer push_to_sequenced [OF _ next_seq assms(2) _ assms(3), of pri nm "TimerFired timer" now]
    by (auto simp: dispatch_timer_def Let_def)
next
  case (DispatchResult now origin r)
  then show ?thesis
    using assms dispatch_action_result_ok dispatcher_ok_Suc by fastforce
next
  case (Broadcast now topic payload)
  then show ?thesis
    using assms broadcast_message_ok dispatcher_ok_Suc by fastforce
next
  case (WorkerDrains i)
  then have i: "i < length (dp_queues d)" "d' = d\<lparr>dp_queues := (dp_queues d)[i := snd (wait_for_batch (dp_queues d ! i))]\<rparr>"
    using assms(1) by (auto split: if_splits)
  have "queue_ok (length (dp_queues d)) (\<lambda>b. unat (bot_seq d b)) i (wq_state (snd (wait_for_batch (dp_queues d ! i))))"
    by (rule wait_for_batch_queue_ok) (use assms(2) i(1) in \<open>simp add: dispatcher_ok_def\<close>)
  then show ?thesis
    using dispatcher_ok_replace [OF assms(2) i(1)] i(2) dispatcher_ok_Suc by blast
next
  case CloseAll
  then show ?thesis
    using assms by (auto simp: dispatcher_ok_def close_all_def close_queue_def bot_seq_def le_SucI)
qed

lemma dispatch_run_ok:
  "dispatch_run pri nm calls d = Some d' \<Longrightarrow> dispatcher_ok k d \<Longrightarrow> k + length calls < 2 ^ 64 \<Longrightarrow>
    dispatcher_ok (k + length calls) d'"
proof (induction calls arbitrary: d k)
  case (Cons call calls)
  then obtain d1 where "dispatch_step pri nm call d = Some d1" "dispatch_run pri nm calls d1 = Some d'"
    by (auto split: option.splits)
  then show ?case
    using dispatch_step_ok [of pri nm call d d1 k] Cons.IH [of d1 "Suc k"] Cons.prems(2,3) by simp
qed simp

section \<open>Properties\<close>

text \<open>C7: No request is lost and none is answered twice. Let any number of threads push to a worker's
  priority queue, each push interrupted anywhere, while the queue overflows, is closed, and the
  worker takes batches and failed requests. At every moment the requests of the pushes begun
  are exactly those still with their push, those in the queue, those delivered to the worker,
  and those recorded as failed, resolved or not: each at one place, as often as it was pushed.\<close>

theorem requests_accounted:
  "let y = fold (queue_step pri nm) actions (start_system (new_worker_queue (Priority (pq_new h l)))) in
   requests (qy_begun y) = in_flight (qy_flight y) + queued_requests (qy_queue y) + requests (qy_delivered y) +
     mset (map fst (wq_failed_requests (qy_queue y))) + mset (map fst (qy_resolved y))"
  using queue_run_ok [OF start_system_ok, of pri nm actions h l] by (simp add: system_ok_def Let_def)

text \<open>C8: Every bot belongs to one worker, and a lane keeps the order of a bot's events. From a new
  dispatcher over empty queues of any design, after any calls (fewer than \<open>2\<^sup>6\<^sup>4\<close>, so that no
  sequence number wraps), the events, timers and action results in the queue of worker \<open>i\<close> are
  those of bots with \<open>id mod workers = i\<close>, and in each lane the events and timers of one bot
  have increasing sequence numbers.\<close>

theorem workers_own_their_bots:
  assumes "dispatch_run pri nm calls (new_dispatcher queues) = Some d" "length calls < 2 ^ 64"
    and "\<forall>q \<in> set queues. contents (wq_state q) = {}" "i < length (dp_queues d)"
  shows "(\<forall>e \<in> contents (wq_state (dp_queues d ! i)). owned (env_event e) \<longrightarrow>
      unat (env_bot_id e) mod length (dp_queues d) = i) \<and>
    (\<forall>l \<in> set (lanes (wq_state (dp_queues d ! i))). lane_ok l)"
proof -
  have "queue_ok n sq j (wq_state q)" if "q \<in> set queues" for n sq j q
  proof -
    have "contents (wq_state q) = {}"
      using assms(3) that by blast
    moreover from this have "l = []" if "l \<in> set (lanes (wq_state q))" for l
      using lanes_contents [OF that] by simp
    ultimately show ?thesis
      by (fastforce simp: queue_ok_def lane_ok_def)
  qed
  then have "dispatcher_ok 0 (new_dispatcher queues)"
    by (simp add: dispatcher_ok_def new_dispatcher_def bot_seq_def)
  from dispatch_run_ok [OF assms(1) this] show ?thesis
    using assms(2,4) by (auto simp: dispatcher_ok_def queue_ok_def)
qed

definition sample_queue :: "(unit, unit) worker_queue" where
  "sample_queue = new_worker_queue (Priority (pq_new 4 4))"

definition sample_dispatches :: "(unit, unit) dispatch_call list" where
  "sample_dispatches = [DispatchEvent 1 7 (), DispatchTimer 2 7 9, DispatchEvent 3 4 (), DispatchEvent 4 7 ()]"

theorem workers_own_their_bots_witness:
  "\<exists>d. dispatch_run (\<lambda>_. High) (\<lambda>_. ''e'') sample_dispatches (new_dispatcher [sample_queue, sample_queue]) = Some d \<and>
    length (dp_queues d) = 2 \<and> (\<forall>l \<in> set (lanes (wq_state (dp_queues d ! 1))). lane_ok l) \<and>
    map (map env_bot_seq) (lanes (wq_state (dp_queues d ! 1))) = [[1, 3], [2]]"
proof -
  let ?run = "dispatch_run (\<lambda>_. High) (\<lambda>_. ''e'') sample_dispatches (new_dispatcher [sample_queue, sample_queue])"
  have "map_option (\<lambda>d. (length (dp_queues d), map (map env_bot_seq) (lanes (wq_state (dp_queues d ! 1))))) ?run =
      Some (2, [[1, 3], [2]])"
    by code_simp
  then obtain d where d: "?run = Some d" "length (dp_queues d) = 2"
    "map (map env_bot_seq) (lanes (wq_state (dp_queues d ! 1))) = [[1, 3], [2]]"
    by auto
  have empty: "\<forall>q \<in> set [sample_queue, sample_queue]. contents (wq_state q) = {}"
    by (simp add: sample_queue_def new_worker_queue_def contents_def pq_new_def other_lanes_def)
  have few: "length sample_dispatches < 2 ^ 64"
    by (simp add: sample_dispatches_def)
  show ?thesis
    using workers_own_their_bots [OF d(1) few empty, of 1] d by simp
qed

text \<open>
  The flag is read before the lock is taken, so an accepted item can be stranded, against the
  comment of \<open>push\<close>: a push reads the open flag, the queue is closed, the worker drains it (and,
  finding nothing, ends its loop), and only then the item is enqueued. It is neither delivered
  nor recorded as failed.
\<close>

definition late_result :: "(unit, unit) work" where
  "late_result = \<lparr>env_bot_id = 7, env_event = ActionResult \<lparr>ar_request_id = 3, ar_bot_id = 7, ar_outcome = DeliveredSent\<rparr>,
     env_enqueued_at = 1, env_bot_seq = 0\<rparr>"

lemma late_push_is_stranded:
  "let y = fold (queue_step (\<lambda>_. High) (\<lambda>_. ''e'')) [BeginPush late_result, AdvancePush 0, CloseQueue, TakeBatch, AdvancePush 0]
       (start_system sample_queue) in
   qy_flight y = [] \<and> wq_closed (qy_queue y) \<and> qy_delivered y = [] \<and> wq_failed_requests (qy_queue y) = [] \<and>
   queued_requests (qy_queue y) = {#3#}"
  by (simp add: late_result_def sample_queue_def start_system_def new_worker_queue_def advance_push_def qd_push_def
      pq_push_def pq_new_def Let_def close_queue_def wait_for_batch_def qd_drain_ready_def pq_drain_ready_def
      queued_requests_def)

end
