(* ===== verification/Btree_Map.thy ===== *)
theory Btree_Map
  imports Prelude "HOL-Library.AList"
begin

text \<open>
  The ordered maps of the standard library (\<open>std::collections::BTreeMap\<close>) as association lists
  with strictly increasing keys, so that iteration order is list order, and the bounded insert
  that several components build on them: at the size limit a new key is refused, or the entry
  with the smallest key makes room for it.
\<close>

section \<open>Sorted association lists\<close>

fun bt_insert :: "'k::linorder \<Rightarrow> 'v \<Rightarrow> ('k \<times> 'v) list \<Rightarrow> ('k \<times> 'v) list" where
  "bt_insert k v [] = [(k, v)]"
| "bt_insert k v ((k', v') # m) =
     (if k < k' then (k, v) # (k', v') # m
      else if k = k' then (k, v) # m
      else (k', v') # bt_insert k v m)"

definition bt_remove :: "'k \<Rightarrow> ('k \<times> 'v) list \<Rightarrow> ('k \<times> 'v) list" where
  "bt_remove k m = filter (\<lambda>(k', _). k' \<noteq> k) m"

abbreviation bt_get :: "('k \<times> 'v) list \<Rightarrow> 'k \<Rightarrow> 'v option" where
  "bt_get \<equiv> map_of"

definition bt_contains :: "('k \<times> 'v) list \<Rightarrow> 'k \<Rightarrow> bool" where
  "bt_contains m k \<longleftrightarrow> bt_get m k \<noteq> None"

definition bt_ok :: "('k::linorder \<times> 'v) list \<Rightarrow> bool" where
  "bt_ok m \<longleftrightarrow> sorted_wrt (<) (map fst m)"

lemma bt_ok_Nil [simp]: "bt_ok []"
  by (simp add: bt_ok_def)

lemma bt_ok_distinct: "bt_ok m \<Longrightarrow> distinct (map fst m)"
  by (simp add: bt_ok_def strict_sorted_iff)

lemma bt_insert_keys: "set (map fst (bt_insert k v m)) = insert k (set (map fst m))"
proof (induction m)
  case (Cons e m)
  then show ?case by (cases e) (simp add: insert_commute)
qed simp

lemma bt_insert_ok: "bt_ok m \<Longrightarrow> bt_ok (bt_insert k v m)"
proof (induction m)
  case (Cons e m)
  obtain k' v' where e: "e = (k', v')" by fastforce
  from Cons have m: "bt_ok (bt_insert k v m)" "\<forall>x\<in>set (map fst m). k' < x" by (auto simp: bt_ok_def e)
  consider "k < k'" | "k = k'" | "k' < k" by (rule linorder_cases)
  then show ?case
  proof cases
    case 3
    with m bt_insert_keys [of k v m] show ?thesis by (auto simp: e bt_ok_def)
  qed (use Cons.prems m in \<open>auto simp: e bt_ok_def\<close>)
qed (simp add: bt_ok_def)

lemma bt_get_insert [simp]: "bt_get (bt_insert k v m) = (bt_get m)(k \<mapsto> v)"
  by (induction m) (auto simp: fun_eq_iff)

lemma bt_contains_keys: "bt_contains m k \<longleftrightarrow> k \<in> set (map fst m)"
  by (simp add: bt_contains_def map_of_eq_None_iff)

lemma bt_insert_length:
  "bt_ok m \<Longrightarrow> length (bt_insert k v m) = (if bt_contains m k then length m else Suc (length m))"
proof (induction m)
  case (Cons e m)
  obtain k' v' where e: "e = (k', v')" by fastforce
  have notin: "k \<notin> set (map fst m)" if "k < k'" using that Cons.prems by (fastforce simp: bt_ok_def e)
  from Cons have "length (bt_insert k v m) = (if bt_contains m k then length m else Suc (length m))"
    by (simp add: bt_ok_def)
  with notin show ?case by (auto simp: e bt_contains_keys)
qed (simp add: bt_contains_def)

lemma bt_remove_ok: "bt_ok m \<Longrightarrow> bt_ok (bt_remove k m)"
  unfolding bt_ok_def bt_remove_def by (induction m) auto

lemma bt_get_remove [simp]: "bt_get (bt_remove k m) = (bt_get m)(k := None)"
  by (induction m) (auto simp: bt_remove_def fun_eq_iff)

lemma bt_remove_length: "length (bt_remove k m) \<le> length m"
  by (simp add: bt_remove_def)

lemma bt_remove_hd: "bt_ok (e # m) \<Longrightarrow> bt_remove (fst e) (e # m) = m"
  by (auto simp: bt_ok_def bt_remove_def filter_id_conv split: prod.splits)

text \<open>\<open>retain\<close>, and writing through \<open>get_mut\<close>.\<close>

definition bt_retain :: "('k \<Rightarrow> 'v \<Rightarrow> bool) \<Rightarrow> ('k \<times> 'v) list \<Rightarrow> ('k \<times> 'v) list" where
  "bt_retain P m = filter (\<lambda>(k, v). P k v) m"

definition bt_modify :: "'k \<Rightarrow> ('v \<Rightarrow> 'v) \<Rightarrow> ('k \<times> 'v) list \<Rightarrow> ('k \<times> 'v) list" where
  "bt_modify k f m = map (\<lambda>(k', v). (k', if k' = k then f v else v)) m"

lemma bt_ok_filter: "bt_ok m \<Longrightarrow> bt_ok (filter P m)"
  unfolding bt_ok_def by (induction m) auto

lemma bt_retain_ok: "bt_ok m \<Longrightarrow> bt_ok (bt_retain P m)"
  by (simp add: bt_retain_def bt_ok_filter)

lemma bt_retain_length: "length (bt_retain P m) \<le> length m"
  by (simp add: bt_retain_def)

lemma bt_get_retain:
  assumes "bt_ok m"
  shows "bt_get (bt_retain P m) k = (case bt_get m k of Some v \<Rightarrow> if P k v then Some v else None | None \<Rightarrow> None)"
  using bt_ok_distinct [OF assms]
  by (induction m) (auto simp: bt_retain_def map_of_eq_None_iff image_iff split: option.splits)

lemma bt_modify_keys [simp]: "map fst (bt_modify k f m) = map fst m"
  by (auto simp: bt_modify_def)

lemma bt_modify_ok [simp]: "bt_ok (bt_modify k f m) = bt_ok m"
  by (simp add: bt_ok_def)

lemma bt_modify_length [simp]: "length (bt_modify k f m) = length m"
  by (simp add: bt_modify_def)

lemma bt_get_modify [simp]: "bt_get (bt_modify k f m) k' = (if k' = k then map_option f (bt_get m k') else bt_get m k')"
  by (induction m) (auto simp: bt_modify_def)

lemma bt_contains_insert [simp]: "bt_contains (bt_insert k v m) k' \<longleftrightarrow> k' = k \<or> bt_contains m k'"
  by (auto simp: bt_contains_def)

lemma bt_contains_remove [simp]: "bt_contains (bt_remove k m) k' \<longleftrightarrow> k' \<noteq> k \<and> bt_contains m k'"
  by (auto simp: bt_contains_def)

lemma bt_contains_modify [simp]: "bt_contains (bt_modify k f m) k' \<longleftrightarrow> bt_contains m k'"
  by (auto simp: bt_contains_def)

text \<open>A \<open>BTreeSet\<close> is a \<open>BTreeMap\<close> without values.\<close>

type_synonym 'k bt_set = "('k \<times> unit) list"

definition bts_insert :: "'k::linorder \<Rightarrow> 'k bt_set \<Rightarrow> 'k bt_set" where
  "bts_insert k m = bt_insert k () m"

definition bts_elems :: "'k bt_set \<Rightarrow> 'k list" where
  "bts_elems m = map fst m"

lemma bts_elems_insert [simp]: "set (bts_elems (bts_insert k m)) = insert k (set (bts_elems m))"
  using bt_insert_keys [of k "()" m] by (simp add: bts_elems_def bts_insert_def)

lemma bts_elems_remove [simp]: "set (bts_elems (bt_remove k m)) = set (bts_elems m) - {k}"
  by (auto simp: bts_elems_def bt_remove_def)

section \<open>Inserting under a size limit\<close>

text \<open>A new key is refused at the limit; a known key is always updated.\<close>

definition insert_bounded :: "nat \<Rightarrow> 'k::linorder \<Rightarrow> 'v \<Rightarrow> ('k \<times> 'v) list \<Rightarrow> bool \<times> ('k \<times> 'v) list" where
  "insert_bounded limit k v m =
     (if bt_contains m k \<or> length m < limit then (True, bt_insert k v m) else (False, m))"

text \<open>At the limit a new key evicts the smallest one.\<close>

definition insert_evicting :: "nat \<Rightarrow> 'k::linorder \<Rightarrow> 'v \<Rightarrow> ('k \<times> 'v) list \<Rightarrow> ('k \<times> 'v) list" where
  "insert_evicting limit k v m =
     bt_insert k v
       (if \<not> bt_contains m k \<and> length m \<ge> limit
        then (case m of [] \<Rightarrow> m | (oldest, _) # _ \<Rightarrow> bt_remove oldest m)
        else m)"

text \<open>What a bounded log of entries promises: order, the bound, and that the new entry is there.\<close>

locale bounded_log =
  fixes limit :: nat and log :: "'k::linorder \<Rightarrow> 'v \<Rightarrow> ('k \<times> 'v) list \<Rightarrow> ('k \<times> 'v) list"
  assumes limit_pos: "0 < limit"
    and log_ok: "bt_ok m \<Longrightarrow> bt_ok (log k v m)"
    and log_length: "bt_ok m \<Longrightarrow> length m \<le> limit \<Longrightarrow> length (log k v m) \<le> limit"
    and log_get: "bt_get (log k v m) k = Some v"
begin

definition log_all :: "('k \<times> 'v) list \<Rightarrow> ('k \<times> 'v) list" where
  "log_all es = fold (\<lambda>(k, v). log k v) es []"

lemma log_all_bounded: "bt_ok (log_all es) \<and> length (log_all es) \<le> limit"
proof -
  have "bt_ok m \<and> length m \<le> limit \<Longrightarrow>
      bt_ok (fold (\<lambda>(k, v). log k v) es m) \<and> length (fold (\<lambda>(k, v). log k v) es m) \<le> limit" for m
    by (induction es arbitrary: m) (auto simp: log_ok log_length)
  then show ?thesis by (simp add: log_all_def)
qed

end

lemma evict_cases:
  assumes "bt_ok m"
  obtains (keep) "insert_evicting limit k v m = bt_insert k v m" "bt_contains m k \<or> length m < limit"
  | (evict) e m' where "m = e # m'" "insert_evicting limit k v m = bt_insert k v m'" "\<not> bt_contains m k"
  | (empty) "m = []" "insert_evicting limit k v m = [(k, v)]"
proof (cases "\<not> bt_contains m k \<and> length m \<ge> limit")
  case True
  then show thesis
    using bt_remove_hd assms evict empty
    by (cases m) (fastforce simp: insert_evicting_def split: prod.splits)+
qed (use keep in \<open>auto simp: insert_evicting_def\<close>)

lemma insert_evicting_ok:
  assumes "bt_ok m"
  shows "bt_ok (insert_evicting limit k v m)"
  using assms
proof (cases rule: evict_cases [where limit = limit and k = k and v = v])
  case (evict e m')
  then have "bt_ok m'" using assms by (simp add: bt_ok_def)
  with evict show ?thesis by (simp add: bt_insert_ok)
qed (use assms in \<open>auto simp: bt_insert_ok, simp add: bt_ok_def\<close>)

lemma insert_evicting_length:
  assumes "bt_ok m" "length m \<le> limit" "0 < limit"
  shows "length (insert_evicting limit k v m) \<le> limit"
  using assms(1)
proof (cases rule: evict_cases [where limit = limit and k = k and v = v])
  case (evict e m')
  then have "bt_ok m'" "\<not> bt_contains m' k" using assms(1) by (auto simp: bt_ok_def bt_contains_keys)
  with evict assms(2) show ?thesis by (simp add: bt_insert_length)
qed (use assms in \<open>auto simp: bt_insert_length\<close>)

lemma insert_evicting_get [simp]: "bt_get (insert_evicting limit k v m) k = Some v"
  by (simp add: insert_evicting_def)

lemma bounded_log_evicting: "0 < limit \<Longrightarrow> bounded_log limit (insert_evicting limit)"
  by unfold_locales (simp_all add: insert_evicting_ok insert_evicting_length)

lemma insert_bounded_ok: "bt_ok m \<Longrightarrow> bt_ok (snd (insert_bounded limit k v m))"
  by (simp add: insert_bounded_def bt_insert_ok)

lemma insert_bounded_length:
  "bt_ok m \<Longrightarrow> length m \<le> limit \<Longrightarrow> length (snd (insert_bounded limit k v m)) \<le> limit"
  by (simp add: insert_bounded_def bt_insert_length)

end
