(* ===== verification/Inventory.thy ===== *)
theory Inventory
  imports Wire_Nbt Btree_Map "HOL-Library.Multiset"
begin

text \<open>
  Inventory and container state (src/src/minecraft/inventory.rs): the windows the server
  describes, the cursor, and the bounded log of click transactions. Every method of
  \<open>InventoryState\<close> is a function from the state and the fields of its packet to its events and
  the new state. The components of an item (\<open>SlotValueDefault\<close>, generated) are the type
  parameter \<open>'c\<close>; no operation looks into them. \<open>completed_transactions\<close> is a \<open>BTreeMap\<close>
  (theory \<open>Btree_Map\<close>), \<open>properties\<close> an association list with distinct keys.
\<close>

section \<open>Data\<close>

definition PLAYER_INVENTORY_WINDOW_ID :: i32 where "PLAYER_INVENTORY_WINDOW_ID = 0"
definition MAX_WINDOW_SLOTS :: nat where "MAX_WINDOW_SLOTS = 1024"
definition MAX_WINDOW_PROPERTIES :: nat where "MAX_WINDOW_PROPERTIES = 1024"
definition MAX_PENDING_TRANSACTIONS :: nat where "MAX_PENDING_TRANSACTIONS = 64"
definition MAX_COMPLETED_TRANSACTIONS :: nat where "MAX_COMPLETED_TRANSACTIONS = 128"
definition TRANSACTION_TIMEOUT_TICKS :: nat where "TRANSACTION_TIMEOUT_TICKS = 100"
definition OUTSIDE_SLOT :: i16 where "OUTSIDE_SLOT = - 999"

datatype 'c slot_value = SlotV0 | SlotDefault 'c

record 'c slot =
  sl_item_count :: i32
  sl_value :: "'c slot_value"

definition empty_slot :: "'c slot" where
  "empty_slot = \<lparr>sl_item_count = 0, sl_value = SlotV0\<rparr>"

datatype mouse_button = MouseLeft | MouseRight
datatype hotbar_destination = HotbarSlot u8 | Offhand
datatype drag_button = DragLeft | DragRight | DragMiddle
datatype drag_phase = DragStart | DragAddSlot | DragEnd

datatype inventory_click =
    Pickup "i16 option" mouse_button
  | QuickMove i16 mouse_button
  | HotbarSwap i16 hotbar_destination
  | Clone i16
  | Throw i16 bool
  | QuickCraft drag_phase drag_button "i16 option"
  | PickupAll i16

datatype gui_click =
    GuiLeft | GuiRight | GuiShiftLeft | GuiShiftRight | GuiHotbarSwap u8 | GuiOffhandSwap
  | GuiThrowOne | GuiThrowStack | GuiDoubleClick | GuiOutsideLeft | GuiOutsideRight
  | GuiDragStart drag_button | GuiDragAddSlot drag_button | GuiDragEnd drag_button | GuiCreativeClone

fun into_inventory_click :: "gui_click \<Rightarrow> i16 \<Rightarrow> inventory_click" where
  "into_inventory_click GuiLeft slot = Pickup (Some slot) MouseLeft"
| "into_inventory_click GuiRight slot = Pickup (Some slot) MouseRight"
| "into_inventory_click GuiShiftLeft slot = QuickMove slot MouseLeft"
| "into_inventory_click GuiShiftRight slot = QuickMove slot MouseRight"
| "into_inventory_click (GuiHotbarSwap hotbar_slot) slot = HotbarSwap slot (HotbarSlot hotbar_slot)"
| "into_inventory_click GuiOffhandSwap slot = HotbarSwap slot Offhand"
| "into_inventory_click GuiThrowOne slot = Throw slot False"
| "into_inventory_click GuiThrowStack slot = Throw slot True"
| "into_inventory_click GuiDoubleClick slot = PickupAll slot"
| "into_inventory_click GuiOutsideLeft slot = Pickup None MouseLeft"
| "into_inventory_click GuiOutsideRight slot = Pickup None MouseRight"
| "into_inventory_click (GuiDragStart button) slot = QuickCraft DragStart button None"
| "into_inventory_click (GuiDragAddSlot button) slot = QuickCraft DragAddSlot button (Some slot)"
| "into_inventory_click (GuiDragEnd button) slot = QuickCraft DragEnd button None"
| "into_inventory_click GuiCreativeClone slot = Clone slot"

record click_request =
  rq_transaction_id :: u64
  rq_generation :: u64
  rq_window_id :: i32
  rq_state_id :: i32
  rq_click :: inventory_click

datatype inventory_error =
    UnknownWindow i32
  | StaleState i32 i32
  | InvalidSlot i16 nat
  | InvalidHotbarSlot u8
  | CreativeOnly
  | InvalidDragPhase
  | DragInProgress
  | DuplicateTransaction u64
  | QueueFull

datatype transaction_status = Queued | Sent

record inventory_transaction =
  tx_request :: click_request
  tx_status :: transaction_status
  tx_queued_tick :: u64

datatype inventory_outcome =
    OutcomeSent
  | Confirmed i32
  | Corrected i32
  | TimedOut
  | OutcomeWindowClosed
  | Rejected inventory_error

datatype inventory_event =
    WindowOpened i32
  | WindowClosed i32
  | WindowSynchronized i32 i32 bool
  | SlotUpdated i32 i32 i16
  | CursorUpdated
  | PropertyUpdated i32 i16
  | SelectedHotbarChanged i32 bool
  | TransactionQueued u64
  | TransactionSent u64
  | TransactionFinished u64 inventory_outcome
  | TransactionRejected u64 inventory_error

text \<open>The click packet; \<open>changed_slots\<close> is only ever empty and its element type is not needed.\<close>

record 'c window_click =
  wc_window_id :: i32
  wc_state_id :: i32
  wc_slot :: i16
  wc_mouse_button :: i8
  wc_mode :: i32
  wc_changed_slots :: "(i16 \<times> 'c slot) list"
  wc_cursor_item :: "'c slot"

record 'c window =
  wi_id :: i32
  wi_kind :: i32
  wi_title :: nbt
  wi_state_id :: i32
  wi_slots :: "'c slot list"
  wi_slots_truncated :: bool
  wi_properties :: "(i16 \<times> i16) list"
  wi_synchronized_once :: bool

record 'c inventory =
  iv_player_inventory :: "'c window"
  iv_open_window :: "'c window option"
  iv_cursor :: "'c slot"
  iv_selected_hotbar_slot :: i32
  iv_pending :: "inventory_transaction list"
  iv_completed :: "(u64 \<times> inventory_outcome) list"
  iv_drag :: "drag_button option"

abbreviation tx_id :: "inventory_transaction \<Rightarrow> u64" where
  "tx_id t \<equiv> rq_transaction_id (tx_request t)"

section \<open>Windows\<close>

definition player_inventory :: "'c window" where
  "player_inventory =
     \<lparr>wi_id = PLAYER_INVENTORY_WINDOW_ID, wi_kind = 0, wi_title = NbtCompound [], wi_state_id = 0,
      wi_slots = [], wi_slots_truncated = False, wi_properties = [], wi_synchronized_once = True\<rparr>"

definition from_open :: "i32 \<Rightarrow> i32 \<Rightarrow> nbt \<Rightarrow> 'c window" where
  "from_open window_id inventory_type window_title =
     \<lparr>wi_id = window_id, wi_kind = inventory_type, wi_title = window_title, wi_state_id = 0,
      wi_slots = [], wi_slots_truncated = False, wi_properties = [], wi_synchronized_once = False\<rparr>"

definition window_set_slot :: "'c window \<Rightarrow> i16 \<Rightarrow> 'c slot \<Rightarrow> bool \<times> 'c window" where
  "window_set_slot w index item =
     (if sint index < 0 then (False, w)
      else let i = nat (sint index) in
        if i \<ge> MAX_WINDOW_SLOTS then (False, w)
        else let slots = (if i \<ge> length (wi_slots w)
               then wi_slots w @ replicate (i + 1 - length (wi_slots w)) empty_slot else wi_slots w) in
          (True, w\<lparr>wi_slots := slots[i := item]\<rparr>))"

section \<open>State\<close>

definition new_inventory :: "'c inventory" where
  "new_inventory =
     \<lparr>iv_player_inventory = player_inventory, iv_open_window = None, iv_cursor = empty_slot,
      iv_selected_hotbar_slot = 0, iv_pending = [], iv_completed = [], iv_drag = None\<rparr>"

definition lookup_window :: "'c inventory \<Rightarrow> i32 \<Rightarrow> 'c window option" where
  "lookup_window s window_id =
     (if window_id = PLAYER_INVENTORY_WINDOW_ID then Some (iv_player_inventory s)
      else case iv_open_window s of
             Some w \<Rightarrow> if wi_id w = window_id then Some w else None
           | None \<Rightarrow> None)"

text \<open>Writing through the reference that \<open>window_mut\<close> returns.\<close>

definition window_mut :: "'c inventory \<Rightarrow> i32 \<Rightarrow> ('c window \<Rightarrow> 'c window) \<Rightarrow> 'c inventory" where
  "window_mut s window_id f =
     (if window_id = PLAYER_INVENTORY_WINDOW_ID
      then s\<lparr>iv_player_inventory := f (iv_player_inventory s)\<rparr>
      else case iv_open_window s of
             Some w \<Rightarrow> if wi_id w = window_id then s\<lparr>iv_open_window := Some (f w)\<rparr> else s
           | None \<Rightarrow> s)"

section \<open>Finishing transactions\<close>

fun remove_first :: "('a \<Rightarrow> bool) \<Rightarrow> 'a list \<Rightarrow> 'a list" where
  "remove_first P [] = []"
| "remove_first P (x # xs) = (if P x then xs else x # remove_first P xs)"

definition remember_outcome :: "'c inventory \<Rightarrow> u64 \<Rightarrow> inventory_outcome \<Rightarrow> 'c inventory" where
  "remember_outcome s tid outcome =
     s\<lparr>iv_completed := insert_evicting MAX_COMPLETED_TRANSACTIONS tid outcome (iv_completed s)\<rparr>"

definition finish_transaction ::
  "'c inventory \<Rightarrow> u64 \<Rightarrow> inventory_outcome \<Rightarrow> inventory_event option \<times> 'c inventory" where
  "finish_transaction s tid outcome =
     (if list_ex (\<lambda>t. tx_id t = tid) (iv_pending s) then
        (Some (TransactionFinished tid outcome),
         remember_outcome (s\<lparr>iv_pending := remove_first (\<lambda>t. tx_id t = tid) (iv_pending s)\<rparr>) tid outcome)
      else (None, s))"

text \<open>The \<open>filter_map\<close> over transaction ids that three methods share.\<close>

fun finish_all ::
  "'c inventory \<Rightarrow> u64 list \<Rightarrow> inventory_outcome \<Rightarrow> inventory_event list \<times> 'c inventory" where
  "finish_all s [] outcome = ([], s)"
| "finish_all s (tid # tids) outcome =
     (let (event, s1) = finish_transaction s tid outcome;
          (events, s2) = finish_all s1 tids outcome in
      ((case event of Some e \<Rightarrow> e # events | None \<Rightarrow> events), s2))"

definition finish_window_transactions ::
  "'c inventory \<Rightarrow> i32 \<Rightarrow> inventory_outcome \<Rightarrow> inventory_event list \<times> 'c inventory" where
  "finish_window_transactions s window_id outcome =
     finish_all s (map tx_id (filter (\<lambda>t. rq_window_id (tx_request t) = window_id) (iv_pending s))) outcome"

definition confirms :: "i32 \<Rightarrow> i32 \<Rightarrow> inventory_transaction \<Rightarrow> bool" where
  "confirms window_id state_id t \<longleftrightarrow>
     tx_status t = Sent \<and> rq_window_id (tx_request t) = window_id \<and>
     sint state_id > sint (rq_state_id (tx_request t))"

definition finish_confirmed_transactions ::
  "'c inventory \<Rightarrow> i32 \<Rightarrow> i32 \<Rightarrow> inventory_event list \<times> 'c inventory" where
  "finish_confirmed_transactions s window_id state_id =
     finish_all s
       (map tx_id (filter (confirms window_id state_id) (iv_pending s)))
       (Confirmed state_id)"

text \<open>\<open>saturating_sub\<close> on ticks.\<close>

definition tick_age :: "u64 \<Rightarrow> inventory_transaction \<Rightarrow> nat" where
  "tick_age tick t = unat tick - unat (tx_queued_tick t)"

definition expire_transactions :: "'c inventory \<Rightarrow> u64 \<Rightarrow> inventory_event list \<times> 'c inventory" where
  "expire_transactions s tick =
     finish_all s
       (map tx_id (filter (\<lambda>t. tick_age tick t \<ge> TRANSACTION_TIMEOUT_TICKS) (iv_pending s))) TimedOut"

definition reject_transaction :: "'c inventory \<Rightarrow> u64 \<Rightarrow> inventory_error \<Rightarrow> inventory_event \<times> 'c inventory" where
  "reject_transaction s tid err = (TransactionRejected tid err, remember_outcome s tid (Rejected err))"

section \<open>Server packets\<close>

definition apply_open_window ::
  "'c inventory \<Rightarrow> i32 \<Rightarrow> i32 \<Rightarrow> nbt \<Rightarrow> inventory_event list \<times> 'c inventory" where
  "apply_open_window s window_id inventory_type window_title =
     (let (events, s1) = (case iv_open_window s of
            Some previous \<Rightarrow>
              (let (evs, s') = finish_window_transactions (s\<lparr>iv_open_window := None\<rparr>) (wi_id previous) OutcomeWindowClosed in
               (WindowClosed (wi_id previous) # evs, s'))
          | None \<Rightarrow> ([], s)) in
      (events @ [WindowOpened window_id],
       s1\<lparr>iv_open_window := Some (from_open window_id inventory_type window_title), iv_drag := None\<rparr>))"

definition apply_close_window :: "'c inventory \<Rightarrow> i32 \<Rightarrow> inventory_event list \<times> 'c inventory" where
  "apply_close_window s window_id =
     (case iv_open_window s of
        Some w \<Rightarrow>
          if wi_id w = window_id then
            (let (events, s1) = finish_window_transactions
                   (s\<lparr>iv_open_window := None, iv_drag := None\<rparr>) window_id OutcomeWindowClosed in
             (WindowClosed window_id # events, s1))
          else ([], s)
      | None \<Rightarrow> ([], s))"

definition apply_window_items ::
  "'c inventory \<Rightarrow> i32 \<Rightarrow> i32 \<Rightarrow> 'c slot list \<Rightarrow> 'c slot \<Rightarrow> inventory_event list \<times> 'c inventory" where
  "apply_window_items s window_id state_id items carried_item =
     (case lookup_window s window_id of
        None \<Rightarrow> ([CursorUpdated], s\<lparr>iv_cursor := carried_item\<rparr>)
      | Some w \<Rightarrow>
          (let s1 = (window_mut s window_id (\<lambda>w. w\<lparr>wi_slots_truncated := length items > MAX_WINDOW_SLOTS,
                       wi_slots := take MAX_WINDOW_SLOTS items, wi_state_id := state_id,
                       wi_synchronized_once := True\<rparr>))\<lparr>iv_cursor := carried_item\<rparr>;
               first_sync = (\<not> wi_synchronized_once w);
               (events, s2) = finish_window_transactions s1 window_id (Corrected state_id) in
           ([CursorUpdated, WindowSynchronized window_id state_id first_sync] @ events, s2)))"

definition apply_set_slot ::
  "'c inventory \<Rightarrow> i32 \<Rightarrow> i32 \<Rightarrow> i16 \<Rightarrow> 'c slot \<Rightarrow> inventory_event list \<times> 'c inventory" where
  "apply_set_slot s window_id state_id slot item =
     (if window_id = - 1 then ([CursorUpdated], s\<lparr>iv_cursor := item\<rparr>)
      else case lookup_window s window_id of
        None \<Rightarrow> ([], s)
      | Some w \<Rightarrow>
          (let (applied, _) = window_set_slot w slot item;
               s1 = window_mut s window_id (\<lambda>w. snd (window_set_slot (w\<lparr>wi_state_id := state_id\<rparr>) slot item)) in
           if \<not> applied then ([], s1)
           else let (events, s2) = finish_confirmed_transactions s1 window_id state_id in
             (SlotUpdated window_id state_id slot # events, s2)))"

definition apply_set_cursor_item :: "'c inventory \<Rightarrow> 'c slot \<Rightarrow> inventory_event \<times> 'c inventory" where
  "apply_set_cursor_item s contents = (CursorUpdated, s\<lparr>iv_cursor := contents\<rparr>)"

definition apply_set_player_inventory ::
  "'c inventory \<Rightarrow> i32 \<Rightarrow> 'c slot \<Rightarrow> inventory_event list \<times> 'c inventory" where
  "apply_set_player_inventory s slot_id contents =
     (if sint slot_id < - (2 ^ 15) \<or> sint slot_id > 2 ^ 15 - 1 then ([], s)
      else let slot = scast slot_id :: i16;
               (applied, w) = window_set_slot (iv_player_inventory s) slot contents in
        if \<not> applied then ([], s)
        else ([SlotUpdated PLAYER_INVENTORY_WINDOW_ID (wi_state_id w) slot], s\<lparr>iv_player_inventory := w\<rparr>))"

definition apply_craft_progress_bar ::
  "'c inventory \<Rightarrow> i32 \<Rightarrow> i16 \<Rightarrow> i16 \<Rightarrow> inventory_event option \<times> 'c inventory" where
  "apply_craft_progress_bar s window_id property val =
     (case lookup_window s window_id of
        None \<Rightarrow> (None, s)
      | Some w \<Rightarrow>
          if map_of (wi_properties w) property \<noteq> None \<or> length (wi_properties w) < MAX_WINDOW_PROPERTIES
          then (Some (PropertyUpdated window_id property),
                window_mut s window_id (\<lambda>w. w\<lparr>wi_properties := AList.update property val (wi_properties w)\<rparr>))
          else (None, s))"

definition select_hotbar_slot :: "'c inventory \<Rightarrow> i16 \<Rightarrow> inventory_event \<times> 'c inventory" where
  "select_hotbar_slot s slot =
     (let applied = (0 \<le> sint slot \<and> sint slot \<le> 8);
          s1 = (if applied then s\<lparr>iv_selected_hotbar_slot := scast slot\<rparr> else s) in
      (SelectedHotbarChanged (iv_selected_hotbar_slot s1) applied, s1))"

definition apply_held_item_slot :: "'c inventory \<Rightarrow> i32 \<Rightarrow> inventory_event \<times> 'c inventory" where
  "apply_held_item_slot s slot =
     (let applied = (0 \<le> sint slot \<and> sint slot \<le> 8);
          s1 = (if applied then s\<lparr>iv_selected_hotbar_slot := slot\<rparr> else s) in
      (SelectedHotbarChanged (iv_selected_hotbar_slot s1) applied, s1))"

section \<open>Clicks\<close>

definition validate_slot :: "i16 \<Rightarrow> nat \<Rightarrow> inventory_error + unit" where
  "validate_slot slot slot_count =
     (if sint slot < 0 then Err (InvalidSlot slot slot_count)
      else if nat (sint slot) \<ge> slot_count then Err (InvalidSlot slot slot_count)
      else Ok ())"

definition validate_optional_slot :: "i16 option \<Rightarrow> nat \<Rightarrow> inventory_error + i16" where
  "validate_optional_slot slot slot_count =
     (case slot of
        Some sl \<Rightarrow> and_then (validate_slot sl slot_count) (\<lambda>_. Ok sl)
      | None \<Rightarrow> Ok OUTSIDE_SLOT)"

fun mouse_button_code :: "mouse_button \<Rightarrow> i8" where
  "mouse_button_code MouseLeft = 0"
| "mouse_button_code MouseRight = 1"

fun drag_base :: "drag_button \<Rightarrow> i8" where
  "drag_base DragLeft = 0"
| "drag_base DragRight = 4"
| "drag_base DragMiddle = 8"

definition drag_button_code :: "drag_button \<Rightarrow> drag_phase \<Rightarrow> i8" where
  "drag_button_code button phase =
     drag_base button + (case phase of DragStart \<Rightarrow> 0 | DragAddSlot \<Rightarrow> 1 | DragEnd \<Rightarrow> 2)"

definition drag_wire_slot :: "drag_phase \<Rightarrow> i16 option \<Rightarrow> nat \<Rightarrow> inventory_error + i16" where
  "drag_wire_slot phase slot slot_count =
     (case (phase, slot) of
        (DragStart, None) \<Rightarrow> Ok OUTSIDE_SLOT
      | (DragEnd, None) \<Rightarrow> Ok OUTSIDE_SLOT
      | (DragAddSlot, Some sl) \<Rightarrow> and_then (validate_slot sl slot_count) (\<lambda>_. Ok sl)
      | _ \<Rightarrow> Err InvalidDragPhase)"

definition drag_transition :: "drag_phase \<Rightarrow> drag_button \<Rightarrow> drag_button option \<Rightarrow> inventory_error + drag_button option" where
  "drag_transition phase button drag =
     (case phase of
        DragStart \<Rightarrow> if drag = None then Ok (Some button) else Err InvalidDragPhase
      | DragAddSlot \<Rightarrow> if drag = Some button then Ok drag else Err InvalidDragPhase
      | DragEnd \<Rightarrow> if drag = Some button then Ok None else Err InvalidDragPhase)"

fun is_quick_craft :: "inventory_click \<Rightarrow> bool" where
  "is_quick_craft (QuickCraft _ _ _) = True"
| "is_quick_craft _ = False"

text \<open>The wire slot, button and mode of a valid click, and the drag state after it.\<close>

fun click_wire ::
  "drag_button option \<Rightarrow> inventory_click \<Rightarrow> nat \<Rightarrow> bool \<Rightarrow> inventory_error + (i16 \<times> i8 \<times> i32) \<times> drag_button option" where
  "click_wire drag (Pickup slot button) n creative =
     and_then (validate_optional_slot slot n) (\<lambda>sl. Ok ((sl, mouse_button_code button, 0), drag))"
| "click_wire drag (QuickMove slot button) n creative =
     and_then (validate_slot slot n) (\<lambda>_. Ok ((slot, mouse_button_code button, 1), drag))"
| "click_wire drag (HotbarSwap slot destination) n creative =
     and_then (validate_slot slot n) (\<lambda>_.
       case destination of
         HotbarSlot sl \<Rightarrow> if sl \<le> 8 then Ok ((slot, ucast sl, 2), drag) else Err (InvalidHotbarSlot sl)
       | Offhand \<Rightarrow> Ok ((slot, 40, 2), drag))"
| "click_wire drag (Clone slot) n creative =
     and_then (validate_slot slot n) (\<lambda>_. if creative then Ok ((slot, 2, 3), drag) else Err CreativeOnly)"
| "click_wire drag (Throw slot whole_stack) n creative =
     and_then (validate_slot slot n) (\<lambda>_. Ok ((slot, if whole_stack then 1 else 0, 4), drag))"
| "click_wire drag (QuickCraft phase button slot) n creative =
     (if button = DragMiddle \<and> \<not> creative then Err CreativeOnly
      else and_then (drag_wire_slot phase slot n) (\<lambda>sl.
        and_then (drag_transition phase button drag) (\<lambda>drag'.
          Ok ((sl, drag_button_code button phase, 5), drag'))))"
| "click_wire drag (PickupAll slot) n creative =
     and_then (validate_slot slot n) (\<lambda>_. Ok ((slot, 0, 6), drag))"

definition validate_click ::
  "'c inventory \<Rightarrow> inventory_click \<Rightarrow> nat \<Rightarrow> bool \<Rightarrow> (inventory_error + i16 \<times> i8 \<times> i32) \<times> 'c inventory" where
  "validate_click s click slot_count creative_mode =
     (if \<not> is_quick_craft click \<and> iv_drag s \<noteq> None then (Err DragInProgress, s)
      else case click_wire (iv_drag s) click slot_count creative_mode of
             Err e \<Rightarrow> (Err e, s)
           | Ok (wire, drag) \<Rightarrow> (Ok wire, s\<lparr>iv_drag := drag\<rparr>))"

record 'c prepared_click =
  pc_packet :: "'c window_click"
  pc_event :: inventory_event

definition prepare_click ::
  "'c inventory \<Rightarrow> click_request \<Rightarrow> u64 \<Rightarrow> bool \<Rightarrow> (inventory_error + 'c prepared_click) \<times> 'c inventory" where
  "prepare_click s rq tick creative_mode =
     (let tid = rq_transaction_id rq in
      if length (iv_pending s) \<ge> MAX_PENDING_TRANSACTIONS then (Err QueueFull, s)
      else if list_ex (\<lambda>t. tx_id t = tid) (iv_pending s) \<or> bt_contains (iv_completed s) tid
        then (Err (DuplicateTransaction tid), s)
      else case lookup_window s (rq_window_id rq) of
        None \<Rightarrow> (Err (UnknownWindow (rq_window_id rq)), s)
      | Some w \<Rightarrow>
          if rq_state_id rq \<noteq> wi_state_id w then (Err (StaleState (rq_state_id rq) (wi_state_id w)), s)
          else case validate_click s (rq_click rq) (length (wi_slots w)) creative_mode of
            (Err e, s1) \<Rightarrow> (Err e, s1)
          | (Ok (slot, button, mode), s1) \<Rightarrow>
              (Ok \<lparr>pc_packet = \<lparr>wc_window_id = rq_window_id rq, wc_state_id = rq_state_id rq, wc_slot = slot,
                     wc_mouse_button = button, wc_mode = mode, wc_changed_slots = [],
                     wc_cursor_item = iv_cursor s1\<rparr>,
                   pc_event = TransactionQueued tid\<rparr>,
               s1\<lparr>iv_pending := iv_pending s1 @
                   [\<lparr>tx_request = rq, tx_status = Queued, tx_queued_tick = tick\<rparr>]\<rparr>))"

fun mark_first_sent :: "u64 \<Rightarrow> inventory_transaction list \<Rightarrow> inventory_transaction list" where
  "mark_first_sent tid [] = []"
| "mark_first_sent tid (t # ts) = (if tx_id t = tid then t\<lparr>tx_status := Sent\<rparr> # ts else t # mark_first_sent tid ts)"

fun finishes_without_confirmation :: "inventory_click \<Rightarrow> bool" where
  "finishes_without_confirmation (QuickCraft DragStart _ _) = True"
| "finishes_without_confirmation (QuickCraft DragAddSlot _ _) = True"
| "finishes_without_confirmation _ = False"

definition mark_sent :: "'c inventory \<Rightarrow> u64 \<Rightarrow> inventory_event list \<times> 'c inventory" where
  "mark_sent s tid =
     (case find (\<lambda>t. tx_id t = tid) (iv_pending s) of
        None \<Rightarrow> ([], s)
      | Some t \<Rightarrow>
          (let s1 = s\<lparr>iv_pending := mark_first_sent tid (iv_pending s)\<rparr> in
           if finishes_without_confirmation (rq_click (tx_request t)) then
             (let (event, s2) = finish_transaction s1 tid OutcomeSent in
              (TransactionSent tid # (case event of Some e \<Rightarrow> [e] | None \<Rightarrow> []), s2))
           else ([TransactionSent tid], s1)))"

section \<open>Runs\<close>

text \<open>
  One call of a method by the play loop, with the events it emits. A click that is refused is
  recorded by \<open>reject_transaction\<close>, as \<open>send_inventory_click\<close> (play.rs) does.
\<close>

inductive inv_step :: "'c inventory \<Rightarrow> inventory_event list \<Rightarrow> 'c inventory \<Rightarrow> bool" where
  Open: "apply_open_window s wid kind title = (evs, s') \<Longrightarrow> inv_step s evs s'"
| Close: "apply_close_window s wid = (evs, s') \<Longrightarrow> inv_step s evs s'"
| Items: "apply_window_items s wid sid items carried = (evs, s') \<Longrightarrow> inv_step s evs s'"
| SetSlot: "apply_set_slot s wid sid slot item = (evs, s') \<Longrightarrow> inv_step s evs s'"
| SetCursor: "apply_set_cursor_item s item = (ev, s') \<Longrightarrow> inv_step s [ev] s'"
| SetPlayer: "apply_set_player_inventory s slot_id item = (evs, s') \<Longrightarrow> inv_step s evs s'"
| Property: "apply_craft_progress_bar s wid property val = (ev, s') \<Longrightarrow>
    inv_step s (case ev of Some e \<Rightarrow> [e] | None \<Rightarrow> []) s'"
| Select: "select_hotbar_slot s sl = (ev, s') \<Longrightarrow> inv_step s [ev] s'"
| Held: "apply_held_item_slot s sl' = (ev, s') \<Longrightarrow> inv_step s [ev] s'"
| Click: "prepare_click s rq tick creative = (Ok pc, s') \<Longrightarrow> inv_step s [pc_event pc] s'"
| Refused: "prepare_click s rq tick creative = (Err err, s1) \<Longrightarrow>
    reject_transaction s1 (rq_transaction_id rq) err = (ev, s') \<Longrightarrow> inv_step s [ev] s'"
| MarkSent: "mark_sent s tid = (evs, s') \<Longrightarrow> inv_step s evs s'"
| Expire: "expire_transactions s tick = (evs, s') \<Longrightarrow> inv_step s evs s'"

inductive inv_run :: "'c inventory \<Rightarrow> inventory_event list \<Rightarrow> 'c inventory \<Rightarrow> bool" where
  Stop: "inv_run s [] s"
| Step: "inv_run s evs s1 \<Longrightarrow> inv_step s1 evs1 s2 \<Longrightarrow> inv_run s (evs @ evs1) s2"

section \<open>The invariant\<close>

definition window_ok :: "'c window \<Rightarrow> bool" where
  "window_ok w \<longleftrightarrow> length (wi_slots w) \<le> MAX_WINDOW_SLOTS \<and>
     length (wi_properties w) \<le> MAX_WINDOW_PROPERTIES \<and> distinct (map fst (wi_properties w))"

definition inv_ok :: "'c inventory \<Rightarrow> bool" where
  "inv_ok s \<longleftrightarrow>
     window_ok (iv_player_inventory s) \<and> wi_id (iv_player_inventory s) = PLAYER_INVENTORY_WINDOW_ID \<and>
     (case iv_open_window s of None \<Rightarrow> True | Some w \<Rightarrow> window_ok w) \<and>
     0 \<le> sint (iv_selected_hotbar_slot s) \<and> sint (iv_selected_hotbar_slot s) \<le> 8 \<and>
     length (iv_pending s) \<le> MAX_PENDING_TRANSACTIONS \<and> distinct (map tx_id (iv_pending s)) \<and>
     bt_ok (iv_completed s) \<and> length (iv_completed s) \<le> MAX_COMPLETED_TRANSACTIONS"

lemma new_inventory_ok: "inv_ok new_inventory"
  by (simp add: inv_ok_def new_inventory_def player_inventory_def window_ok_def)

subsection \<open>Finishing a set of transactions\<close>

lemma remove_first_unique:
  "distinct (map f xs) \<Longrightarrow> remove_first (\<lambda>x. f x = a) xs = filter (\<lambda>x. f x \<noteq> a) xs"
proof (induction xs)
  case (Cons x xs)
  from Cons.prems have "filter (\<lambda>y. f y \<noteq> f x) xs = xs" by (auto simp: filter_id_conv image_iff)
  with Cons show ?case by auto
qed simp

definition forget_transactions :: "u64 list \<Rightarrow> inventory_outcome \<Rightarrow> 'c inventory \<Rightarrow> 'c inventory" where
  "forget_transactions tids outcome s =
     s\<lparr>iv_pending := filter (\<lambda>t. tx_id t \<notin> set tids) (iv_pending s),
       iv_completed := fold (\<lambda>tid. insert_evicting MAX_COMPLETED_TRANSACTIONS tid outcome) tids (iv_completed s)\<rparr>"

text \<open>
  Finishing transactions that are pending gives one event each, in order, and removes exactly
  those.
\<close>

lemma finish_all_eq:
  "distinct (map tx_id (iv_pending s)) \<Longrightarrow> distinct tids \<Longrightarrow> set tids \<subseteq> set (map tx_id (iv_pending s)) \<Longrightarrow>
   finish_all s tids outcome = (map (\<lambda>tid. TransactionFinished tid outcome) tids, forget_transactions tids outcome s)"
proof (induction tids arbitrary: s)
  case Nil
  then show ?case by (simp add: forget_transactions_def)
next
  case (Cons tid tids)
  let ?s1 = "remember_outcome (s\<lparr>iv_pending := filter (\<lambda>t. tx_id t \<noteq> tid) (iv_pending s)\<rparr>) tid outcome"
  have f: "finish_transaction s tid outcome = (Some (TransactionFinished tid outcome), ?s1)"
    using Cons.prems by (auto simp: finish_transaction_def list_ex_iff remove_first_unique)
  have "finish_all ?s1 tids outcome =
      (map (\<lambda>tid. TransactionFinished tid outcome) tids, forget_transactions tids outcome ?s1)"
  proof (rule Cons.IH)
    show "set tids \<subseteq> set (map tx_id (iv_pending ?s1))"
      using Cons.prems(2,3) by (fastforce simp: remember_outcome_def)
  qed (use Cons.prems in \<open>auto simp: remember_outcome_def distinct_map_filter\<close>)
  moreover have "forget_transactions tids outcome ?s1 = forget_transactions (tid # tids) outcome s"
    by (simp add: forget_transactions_def remember_outcome_def conj_commute)
  ultimately show ?case using f by simp
qed

lemma finish_selected:
  assumes "distinct (map tx_id (iv_pending s))"
  shows "finish_all s (map tx_id (filter P (iv_pending s))) outcome =
    (map (\<lambda>t. TransactionFinished (tx_id t) outcome) (filter P (iv_pending s)),
     forget_transactions (map tx_id (filter P (iv_pending s))) outcome s)"
  using finish_all_eq [OF assms, of "map tx_id (filter P (iv_pending s))" outcome] assms
  by (auto simp: distinct_map_filter comp_def)

lemma forget_selected_pending:
  assumes "distinct (map tx_id (iv_pending s))"
  shows "iv_pending (forget_transactions (map tx_id (filter P (iv_pending s))) outcome s) =
    filter (\<lambda>t. \<not> P t) (iv_pending s)"
proof -
  have "tx_id t \<notin> tx_id ` {x \<in> set (iv_pending s). P x} \<longleftrightarrow> \<not> P t" if "t \<in> set (iv_pending s)" for t
    using that assms by (auto simp: distinct_map inj_on_def)
  then show ?thesis by (auto simp: forget_transactions_def intro: filter_cong)
qed

lemma forget_completed:
  assumes "bt_ok m" "length m \<le> MAX_COMPLETED_TRANSACTIONS"
  shows "bt_ok (fold (\<lambda>tid. insert_evicting MAX_COMPLETED_TRANSACTIONS tid outcome) tids m) \<and>
    length (fold (\<lambda>tid. insert_evicting MAX_COMPLETED_TRANSACTIONS tid outcome) tids m) \<le> MAX_COMPLETED_TRANSACTIONS"
  using assms
  by (induction tids arbitrary: m)
     (simp_all add: insert_evicting_ok insert_evicting_length MAX_COMPLETED_TRANSACTIONS_def)

lemma forget_frame [simp]:
  "iv_player_inventory (forget_transactions tids outcome s) = iv_player_inventory s"
  "iv_open_window (forget_transactions tids outcome s) = iv_open_window s"
  "iv_cursor (forget_transactions tids outcome s) = iv_cursor s"
  "iv_selected_hotbar_slot (forget_transactions tids outcome s) = iv_selected_hotbar_slot s"
  "iv_drag (forget_transactions tids outcome s) = iv_drag s"
  by (simp_all add: forget_transactions_def)

lemma forget_shape:
  "forget_transactions tids outcome s =
   s\<lparr>iv_pending := iv_pending (forget_transactions tids outcome s),
     iv_completed := iv_completed (forget_transactions tids outcome s)\<rparr>"
  by (simp add: forget_transactions_def)

lemma forget_ok: "inv_ok s \<Longrightarrow> inv_ok (forget_transactions tids outcome s)"
  using forget_completed [of "iv_completed s" outcome tids]
  by (auto simp: inv_ok_def forget_transactions_def distinct_map_filter intro: order_trans [OF length_filter_le])

lemma remember_ok: "inv_ok s \<Longrightarrow> inv_ok (remember_outcome s tid outcome)"
  by (auto simp: inv_ok_def remember_outcome_def insert_evicting_ok insert_evicting_length
      MAX_COMPLETED_TRANSACTIONS_def)

lemma inv_ok_distinct: "inv_ok s \<Longrightarrow> distinct (map tx_id (iv_pending s))"
  by (simp add: inv_ok_def)

lemmas finishers = finish_window_transactions_def finish_confirmed_transactions_def expire_transactions_def

subsection \<open>Windows\<close>

lemma window_set_slot_ok: "window_ok w \<Longrightarrow> window_ok (snd (window_set_slot w index item))"
  by (auto simp: window_set_slot_def window_ok_def Let_def)

lemma window_set_slot_id [simp]:
  "wi_id (snd (window_set_slot w index item)) = wi_id w"
  "wi_state_id (snd (window_set_slot w index item)) = wi_state_id w"
  by (auto simp: window_set_slot_def Let_def)

lemma window_ok_updates [simp]:
  "window_ok (w\<lparr>wi_state_id := sid\<rparr>) = window_ok w"
  "wi_id (w\<lparr>wi_state_id := sid\<rparr>) = wi_id w"
  by (simp_all add: window_ok_def)

lemma window_mut_frame [simp]:
  "iv_cursor (window_mut s wid f) = iv_cursor s"
  "iv_selected_hotbar_slot (window_mut s wid f) = iv_selected_hotbar_slot s"
  "iv_pending (window_mut s wid f) = iv_pending s"
  "iv_completed (window_mut s wid f) = iv_completed s"
  "iv_drag (window_mut s wid f) = iv_drag s"
  by (simp_all add: window_mut_def split: option.splits)

lemma window_mut_ok:
  assumes "inv_ok s" "\<And>w. lookup_window s wid = Some w \<Longrightarrow> window_ok w \<Longrightarrow> window_ok (f w) \<and> wi_id (f w) = wi_id w"
  shows "inv_ok (window_mut s wid f)"
  using assms by (auto simp: inv_ok_def window_mut_def lookup_window_def split: option.splits if_splits)

lemma lookup_window_mut:
  assumes "\<And>w. wi_id (f w) = wi_id w"
  shows "lookup_window (window_mut s wid f) wid' =
    (if wid' = wid then map_option f (lookup_window s wid) else lookup_window s wid')"
  using assms by (auto simp: lookup_window_def window_mut_def split: option.splits)

subsection \<open>Events of a run\<close>

fun queued_ids :: "inventory_event list \<Rightarrow> u64 list" where
  "queued_ids [] = []"
| "queued_ids (TransactionQueued tid # evs) = tid # queued_ids evs"
| "queued_ids (_ # evs) = queued_ids evs"

fun finished_ids :: "inventory_event list \<Rightarrow> u64 list" where
  "finished_ids [] = []"
| "finished_ids (TransactionFinished tid _ # evs) = tid # finished_ids evs"
| "finished_ids (_ # evs) = finished_ids evs"

lemma queued_ids_append [simp]: "queued_ids (a @ b) = queued_ids a @ queued_ids b"
  by (induction a rule: queued_ids.induct) auto

lemma finished_ids_append [simp]: "finished_ids (a @ b) = finished_ids a @ finished_ids b"
  by (induction a rule: finished_ids.induct) auto

lemma ids_of_finished [simp]:
  "queued_ids (map (\<lambda>t. TransactionFinished (g t) outcome) ts) = []"
  "finished_ids (map (\<lambda>t. TransactionFinished (g t) outcome) ts) = map g ts"
  by (induction ts) auto

text \<open>
  What a step keeps: the invariant, and the account of transactions. Those that were pending or
  are queued by the step are pending afterwards or finished by it, each once.
\<close>

definition step_ok :: "'c inventory \<Rightarrow> inventory_event list \<Rightarrow> 'c inventory \<Rightarrow> bool" where
  "step_ok s evs s' \<longleftrightarrow> inv_ok s' \<and>
     mset (finished_ids evs) + mset (map tx_id (iv_pending s')) =
     mset (map tx_id (iv_pending s)) + mset (queued_ids evs)"

lemma step_ok_quiet:
  "inv_ok s' \<Longrightarrow> iv_pending s' = iv_pending s \<Longrightarrow> finished_ids evs = [] \<Longrightarrow> queued_ids evs = [] \<Longrightarrow> step_ok s evs s'"
  by (simp add: step_ok_def)

lemma step_ok_Cons:
  "step_ok s evs s' \<Longrightarrow> finished_ids [ev] = [] \<Longrightarrow> queued_ids [ev] = [] \<Longrightarrow> step_ok s (ev # evs) s'"
  by (cases ev) (simp_all add: step_ok_def)

lemma step_ok_start: "step_ok s0 evs s' \<Longrightarrow> iv_pending s0 = iv_pending s \<Longrightarrow> step_ok s evs s'"
  by (simp add: step_ok_def)

lemma filter_partition_mset: "mset (filter P xs) + mset (filter (\<lambda>x. \<not> P x) xs) = mset xs"
  by (induction xs) auto

lemma finish_selected_step:
  assumes "inv_ok s" "finish_all s (map tx_id (filter P (iv_pending s))) outcome = (evs, s')"
  shows "step_ok s evs s'"
proof -
  note d = inv_ok_distinct [OF assms(1)]
  have evs: "evs = map (\<lambda>t. TransactionFinished (tx_id t) outcome) (filter P (iv_pending s))"
    and s': "s' = forget_transactions (map tx_id (filter P (iv_pending s))) outcome s"
    using assms(2) finish_selected [OF d, of P outcome] by auto
  have "mset (map tx_id (filter P (iv_pending s))) + mset (map tx_id (filter (\<lambda>t. \<not> P t) (iv_pending s))) =
      mset (map tx_id (iv_pending s))"
    unfolding mset_map image_mset_union [symmetric] filter_partition_mset ..
  with forget_ok [OF assms(1)] show ?thesis
    unfolding step_ok_def evs s' forget_selected_pending [OF d] by simp
qed

lemma finishers_step:
  assumes "inv_ok s"
  shows "finish_window_transactions s wid outcome = (evs, s') \<Longrightarrow> step_ok s evs s'"
    and "finish_confirmed_transactions s wid sid = (evs, s') \<Longrightarrow> step_ok s evs s'"
    and "expire_transactions s tick = (evs, s') \<Longrightarrow> step_ok s evs s'"
  unfolding finishers by (erule finish_selected_step [OF assms])+

subsection \<open>Every operation keeps the invariant and the account\<close>

lemma open_window_step:
  assumes "inv_ok s" "apply_open_window s wid kind title = (evs, s')"
  shows "step_ok s evs s'"
proof -
  have new: "inv_ok s1 \<Longrightarrow> inv_ok (s1\<lparr>iv_open_window := Some (from_open wid kind title), iv_drag := None\<rparr>)" for s1
    by (auto simp: inv_ok_def from_open_def window_ok_def split: option.splits)
  show ?thesis
  proof (cases "iv_open_window s")
    case None
    with assms new [OF assms(1)] show ?thesis by (auto simp: apply_open_window_def step_ok_def)
  next
    case (Some w)
    obtain evs1 s1 where f:
      "finish_window_transactions (s\<lparr>iv_open_window := None\<rparr>) (wi_id w) OutcomeWindowClosed = (evs1, s1)" by fastforce
    have "inv_ok (s\<lparr>iv_open_window := None\<rparr>)" using assms(1) by (simp add: inv_ok_def)
    from finishers_step(1) [OF this f] have "step_ok (s\<lparr>iv_open_window := None\<rparr>) evs1 s1" .
    moreover from assms(2) Some f have "evs = WindowClosed (wi_id w) # evs1 @ [WindowOpened wid]"
        "s' = s1\<lparr>iv_open_window := Some (from_open wid kind title), iv_drag := None\<rparr>"
      by (simp_all add: apply_open_window_def)
    ultimately show ?thesis using new [of s1] by (simp add: step_ok_def)
  qed
qed

lemma close_window_step:
  assumes "inv_ok s" "apply_close_window s wid = (evs, s')"
  shows "step_ok s evs s'"
proof (cases "evs = [] \<and> s' = s")
  case True
  with assms(1) show ?thesis by (simp add: step_ok_def)
next
  case False
  let ?s = "s\<lparr>iv_open_window := None, iv_drag := None\<rparr>"
  from assms(2) False obtain evs1 where
    f: "finish_window_transactions ?s wid OutcomeWindowClosed = (evs1, s')" "evs = WindowClosed wid # evs1"
    by (auto simp: apply_close_window_def split: option.splits if_splits prod.splits)
  have "inv_ok ?s" using assms(1) by (simp add: inv_ok_def)
  from finishers_step(1) [OF this f(1)] f(2) show ?thesis by (simp add: step_ok_def)
qed

lemma window_items_step:
  assumes "inv_ok s" "apply_window_items s wid sid items carried = (evs, s')"
  shows "step_ok s evs s'"
proof (cases "lookup_window s wid")
  case None
  with assms show ?thesis by (auto simp: apply_window_items_def step_ok_def inv_ok_def)
next
  case (Some w)
  let ?f = "\<lambda>w. w\<lparr>wi_slots_truncated := length items > MAX_WINDOW_SLOTS,
      wi_slots := take MAX_WINDOW_SLOTS items, wi_state_id := sid, wi_synchronized_once := True\<rparr>"
  let ?s = "(window_mut s wid ?f)\<lparr>iv_cursor := carried\<rparr>"
  from assms(2) Some obtain evs1 where
    f: "finish_window_transactions ?s wid (Corrected sid) = (evs1, s')"
      "evs = [CursorUpdated, WindowSynchronized wid sid (\<not> wi_synchronized_once w)] @ evs1"
    by (auto simp: apply_window_items_def Let_def split: prod.splits)
  have "inv_ok (window_mut s wid ?f)" using assms(1) by (rule window_mut_ok) (simp add: window_ok_def)
  then have "inv_ok ?s" by (simp add: inv_ok_def)
  from finishers_step(1) [OF this f(1)] f(2) show ?thesis by (simp add: step_ok_def)
qed

lemma set_slot_step:
  assumes "inv_ok s" "apply_set_slot s wid sid slot item = (evs, s')"
  shows "step_ok s evs s'"
proof -
  let ?s = "window_mut s wid (\<lambda>w. snd (window_set_slot (w\<lparr>wi_state_id := sid\<rparr>) slot item))"
  have ok: "inv_ok ?s" using assms(1) by (rule window_mut_ok) (simp add: window_set_slot_ok)
  consider (cursor) "evs = [CursorUpdated]" "s' = s\<lparr>iv_cursor := item\<rparr>" | (unknown) "evs = []" "s' = s"
    | (refused) "evs = []" "s' = ?s"
    | (applied) evs1 where "finish_confirmed_transactions ?s wid sid = (evs1, s')" "evs = SlotUpdated wid sid slot # evs1"
    using assms(2) by (auto simp: apply_set_slot_def Let_def split: if_splits option.splits prod.splits)
  then show ?thesis
  proof cases
    case (applied evs1)
    from finishers_step(2) [OF ok applied(1)] applied(2) show ?thesis by (simp add: step_ok_def)
  qed (use assms(1) ok in \<open>auto simp: step_ok_def inv_ok_def\<close>)
qed

lemma length_update_bounded:
  "distinct (map fst m) \<Longrightarrow> map_of m k \<noteq> None \<or> length m < n \<Longrightarrow> length m \<le> n \<Longrightarrow> length (AList.update k v m) \<le> n"
proof -
  have l: "length (AList.update k v m) = (if map_of m k = None then Suc (length m) else length m)"
    by (induction m) auto
  assume "map_of m k \<noteq> None \<or> length m < n" "length m \<le> n"
  with l show ?thesis by auto
qed

lemma sint_scast_i16: "sint (scast (v::i16) :: i32) = sint v"
proof -
  have "- (2 ^ 31) \<le> sint v" "sint v < 2 ^ 31"
    using sint_ge [of v] sint_less [of v] by simp_all
  then show ?thesis by (simp add: signed_scast_eq signed_take_bit_int_eq_self)
qed

lemma set_player_inventory_step:
  assumes "inv_ok s" "apply_set_player_inventory s slot_id item = (evs, s')"
  shows "step_ok s evs s'"
proof -
  have "inv_ok (s\<lparr>iv_player_inventory := snd (window_set_slot (iv_player_inventory s) sl item)\<rparr>)" for sl
    using assms(1) window_set_slot_ok by (auto simp: inv_ok_def)
  with assms show ?thesis
    by (auto simp: apply_set_player_inventory_def Let_def split: if_splits prod.splits intro!: step_ok_quiet) (metis snd_conv)+
qed

lemma craft_progress_bar_step:
  assumes "inv_ok s" "apply_craft_progress_bar s wid property val = (ev, s')"
  shows "step_ok s (case ev of Some e \<Rightarrow> [e] | None \<Rightarrow> []) s'"
proof (cases ev)
  case None
  with assms show ?thesis by (auto simp: apply_craft_progress_bar_def step_ok_def split: option.splits if_splits)
next
  case (Some e)
  with assms(2) obtain w where w: "lookup_window s wid = Some w"
      "map_of (wi_properties w) property \<noteq> None \<or> length (wi_properties w) < MAX_WINDOW_PROPERTIES"
      "e = PropertyUpdated wid property"
      "s' = window_mut s wid (\<lambda>w. w\<lparr>wi_properties := AList.update property val (wi_properties w)\<rparr>)"
    by (auto simp: apply_craft_progress_bar_def split: option.splits if_splits)
  have "inv_ok s'" unfolding w(4) using assms(1)
  proof (rule window_mut_ok)
    fix w'
    assume "lookup_window s wid = Some w'" "window_ok w'"
    with w(1,2) show "window_ok (w'\<lparr>wi_properties := AList.update property val (wi_properties w')\<rparr>) \<and>
        wi_id (w'\<lparr>wi_properties := AList.update property val (wi_properties w')\<rparr>) = wi_id w'"
      by (auto simp: window_ok_def distinct_update length_update_bounded map_of_eq_None_iff)
  qed
  with w(3,4) Some show ?thesis by (simp add: step_ok_def)
qed

lemma hotbar_step:
  assumes "inv_ok s"
  shows "select_hotbar_slot s sl = (ev, s') \<Longrightarrow> step_ok s [ev] s'"
    and "apply_held_item_slot s sl' = (ev, s') \<Longrightarrow> step_ok s [ev] s'"
    and "apply_set_cursor_item s item = (ev, s') \<Longrightarrow> step_ok s [ev] s'"
  using assms
  by (auto simp: select_hotbar_slot_def apply_held_item_slot_def apply_set_cursor_item_def Let_def step_ok_def
      inv_ok_def sint_scast_i16 split: if_splits)

lemma validate_click_frame:
  assumes "validate_click s click n creative = (r, s1)"
  shows "(\<exists>drag. s1 = s\<lparr>iv_drag := drag\<rparr>) \<and> (\<forall>e. r = Err e \<longrightarrow> s1 = s)"
proof -
  have "\<exists>drag. s = s\<lparr>iv_drag := drag\<rparr>" by (rule exI [of _ "iv_drag s"]) simp
  with assms show ?thesis
    unfolding validate_click_def by (auto split: if_splits sum.splits prod.splits)
qed

text \<open>The click as it enters the log, when \<open>prepare_click\<close> accepts it.\<close>

lemma prepare_click_Ok:
  assumes "prepare_click s rq tick creative = (Ok pc, s')"
  obtains w slot button mode drag where "lookup_window s (rq_window_id rq) = Some w"
    "rq_state_id rq = wi_state_id w" "length (iv_pending s) < MAX_PENDING_TRANSACTIONS"
    "rq_transaction_id rq \<notin> set (map tx_id (iv_pending s))" "\<not> bt_contains (iv_completed s) (rq_transaction_id rq)"
    "validate_click s (rq_click rq) (length (wi_slots w)) creative = (Ok (slot, button, mode), s\<lparr>iv_drag := drag\<rparr>)"
    "pc = \<lparr>pc_packet = \<lparr>wc_window_id = rq_window_id rq, wc_state_id = rq_state_id rq, wc_slot = slot,
        wc_mouse_button = button, wc_mode = mode, wc_changed_slots = [], wc_cursor_item = iv_cursor s\<rparr>,
      pc_event = TransactionQueued (rq_transaction_id rq)\<rparr>"
    "s' = s\<lparr>iv_drag := drag, iv_pending := iv_pending s @
        [\<lparr>tx_request = rq, tx_status = Queued, tx_queued_tick = tick\<rparr>]\<rparr>"
proof -
  from assms obtain w slot button mode s1 where
    w: "lookup_window s (rq_window_id rq) = Some w" "rq_state_id rq = wi_state_id w"
      "length (iv_pending s) < MAX_PENDING_TRANSACTIONS"
      "\<not> list_ex (\<lambda>t. tx_id t = rq_transaction_id rq) (iv_pending s)"
      "\<not> bt_contains (iv_completed s) (rq_transaction_id rq)" and
    v: "validate_click s (rq_click rq) (length (wi_slots w)) creative = (Ok (slot, button, mode), s1)" and
    pc: "pc = \<lparr>pc_packet = \<lparr>wc_window_id = rq_window_id rq, wc_state_id = rq_state_id rq, wc_slot = slot,
        wc_mouse_button = button, wc_mode = mode, wc_changed_slots = [], wc_cursor_item = iv_cursor s1\<rparr>,
      pc_event = TransactionQueued (rq_transaction_id rq)\<rparr>"
      "s' = s1\<lparr>iv_pending := iv_pending s1 @ [\<lparr>tx_request = rq, tx_status = Queued, tx_queued_tick = tick\<rparr>]\<rparr>"
    by (auto simp: prepare_click_def Let_def split: if_splits option.splits prod.splits sum.splits)
  from validate_click_frame [OF v] obtain drag where s1: "s1 = s\<lparr>iv_drag := drag\<rparr>" by blast
  show thesis
    by (rule that [OF w(1,2,3) _ w(5) v [unfolded s1]]) (use w(4) pc s1 in \<open>auto simp: list_ex_iff\<close>)
qed

lemma prepare_click_Err: "prepare_click s rq tick creative = (Err e, s') \<Longrightarrow> s' = s"
  by (auto simp: prepare_click_def Let_def dest: validate_click_frame
      split: if_splits option.splits prod.splits sum.splits)

lemma prepare_click_step:
  assumes "inv_ok s" "prepare_click s rq tick creative = (Ok pc, s')"
  shows "step_ok s [pc_event pc] s'"
  using assms(2)
proof (rule prepare_click_Ok)
qed (use assms(1) in \<open>auto simp: step_ok_def inv_ok_def split: option.splits\<close>)

lemma refused_step:
  assumes "inv_ok s" "prepare_click s rq tick creative = (Err e, s1)"
    "reject_transaction s1 (rq_transaction_id rq) e = (ev, s')"
  shows "step_ok s [ev] s'"
  using prepare_click_Err [OF assms(2)] remember_ok [OF assms(1)] assms(3)
  by (auto simp: reject_transaction_def step_ok_def remember_outcome_def)

lemma mark_first_sent_ids [simp]: "map tx_id (mark_first_sent tid ts) = map tx_id ts"
  by (induction ts) auto

lemma mark_first_sent_length [simp]: "length (mark_first_sent tid ts) = length ts"
  by (induction ts) auto

lemma finish_transaction_step:
  assumes "inv_ok s" "finish_transaction s tid outcome = (ev, s')"
  shows "step_ok s (case ev of Some e \<Rightarrow> [e] | None \<Rightarrow> []) s'"
proof (cases "tid \<in> set (map tx_id (iv_pending s))")
  case True
  have "finish_all s [tid] outcome = ([TransactionFinished tid outcome], forget_transactions [tid] outcome s)"
    using finish_all_eq [OF inv_ok_distinct [OF assms(1)], of "[tid]" outcome] True by simp
  moreover have "finish_all s [tid] outcome = ((case ev of Some e \<Rightarrow> [e] | None \<Rightarrow> []), s')"
    by (simp add: assms(2))
  ultimately have evs: "(case ev of Some e \<Rightarrow> [e] | None \<Rightarrow> []) = [TransactionFinished tid outcome]"
    and s': "s' = forget_transactions [tid] outcome s" by auto
  have "mset (map tx_id (filter (\<lambda>t. tx_id t \<noteq> tid) ts)) + {#tid#} = mset (map tx_id ts)"
    if "distinct (map tx_id ts)" "tid \<in> set (map tx_id ts)" for ts
    using that
  proof (induction ts)
    case (Cons t ts)
    have "filter (\<lambda>t'. tx_id t' \<noteq> tx_id t) ts = ts" using Cons.prems(1) by (auto simp: filter_id_conv image_iff)
    with Cons show ?case by (auto simp del: mset_filter)
  qed simp
  from this [OF inv_ok_distinct [OF assms(1)] True] forget_ok [OF assms(1), of "[tid]" outcome] show ?thesis
    unfolding evs s' by (simp add: step_ok_def forget_transactions_def)
next
  case False
  then have "\<not> list_ex (\<lambda>t. tx_id t = tid) (iv_pending s)" by (auto simp: list_ex_iff)
  with assms show ?thesis by (auto simp: finish_transaction_def step_ok_def)
qed

lemma mark_sent_step:
  assumes "inv_ok s" "mark_sent s tid = (evs, s')"
  shows "step_ok s evs s'"
proof -
  let ?s = "s\<lparr>iv_pending := mark_first_sent tid (iv_pending s)\<rparr>"
  have ok: "inv_ok ?s" using assms(1) by (simp add: inv_ok_def split: option.splits)
  consider "evs = []" "s' = s" | "evs = [TransactionSent tid]" "s' = ?s"
    | ev where "finish_transaction ?s tid OutcomeSent = (ev, s')"
        "evs = TransactionSent tid # (case ev of Some e \<Rightarrow> [e] | None \<Rightarrow> [])"
    using assms(2) by (auto simp: mark_sent_def Let_def split: option.splits if_splits prod.splits)
  then show ?thesis
  proof cases
    case (3 ev)
    from finish_transaction_step [OF ok 3(1)] 3(2) show ?thesis by (simp add: step_ok_def)
  qed (use assms(1) ok in \<open>auto simp: step_ok_def\<close>)
qed

lemma inv_step_ok: "inv_step s evs s' \<Longrightarrow> inv_ok s \<Longrightarrow> step_ok s evs s'"
proof (induction rule: inv_step.induct)
  case (Refused s rq tick creative err s1 ev s')
  then show ?case by (intro refused_step)
qed (erule open_window_step close_window_step window_items_step set_slot_step hotbar_step
       set_player_inventory_step craft_progress_bar_step prepare_click_step mark_sent_step finishers_step, assumption)+

lemma account_trans:
  fixes f1 f2 p0 p1 p2 q1 q2 :: "'a multiset"
  assumes "f1 + p1 = p0 + q1" "f2 + p2 = p1 + q2"
  shows "(f1 + f2) + p2 = p0 + (q1 + q2)"
proof -
  have "(f1 + f2) + p2 = (f1 + p1) + q2" by (simp only: add.assoc assms(2))
  then show ?thesis by (simp only: assms(1) add.assoc)
qed

lemma inv_run_ok:
  assumes "inv_run s evs s'" "inv_ok s"
  shows "step_ok s evs s'"
  using assms
proof (induction rule: inv_run.induct)
  case (Stop s)
  then show ?case by (simp add: step_ok_def)
next
  case (Step s evs s1 evs1 s2)
  then have 1: "step_ok s evs s1" by simp
  then have 2: "step_ok s1 evs1 s2" using inv_step_ok [OF Step.hyps(2)] by (simp add: step_ok_def)
  show ?case
    using 1 2 account_trans [of "mset (finished_ids evs)" _ _ "mset (queued_ids evs)"
        "mset (finished_ids evs1)" _ "mset (queued_ids evs1)"]
    unfolding step_ok_def queued_ids_append finished_ids_append mset_append by blast
qed

interpretation completed_log:
  bounded_log MAX_COMPLETED_TRANSACTIONS
    "insert_evicting MAX_COMPLETED_TRANSACTIONS :: u64 \<Rightarrow> inventory_outcome \<Rightarrow> _"
  by (rule bounded_log_evicting) (simp add: MAX_COMPLETED_TRANSACTIONS_def)

subsection \<open>Wire form of clicks\<close>

lemma validate_slot_Ok [simp]:
  "validate_slot slot n = Ok u \<longleftrightarrow> 0 \<le> sint slot \<and> nat (sint slot) < n"
  by (auto simp: validate_slot_def)

lemma validate_optional_slot_Ok:
  "validate_optional_slot slot n = Ok sl \<Longrightarrow> sl = OUTSIDE_SLOT \<or> 0 \<le> sint sl \<and> nat (sint sl) < n"
  by (auto simp: validate_optional_slot_def and_then_def split: option.splits sum.splits)

lemma drag_wire_slot_Ok:
  "drag_wire_slot phase slot n = Ok sl \<Longrightarrow> sl = OUTSIDE_SLOT \<or> 0 \<le> sint sl \<and> nat (sint sl) < n"
  by (auto simp: drag_wire_slot_def and_then_def split: option.splits sum.splits drag_phase.splits)

lemma click_wire_slot:
  "click_wire drag click n creative = Ok ((sl, button, mode), drag') \<Longrightarrow>
   sl = OUTSIDE_SLOT \<or> 0 \<le> sint sl \<and> nat (sint sl) < n"
  by (cases click)
     (auto simp: and_then_def dest!: validate_optional_slot_Ok drag_wire_slot_Ok
       split: sum.splits if_splits hotbar_destination.splits)

lemma drag_button_code_small: "button \<noteq> DragMiddle \<Longrightarrow> \<not> 8 \<le> drag_button_code button phase"
  by (cases button; cases phase) (simp_all add: drag_button_code_def word_le_nat_alt)

text \<open>Without creative mode the wire never carries a clone or a middle-button drag.\<close>

lemma click_wire_survival:
  "click_wire drag click n False = Ok ((sl, button, mode), drag') \<Longrightarrow> mode \<noteq> 3 \<and> \<not> (mode = 5 \<and> button \<ge> 8)"
  by (cases click)
     (auto simp: and_then_def drag_button_code_small split: sum.splits if_splits hotbar_destination.splits)

lemma validate_click_Ok:
  "validate_click s click n creative = (Ok (sl, button, mode), s1) \<Longrightarrow>
   \<exists>drag'. click_wire (iv_drag s) click n creative = Ok ((sl, button, mode), drag') \<and> s1 = s\<lparr>iv_drag := drag'\<rparr>"
  by (auto simp: validate_click_def split: if_splits sum.splits prod.splits)

section \<open>Properties\<close>

text \<open>
  C1: Whatever packets, clicks and ticks arrive, the inventory keeps its bounds (slots, properties,
  pending and completed transactions, hotbar index, unique pending ids), and every transaction that
  was queued is either still pending or was finished by exactly one event.
\<close>

theorem inventory_run_accounts:
  assumes "inv_run new_inventory evs s"
  shows "inv_ok s \<and>
    mset (finished_ids evs) + mset (map tx_id (iv_pending s)) = mset (queued_ids evs)"
  using inv_run_ok [OF assms new_inventory_ok] by (simp add: step_ok_def new_inventory_def)

text \<open>The window is filled, a click is queued at tick 20 and times out.\<close>

definition sample_click :: click_request where
  "sample_click = \<lparr>rq_transaction_id = 7, rq_generation = 1, rq_window_id = 0, rq_state_id = 4, rq_click = PickupAll 1\<rparr>"

definition filled_inventory :: "unit inventory" where
  "filled_inventory = snd (apply_window_items new_inventory 0 4 [empty_slot, empty_slot] empty_slot)"

lemma sample_run_computes:
  "(case prepare_click filled_inventory sample_click 20 False of (Ok pc, _) \<Rightarrow> pc_event pc = TransactionQueued 7 | _ \<Rightarrow> False) \<and>
   fst (expire_transactions (snd (prepare_click filled_inventory sample_click 20 False)) 500) = [TransactionFinished 7 TimedOut] \<and>
   finished_ids (fst (apply_window_items (new_inventory :: unit inventory) 0 4 [empty_slot, empty_slot] empty_slot)) = [] \<and>
   queued_ids (fst (apply_window_items (new_inventory :: unit inventory) 0 4 [empty_slot, empty_slot] empty_slot)) = []"
  by code_simp

theorem inventory_run_accounts_witness:
  "\<exists>evs s. inv_run (new_inventory :: unit inventory) evs s \<and> queued_ids evs = [7] \<and> finished_ids evs = [7] \<and>
    inv_ok s \<and> iv_pending s = []"
proof -
  let ?items = "apply_window_items (new_inventory :: unit inventory) 0 4 [empty_slot, empty_slot] empty_slot"
  obtain pc s2 where click: "prepare_click filled_inventory sample_click 20 False = (Ok pc, s2)"
    "pc_event pc = TransactionQueued 7"
    using sample_run_computes by (auto split: prod.splits sum.splits)
  let ?evs = "(([] @ fst ?items) @ [pc_event pc]) @ fst (expire_transactions s2 500)"
  have "inv_run new_inventory ([] @ fst ?items) filled_inventory"
    unfolding filled_inventory_def by (rule inv_run.Step [OF inv_run.Stop inv_step.Items]) (rule prod.collapse [symmetric])
  from inv_run.Step [OF inv_run.Step [OF this inv_step.Click [OF click(1)]] inv_step.Expire [OF prod.collapse [symmetric]]]
  have run: "inv_run new_inventory ?evs (snd (expire_transactions s2 500))" .
  have ids: "queued_ids ?evs = [7]" "finished_ids ?evs = [7]"
    using sample_run_computes click by simp_all
  have "inv_ok (snd (expire_transactions s2 500)) \<and> iv_pending (snd (expire_transactions s2 500)) = []"
    using inventory_run_accounts [OF run] unfolding ids by simp
  then show ?thesis
    using run ids by blast
qed

text \<open>
  C24: A click never predicts. Preparing it leaves both windows, the cursor, the hotbar selection and
  the completed log untouched. A refused click changes nothing at all. An accepted one is sent
  against the window's current state id with an empty change list and the server's own cursor, names
  a slot of the window or the outside slot, and is appended to the pending log; in survival mode it is
  neither a clone nor a middle-button drag.
\<close>

theorem click_is_server_authoritative:
  "case prepare_click s rq tick creative of
     (Err e, s') \<Rightarrow> s' = s
   | (Ok pc, s') \<Rightarrow>
       (\<exists>drag. s' = s\<lparr>iv_drag := drag, iv_pending := iv_pending s @
          [\<lparr>tx_request = rq, tx_status = Queued, tx_queued_tick = tick\<rparr>]\<rparr>) \<and>
       (\<exists>w. lookup_window s (rq_window_id rq) = Some w \<and> wc_state_id (pc_packet pc) = wi_state_id w \<and>
          (wc_slot (pc_packet pc) = OUTSIDE_SLOT \<or>
           0 \<le> sint (wc_slot (pc_packet pc)) \<and> nat (sint (wc_slot (pc_packet pc))) < length (wi_slots w))) \<and>
       wc_window_id (pc_packet pc) = rq_window_id rq \<and> wc_changed_slots (pc_packet pc) = [] \<and>
       wc_cursor_item (pc_packet pc) = iv_cursor s \<and>
       \<not> (\<not> creative \<and> (wc_mode (pc_packet pc) = 3 \<or> wc_mode (pc_packet pc) = 5 \<and> wc_mouse_button (pc_packet pc) \<ge> 8))"
proof (cases "prepare_click s rq tick creative")
  case (Pair r s')
  show ?thesis
  proof (cases r)
    case (Inl e)
    with Pair prepare_click_Err show ?thesis by auto
  next
    case (Inr pc)
    with Pair have "prepare_click s rq tick creative = (Ok pc, s')" by simp
    then show ?thesis
    proof (rule prepare_click_Ok)
      fix w slot button mode drag
      assume w: "lookup_window s (rq_window_id rq) = Some w" "rq_state_id rq = wi_state_id w"
        and v: "validate_click s (rq_click rq) (length (wi_slots w)) creative = (Ok (slot, button, mode), s\<lparr>iv_drag := drag\<rparr>)"
        and pc: "pc = \<lparr>pc_packet = \<lparr>wc_window_id = rq_window_id rq, wc_state_id = rq_state_id rq, wc_slot = slot,
            wc_mouse_button = button, wc_mode = mode, wc_changed_slots = [], wc_cursor_item = iv_cursor s\<rparr>,
          pc_event = TransactionQueued (rq_transaction_id rq)\<rparr>"
        and s': "s' = s\<lparr>iv_drag := drag, iv_pending := iv_pending s @
            [\<lparr>tx_request = rq, tx_status = Queued, tx_queued_tick = tick\<rparr>]\<rparr>"
      from validate_click_Ok [OF v] obtain drag' where
        cw: "click_wire (iv_drag s) (rq_click rq) (length (wi_slots w)) creative = Ok ((slot, button, mode), drag')"
        by blast
      have "\<not> (\<not> creative \<and> (mode = 3 \<or> mode = 5 \<and> button \<ge> 8))"
        using cw click_wire_survival by (cases creative) auto
      with click_wire_slot [OF cw] w Inr Pair show ?thesis by (auto simp: pc s')
    qed
  qed
qed

text \<open>
  C38: No transaction is pending forever. One expiry pass at tick \<open>tick\<close> finishes exactly the
  transactions that were queued at least 100 ticks earlier, each with one \<open>TimedOut\<close> event in
  queue order, and nothing else of the inventory but the completed log changes.
\<close>

theorem transactions_expire:
  assumes "inv_ok s"
  shows "\<exists>s'. expire_transactions s tick =
      (map (\<lambda>t. TransactionFinished (tx_id t) TimedOut)
         (filter (\<lambda>t. tick_age tick t \<ge> TRANSACTION_TIMEOUT_TICKS) (iv_pending s)), s') \<and>
    iv_pending s' = filter (\<lambda>t. tick_age tick t < TRANSACTION_TIMEOUT_TICKS) (iv_pending s) \<and>
    s' = s\<lparr>iv_pending := iv_pending s', iv_completed := iv_completed s'\<rparr> \<and> inv_ok s'"
  unfolding expire_transactions_def finish_selected [OF inv_ok_distinct [OF assms]]
  using forget_ok [OF assms] forget_selected_pending [OF inv_ok_distinct [OF assms]] forget_shape
  by (simp add: not_le)

definition sample_inventory :: "unit inventory" where
  "sample_inventory = new_inventory\<lparr>iv_pending :=
     [\<lparr>tx_request = \<lparr>rq_transaction_id = 7, rq_generation = 1, rq_window_id = 0, rq_state_id = 4, rq_click = PickupAll 1\<rparr>,
       tx_status = Sent, tx_queued_tick = 20\<rparr>,
      \<lparr>tx_request = \<lparr>rq_transaction_id = 8, rq_generation = 1, rq_window_id = 0, rq_state_id = 9, rq_click = PickupAll 2\<rparr>,
       tx_status = Sent, tx_queued_tick = 90\<rparr>]\<rparr>"

lemma sample_inventory_ok: "inv_ok sample_inventory"
  by (simp add: sample_inventory_def inv_ok_def new_inventory_def player_inventory_def window_ok_def
      MAX_PENDING_TRANSACTIONS_def)

theorem transactions_expire_witness:
  "fst (expire_transactions sample_inventory 120) = [TransactionFinished 7 TimedOut]"
proof -
  have "map tx_id (filter (\<lambda>t. tick_age 120 t \<ge> TRANSACTION_TIMEOUT_TICKS) (iv_pending sample_inventory)) = [7]"
    by (simp add: sample_inventory_def tick_age_def TRANSACTION_TIMEOUT_TICKS_def)
  then have "map (\<lambda>t. TransactionFinished (tx_id t) TimedOut)
      (filter (\<lambda>t. tick_age 120 t \<ge> TRANSACTION_TIMEOUT_TICKS) (iv_pending sample_inventory)) = [TransactionFinished 7 TimedOut]"
    by (auto simp: sample_inventory_def tick_age_def TRANSACTION_TIMEOUT_TICKS_def)
  with transactions_expire [OF sample_inventory_ok, of 120] show ?thesis by auto
qed

text \<open>
  A single-slot update of a known window stores the item at that index (growing the window with
  empty slots when the index lies beyond it), records the new state id, leaves every other slot and
  the other window alone, and confirms exactly the sent clicks of that window whose state id is
  older.
\<close>

theorem set_slot_stores_and_confirms:
  assumes "inv_ok s" "lookup_window s wid = Some w" "wid \<noteq> - 1"
    and "0 \<le> sint slot" "nat (sint slot) < MAX_WINDOW_SLOTS"
  shows "\<exists>s' w'. apply_set_slot s wid sid slot item =
      (SlotUpdated wid sid slot #
         map (\<lambda>t. TransactionFinished (tx_id t) (Confirmed sid)) (filter (confirms wid sid) (iv_pending s)), s') \<and>
    lookup_window s' wid = Some w' \<and> wi_state_id w' = sid \<and>
    nat (sint slot) < length (wi_slots w') \<and> length (wi_slots w') \<ge> length (wi_slots w) \<and>
    wi_slots w' ! nat (sint slot) = item \<and>
    (\<forall>i. i < length (wi_slots w) \<and> i \<noteq> nat (sint slot) \<longrightarrow> wi_slots w' ! i = wi_slots w ! i) \<and>
    (\<forall>wid'. wid' \<noteq> wid \<longrightarrow> lookup_window s' wid' = lookup_window s wid') \<and>
    iv_pending s' = filter (\<lambda>t. \<not> confirms wid sid t) (iv_pending s)"
proof -
  let ?f = "\<lambda>w. snd (window_set_slot (w\<lparr>wi_state_id := sid\<rparr>) slot item)"
  let ?s1 = "window_mut s wid ?f"
  let ?s' = "forget_transactions (map tx_id (filter (confirms wid sid) (iv_pending s))) (Confirmed sid) ?s1"
  have d: "distinct (map tx_id (iv_pending ?s1))" using inv_ok_distinct [OF assms(1)] by simp
  have "fst (window_set_slot w slot item)" using assms(4,5) by (simp add: window_set_slot_def Let_def)
  then have run: "apply_set_slot s wid sid slot item =
      (SlotUpdated wid sid slot #
         map (\<lambda>t. TransactionFinished (tx_id t) (Confirmed sid)) (filter (confirms wid sid) (iv_pending s)), ?s')"
    using finish_selected [OF d, of "confirms wid sid" "Confirmed sid"] assms(2,3)
    by (auto simp: apply_set_slot_def finish_confirmed_transactions_def case_prod_beta Let_def)
  have look: "lookup_window ?s' wid' = lookup_window ?s1 wid'" for wid' by (simp add: lookup_window_def)
  have "lookup_window ?s1 wid' = (if wid' = wid then Some (?f w) else lookup_window s wid')" for wid'
    using assms(2) by (simp add: lookup_window_mut)
  moreover have "iv_pending ?s' = filter (\<lambda>t. \<not> confirms wid sid t) (iv_pending s)"
    using forget_selected_pending [OF d, of "confirms wid sid" "Confirmed sid"] by simp
  ultimately show ?thesis
    unfolding run using look assms(4,5)
    by (auto simp: window_set_slot_def Let_def nth_list_update nth_append)
qed

theorem set_slot_stores_and_confirms_witness:
  "\<exists>s' w'. apply_set_slot sample_inventory 0 6 3 empty_slot =
      ([SlotUpdated 0 6 3, TransactionFinished 7 (Confirmed 6)], s') \<and>
    lookup_window s' 0 = Some w' \<and> length (wi_slots w') > 3"
proof -
  have l: "lookup_window sample_inventory 0 = Some (iv_player_inventory sample_inventory)"
    by (simp add: lookup_window_def PLAYER_INVENTORY_WINDOW_ID_def)
  have f: "map (\<lambda>t. TransactionFinished (tx_id t) (Confirmed 6))
      (filter (confirms 0 6) (iv_pending sample_inventory)) = [TransactionFinished 7 (Confirmed 6)]"
    by (simp add: sample_inventory_def confirms_def)
  show ?thesis
    using set_slot_stores_and_confirms [OF sample_inventory_ok l, of 3 6 empty_slot] unfolding f
    by (auto simp: MAX_WINDOW_SLOTS_def)
qed

end
