(* ===== verification/Control.thy ===== *)
theory Control
  imports Inventory
begin

text \<open>
  The bot control surface, src/src/minecraft/control.rs: the commands a caller may queue,
  their validation, and the \<open>Controller\<close> that folds commands and the walk goal into the
  movement input of every tick.

  \<^item> \<open>f32\<close> and \<open>f64\<close> values are their IEEE-754 bit patterns. Comparison, \<open>is_finite\<close>,
    \<open>clamp\<close> and \<open>max\<close> are computed on the bits. Floating-point arithmetic (\<open>float_ops\<close>) and
    the generator of the \<open>rand\<close> crate (\<open>rng_ops\<close>) are arguments of the definitions.
  \<^item> A \<open>Duration\<close> is its number of nanoseconds.
\<close>

section \<open>Floating-point values as bit patterns\<close>

type_synonym f32 = u32
type_synonym f64 = u64
type_synonym duration = nat

definition f32_magnitude :: "f32 \<Rightarrow> nat" where
  "f32_magnitude x = unat (x AND 0x7FFFFFFF)"

definition f32_is_nan :: "f32 \<Rightarrow> bool" where
  "f32_is_nan x = (0x7F800000 < f32_magnitude x)"

definition f32_is_finite :: "f32 \<Rightarrow> bool" where
  "f32_is_finite x = (f32_magnitude x < 0x7F800000)"

text \<open>Sign and magnitude as one integer; both zeros have key 0.\<close>

definition f32_key :: "f32 \<Rightarrow> int" where
  "f32_key x = (if bit x 31 then - int (f32_magnitude x) else int (f32_magnitude x))"

definition f32_lt :: "f32 \<Rightarrow> f32 \<Rightarrow> bool" where
  "f32_lt x y = (\<not> f32_is_nan x \<and> \<not> f32_is_nan y \<and> f32_key x < f32_key y)"

definition f32_le :: "f32 \<Rightarrow> f32 \<Rightarrow> bool" where
  "f32_le x y = (\<not> f32_is_nan x \<and> \<not> f32_is_nan y \<and> f32_key x \<le> f32_key y)"

definition f32_clamp :: "f32 \<Rightarrow> f32 \<Rightarrow> f32 \<Rightarrow> f32" where
  "f32_clamp x lo hi = (let x' = (if f32_lt x lo then lo else x) in if f32_lt hi x' then hi else x')"

definition f32_max :: "f32 \<Rightarrow> f32 \<Rightarrow> f32" where
  "f32_max x y = (if f32_is_nan x then y else if f32_lt x y then y else x)"

definition f32_zero :: f32 where "f32_zero = 0"
definition f32_one :: f32 where "f32_one = 0x3F800000"
definition f32_minus_one :: f32 where "f32_minus_one = 0xBF800000"
definition f32_180 :: f32 where "f32_180 = 0x43340000"
definition f32_360 :: f32 where "f32_360 = 0x43B40000"

record float_ops =
  f64_sub :: "f64 \<Rightarrow> f64 \<Rightarrow> f64"
  f64_add :: "f64 \<Rightarrow> f64 \<Rightarrow> f64"
  f64_mul :: "f64 \<Rightarrow> f64 \<Rightarrow> f64"
  f64_neg :: "f64 \<Rightarrow> f64"
  f64_atan2 :: "f64 \<Rightarrow> f64 \<Rightarrow> f64"
  f64_to_degrees :: "f64 \<Rightarrow> f64"
  f64_as_f32 :: "f64 \<Rightarrow> f32"
  f64_le :: "f64 \<Rightarrow> f64 \<Rightarrow> bool"
  f32_add :: "f32 \<Rightarrow> f32 \<Rightarrow> f32"
  f32_sub :: "f32 \<Rightarrow> f32 \<Rightarrow> f32"
  f32_neg :: "f32 \<Rightarrow> f32"
  f32_rem_euclid :: "f32 \<Rightarrow> f32 \<Rightarrow> f32"

record 'g rng_ops =
  seed_from_u64 :: "u64 \<Rightarrow> 'g"
  from_entropy :: "'g"
  gen_range_u64 :: "u64 \<Rightarrow> u64 \<Rightarrow> 'g \<Rightarrow> u64 \<times> 'g"
  gen_range_f32 :: "f32 \<Rightarrow> f32 \<Rightarrow> 'g \<Rightarrow> f32 \<times> 'g"

section \<open>Commands\<close>

definition MAX_CHAT_UTF16_UNITS :: nat where "MAX_CHAT_UTF16_UNITS = 256"
definition PITCH_MIN :: f32 where "PITCH_MIN = 0xC2B40000"
definition PITCH_MAX :: f32 where "PITCH_MAX = 0x42B40000"
definition ARRIVAL_RADIUS :: f64 where "ARRIVAL_RADIUS = 0x3FD3333333333333"
definition TICK_MILLIS :: nat where "TICK_MILLIS = 1000 div 20"

datatype hand = MainHand | OffHand
datatype dig_action = DigStart | DigCancel | DigFinish

fun hand_wire_value :: "hand \<Rightarrow> i32" where
  "hand_wire_value MainHand = 0"
| "hand_wire_value OffHand = 1"

record block_placement =
  bp_x :: i32
  bp_y :: i32
  bp_z :: i32
  bp_face :: i32
  bp_hand :: hand
  bp_cursor_x :: f32
  bp_cursor_y :: f32
  bp_cursor_z :: f32
  bp_inside_block :: bool

record random_look_config =
  rl_min_interval :: duration
  rl_max_interval :: duration
  rl_max_yaw_delta :: f32
  rl_min_pitch :: f32
  rl_max_pitch :: f32
  rl_seed :: "u64 option"

datatype action_validation_error =
    EmptyChat
  | EmptyCommand
  | ChatStartsWithSlash
  | CommandStartsWithSlash
  | ChatTooLong nat nat
  | CommandTooLong nat nat
  | RandomLookNonFinite
  | RandomLookIntervalOrder
  | RandomLookPitchOrder
  | RandomLookNegativeYawDelta
  | HotbarSlotOutOfRange i16
  | BlockFaceOutOfRange i32
  | BlockCursorOutOfRange f32

record movement_input =
  mi_forward :: f32
  mi_strafe :: f32
  mi_jump :: bool
  mi_sprint :: bool
  mi_sneak :: bool

definition default_input :: movement_input where
  "default_input = \<lparr>mi_forward = f32_zero, mi_strafe = f32_zero, mi_jump = False, mi_sprint = False,
    mi_sneak = False\<rparr>"

datatype bot_command =
    SetInput movement_input
  | Look f32 f32
  | WalkTo f64 f64
  | Sprint bool
  | Sneak bool
  | Jump bool
  | Forward bool
  | Backward bool
  | StrafeLeft bool
  | StrafeRight bool
  | SetRandomLook "random_look_config option"
  | Chat string
  | Command string
  | InventoryClick click_request
  | UseItem hand
  | Swing hand
  | SelectHotbarSlot i16
  | UseItemOnBlock block_placement
  | InteractEntity i32 hand bool
  | AttackEntity i32 bool
  | InteractAtEntity i32 hand bool f32 f32 f32
  | ReleaseItem
  | DigBlock i32 i32 i32 i32 dig_action
  | DropItem bool
  | SwapHands
  | CloseGui
  | StopMovement

section \<open>Validation\<close>

definition validate_random_look :: "random_look_config \<Rightarrow> action_validation_error + unit" where
  "validate_random_look c =
    (if \<not> f32_is_finite (rl_max_yaw_delta c) \<or> \<not> f32_is_finite (rl_min_pitch c)
        \<or> \<not> f32_is_finite (rl_max_pitch c) then Err RandomLookNonFinite
     else if rl_max_interval c < rl_min_interval c then Err RandomLookIntervalOrder
     else if f32_lt (rl_max_pitch c) (rl_min_pitch c) then Err RandomLookPitchOrder
     else if f32_lt (rl_max_yaw_delta c) f32_zero then Err RandomLookNegativeYawDelta
     else Ok ())"

definition in_i32_range :: "int \<Rightarrow> int \<Rightarrow> 'a::len word \<Rightarrow> bool" where
  "in_i32_range lo hi x = (lo \<le> sint x \<and> sint x \<le> hi)"

definition cursor_in_range :: "f32 \<Rightarrow> bool" where
  "cursor_in_range v = (f32_is_finite v \<and> f32_le f32_zero v \<and> f32_le v f32_one)"

fun validate_cursors :: "f32 list \<Rightarrow> action_validation_error + unit" where
  "validate_cursors [] = Ok ()"
| "validate_cursors (v # vs) =
    (if \<not> cursor_in_range v then Err (BlockCursorOutOfRange v) else validate_cursors vs)"

definition validate_placement :: "block_placement \<Rightarrow> action_validation_error + unit" where
  "validate_placement p =
    (if \<not> in_i32_range 0 5 (bp_face p) then Err (BlockFaceOutOfRange (bp_face p))
     else validate_cursors [bp_cursor_x p, bp_cursor_y p, bp_cursor_z p])"

text \<open>
  \<open>encode_utf16().count()\<close> of a UTF-8 string: one unit per scalar value, two for those
  outside the basic plane, whose UTF-8 form starts with a byte from 0xF0.
\<close>

definition utf16_units :: "string \<Rightarrow> nat" where
  "utf16_units s = sum_list (map (\<lambda>c. let b = of_char c :: nat in
     if 0x80 \<le> b \<and> b < 0xC0 then 0 else if 0xF0 \<le> b then 2 else 1) s)"

definition starts_with_slash :: "string \<Rightarrow> bool" where
  "starts_with_slash s = (case s of [] \<Rightarrow> False | c # _ \<Rightarrow> c = CHR ''/'')"

definition validate_chat :: "string \<Rightarrow> action_validation_error + unit" where
  "validate_chat message =
    (if message = [] then Err EmptyChat
     else if starts_with_slash message then Err ChatStartsWithSlash
     else let actual = utf16_units message in
       if MAX_CHAT_UTF16_UNITS < actual then Err (ChatTooLong actual MAX_CHAT_UTF16_UNITS) else Ok ())"

definition validate_command :: "string \<Rightarrow> action_validation_error + unit" where
  "validate_command command =
    (if command = [] then Err EmptyCommand
     else if starts_with_slash command then Err CommandStartsWithSlash
     else let actual = utf16_units command in
       if MAX_CHAT_UTF16_UNITS < actual then Err (CommandTooLong actual MAX_CHAT_UTF16_UNITS) else Ok ())"

fun validate :: "bot_command \<Rightarrow> action_validation_error + unit" where
  "validate (Chat message) = validate_chat message"
| "validate (Command command) = validate_command command"
| "validate (SetRandomLook (Some config)) = validate_random_look config"
| "validate (SelectHotbarSlot slot) =
    (if \<not> in_i32_range 0 8 slot then Err (HotbarSlotOutOfRange slot) else Ok ())"
| "validate (UseItemOnBlock placement) = validate_placement placement"
| "validate (DigBlock x y z face action) =
    (if \<not> in_i32_range 0 5 face then Err (BlockFaceOutOfRange face) else Ok ())"
| "validate _ = Ok ()"

section \<open>The controller\<close>

record 'g random_look_runtime =
  rr_config :: random_look_config
  rr_rng :: 'g
  rr_ticks_until_next :: u32

record 'g controller =
  ct_manual :: movement_input
  ct_goal :: "(f64 \<times> f64) option"
  ct_held_forward :: bool
  ct_held_backward :: bool
  ct_held_left :: bool
  ct_held_right :: bool
  ct_random_look :: "'g random_look_runtime option"

definition default_controller :: "'g controller" where
  "default_controller = \<lparr>ct_manual = default_input, ct_goal = None, ct_held_forward = False,
    ct_held_backward = False, ct_held_left = False, ct_held_right = False, ct_random_look = None\<rparr>"

fun key_impulse :: "bool \<Rightarrow> bool \<Rightarrow> f32" where
  "key_impulse True False = f32_one"
| "key_impulse False True = f32_minus_one"
| "key_impulse _ _ = f32_zero"

definition recompute_forward :: "'g controller \<Rightarrow> 'g controller" where
  "recompute_forward c = c\<lparr>ct_manual := (ct_manual c)\<lparr>mi_forward :=
     key_impulse (ct_held_forward c) (ct_held_backward c)\<rparr>\<rparr>"

definition recompute_strafe :: "'g controller \<Rightarrow> 'g controller" where
  "recompute_strafe c = c\<lparr>ct_manual := (ct_manual c)\<lparr>mi_strafe :=
     key_impulse (ct_held_left c) (ct_held_right c)\<rparr>\<rparr>"

definition as_millis_u64 :: "duration \<Rightarrow> u64" where
  "as_millis_u64 d = of_nat (d div 1000000)"

definition random_interval_ticks :: "'g rng_ops \<Rightarrow> random_look_config \<Rightarrow> 'g \<Rightarrow> u32 \<times> 'g" where
  "random_interval_ticks R config rng =
    (let tick_ms = of_nat (max TICK_MILLIS 1) :: u64;
         min_ms = max (as_millis_u64 (rl_min_interval config)) tick_ms;
         max_ms = max (as_millis_u64 (rl_max_interval config)) min_ms;
         (interval_ms, rng') = (if min_ms < max_ms then gen_range_u64 R min_ms max_ms rng else (min_ms, rng))
     in (ucast (max (interval_ms div tick_ms) 1), rng'))"

definition set_random_look :: "'g rng_ops \<Rightarrow> random_look_config option \<Rightarrow> 'g controller \<Rightarrow> 'g controller" where
  "set_random_look R config c = (case config of
     None \<Rightarrow> c\<lparr>ct_random_look := None\<rparr>
   | Some config \<Rightarrow>
       let rng = (case rl_seed config of Some seed \<Rightarrow> seed_from_u64 R seed | None \<Rightarrow> from_entropy R);
           (ticks_until_next, rng) = random_interval_ticks R config rng
       in c\<lparr>ct_random_look := Some \<lparr>rr_config = config, rr_rng = rng,
              rr_ticks_until_next = ticks_until_next\<rparr>\<rparr>)"

fun apply_command :: "'g rng_ops \<Rightarrow> bot_command \<Rightarrow> 'g controller \<Rightarrow> 'g controller" where
  "apply_command R (SetInput input) c = c\<lparr>ct_manual := input,
     ct_held_forward := f32_lt f32_zero (mi_forward input),
     ct_held_backward := f32_lt (mi_forward input) f32_zero,
     ct_held_left := f32_lt f32_zero (mi_strafe input),
     ct_held_right := f32_lt (mi_strafe input) f32_zero\<rparr>"
| "apply_command R (WalkTo x z) c = c\<lparr>ct_goal := Some (x, z)\<rparr>"
| "apply_command R (Sprint on) c = c\<lparr>ct_manual := (ct_manual c)\<lparr>mi_sprint := on\<rparr>\<rparr>"
| "apply_command R (Sneak on) c = c\<lparr>ct_manual := (ct_manual c)\<lparr>mi_sneak := on\<rparr>\<rparr>"
| "apply_command R (Jump on) c = c\<lparr>ct_manual := (ct_manual c)\<lparr>mi_jump := on\<rparr>\<rparr>"
| "apply_command R (Forward on) c = recompute_forward (c\<lparr>ct_held_forward := on\<rparr>)"
| "apply_command R (Backward on) c = recompute_forward (c\<lparr>ct_held_backward := on\<rparr>)"
| "apply_command R (StrafeLeft on) c = recompute_strafe (c\<lparr>ct_held_left := on\<rparr>)"
| "apply_command R (StrafeRight on) c = recompute_strafe (c\<lparr>ct_held_right := on\<rparr>)"
| "apply_command R (SetRandomLook config) c = set_random_look R config c"
| "apply_command R StopMovement c = c\<lparr>ct_goal := None, ct_manual := default_input,
     ct_held_forward := False, ct_held_backward := False, ct_held_left := False, ct_held_right := False\<rparr>"
| "apply_command R _ c = c"

section \<open>Driving the player\<close>

text \<open>The part of the local player the controller reads and writes.\<close>

record driven_player =
  dp_x :: f64
  dp_z :: f64
  dp_yaw :: f32
  dp_pitch :: f32
  dp_input :: movement_input

definition yaw_toward :: "float_ops \<Rightarrow> f64 \<Rightarrow> f64 \<Rightarrow> f32" where
  "yaw_toward F dx dz = f64_as_f32 F (f64_to_degrees F (f64_atan2 F (f64_neg F dx) dz))"

definition pitch_bounds :: "random_look_config \<Rightarrow> f32 \<times> f32" where
  "pitch_bounds config =
    (let min_pitch = f32_clamp (rl_min_pitch config) PITCH_MIN PITCH_MAX;
         max_pitch = f32_max (f32_clamp (rl_max_pitch config) PITCH_MIN PITCH_MAX) min_pitch
     in (min_pitch, max_pitch))"

definition tick_random_look ::
  "float_ops \<Rightarrow> 'g rng_ops \<Rightarrow> 'g controller \<times> driven_player \<Rightarrow> 'g controller \<times> driven_player" where
  "tick_random_look F R = (\<lambda>(c, p). case ct_random_look c of
     None \<Rightarrow> (c, p)
   | Some state \<Rightarrow>
       if 0 < rr_ticks_until_next state
       then (c\<lparr>ct_random_look := Some (state\<lparr>rr_ticks_until_next := rr_ticks_until_next state - 1\<rparr>)\<rparr>, p)
       else
         let config = rr_config state;
             (yaw_delta, rng) = (if f32_lt f32_zero (rl_max_yaw_delta config)
               then gen_range_f32 R (f32_neg F (rl_max_yaw_delta config)) (rl_max_yaw_delta config) (rr_rng state)
               else (f32_zero, rr_rng state));
             wrapped_yaw = f32_sub F (f32_rem_euclid F (f32_add F (f32_add F (dp_yaw p) yaw_delta) f32_180) f32_360) f32_180;
             (min_pitch, max_pitch) = pitch_bounds config;
             (pitch, rng) = (if f32_lt min_pitch max_pitch then gen_range_f32 R min_pitch max_pitch rng
               else (min_pitch, rng));
             (ticks, rng) = random_interval_ticks R config rng
         in (c\<lparr>ct_random_look := Some (state\<lparr>rr_rng := rng, rr_ticks_until_next := ticks\<rparr>)\<rparr>,
             p\<lparr>dp_yaw := wrapped_yaw, dp_pitch := pitch\<rparr>))"

definition apply_look :: "driven_player \<Rightarrow> f32 \<Rightarrow> f32 \<Rightarrow> driven_player" where
  "apply_look p yaw pitch = p\<lparr>dp_yaw := yaw, dp_pitch := pitch\<rparr>"

definition arrived :: "float_ops \<Rightarrow> f64 \<Rightarrow> f64 \<Rightarrow> bool" where
  "arrived F dx dz = f64_le F (f64_add F (f64_mul F dx dx) (f64_mul F dz dz))
     (f64_mul F ARRIVAL_RADIUS ARRIVAL_RADIUS)"

definition drive ::
  "float_ops \<Rightarrow> 'g rng_ops \<Rightarrow> 'g controller \<times> driven_player \<Rightarrow> 'g controller \<times> driven_player" where
  "drive F R = (\<lambda>(c, p). case ct_goal c of
     None \<Rightarrow> tick_random_look F R (c, p\<lparr>dp_input := ct_manual c\<rparr>)
   | Some (tx, tz) \<Rightarrow>
       let dx = f64_sub F tx (dp_x p); dz = f64_sub F tz (dp_z p) in
       if arrived F dx dz
       then tick_random_look F R (c\<lparr>ct_goal := None\<rparr>,
              p\<lparr>dp_input := (ct_manual c)\<lparr>mi_forward := f32_zero, mi_strafe := f32_zero\<rparr>\<rparr>)
       else tick_random_look F R (c,
              p\<lparr>dp_yaw := yaw_toward F dx dz,
                dp_input := (ct_manual c)\<lparr>mi_forward := f32_one, mi_strafe := f32_zero\<rparr>\<rparr>))"

definition has_goal :: "'g controller \<Rightarrow> bool" where
  "has_goal c = (ct_goal c \<noteq> None)"

section \<open>Held keys and impulses\<close>

text \<open>The sign of an impulse is the key pressed alone; two opposite keys cancel out.\<close>

definition keys_agree :: "f32 \<Rightarrow> bool \<Rightarrow> bool \<Rightarrow> bool" where
  "keys_agree impulse positive negative \<longleftrightarrow>
     (f32_lt f32_zero impulse \<longleftrightarrow> positive \<and> \<not> negative) \<and>
     (f32_lt impulse f32_zero \<longleftrightarrow> negative \<and> \<not> positive)"

definition controller_ok :: "'g controller \<Rightarrow> bool" where
  "controller_ok c \<longleftrightarrow>
     keys_agree (mi_forward (ct_manual c)) (ct_held_forward c) (ct_held_backward c) \<and>
     keys_agree (mi_strafe (ct_manual c)) (ct_held_left c) (ct_held_right c)"

lemma keys_agree_impulse [simp]: "keys_agree (key_impulse a b) a b"
  by (cases a; cases b; simp; code_simp)

lemma keys_agree_zero [simp]: "keys_agree f32_zero False False"
  by code_simp

lemma keys_agree_sign [simp]: "keys_agree x (f32_lt f32_zero x) (f32_lt x f32_zero)"
  by (auto simp: keys_agree_def f32_lt_def)

lemma controller_ok_default [simp]: "controller_ok default_controller"
  by (simp add: controller_ok_def default_controller_def default_input_def)

lemma controller_ok_random_look [simp]: "controller_ok (c\<lparr>ct_random_look := l\<rparr>) = controller_ok c"
  by (simp add: controller_ok_def)

lemma set_random_look_ok [simp]: "controller_ok (set_random_look R config c) = controller_ok c"
  by (simp add: set_random_look_def Let_def split: option.split prod.split)

lemma apply_command_ok [intro]: "controller_ok c \<Longrightarrow> controller_ok (apply_command R command c)"
proof (cases command)
  case (SetRandomLook config)
  moreover assume "controller_ok c"
  ultimately show ?thesis
    by simp
qed (simp_all add: controller_ok_def recompute_forward_def recompute_strafe_def default_input_def)

text \<open>The keys a list of commands leaves held, read off the commands alone.\<close>

fun last_set :: "(bot_command \<Rightarrow> bool option) \<Rightarrow> bot_command list \<Rightarrow> bool \<Rightarrow> bool" where
  "last_set f [] b = b"
| "last_set f (command # cs) b = last_set f cs (case f command of None \<Rightarrow> b | Some v \<Rightarrow> v)"

fun forward_key :: "bot_command \<Rightarrow> bool option" where
  "forward_key (Forward on) = Some on"
| "forward_key (SetInput input) = Some (f32_lt f32_zero (mi_forward input))"
| "forward_key StopMovement = Some False"
| "forward_key _ = None"

fun backward_key :: "bot_command \<Rightarrow> bool option" where
  "backward_key (Backward on) = Some on"
| "backward_key (SetInput input) = Some (f32_lt (mi_forward input) f32_zero)"
| "backward_key StopMovement = Some False"
| "backward_key _ = None"

fun left_key :: "bot_command \<Rightarrow> bool option" where
  "left_key (StrafeLeft on) = Some on"
| "left_key (SetInput input) = Some (f32_lt f32_zero (mi_strafe input))"
| "left_key StopMovement = Some False"
| "left_key _ = None"

fun right_key :: "bot_command \<Rightarrow> bool option" where
  "right_key (StrafeRight on) = Some on"
| "right_key (SetInput input) = Some (f32_lt (mi_strafe input) f32_zero)"
| "right_key StopMovement = Some False"
| "right_key _ = None"

lemma set_random_look_keys [simp]:
  "ct_held_forward (set_random_look R config c) = ct_held_forward c"
  "ct_held_backward (set_random_look R config c) = ct_held_backward c"
  "ct_held_left (set_random_look R config c) = ct_held_left c"
  "ct_held_right (set_random_look R config c) = ct_held_right c"
  by (simp_all add: set_random_look_def Let_def split: option.split prod.split)

lemma apply_command_keys [simp]:
  "ct_held_forward (apply_command R k c) = (case forward_key k of None \<Rightarrow> ct_held_forward c | Some v \<Rightarrow> v)"
  "ct_held_backward (apply_command R k c) = (case backward_key k of None \<Rightarrow> ct_held_backward c | Some v \<Rightarrow> v)"
  "ct_held_left (apply_command R k c) = (case left_key k of None \<Rightarrow> ct_held_left c | Some v \<Rightarrow> v)"
  "ct_held_right (apply_command R k c) = (case right_key k of None \<Rightarrow> ct_held_right c | Some v \<Rightarrow> v)"
  by (cases k; simp add: recompute_forward_def recompute_strafe_def)+

lemma apply_commands_keys:
  "ct_held_forward (fold (apply_command R) ks c) = last_set forward_key ks (ct_held_forward c)"
  "ct_held_backward (fold (apply_command R) ks c) = last_set backward_key ks (ct_held_backward c)"
  "ct_held_left (fold (apply_command R) ks c) = last_set left_key ks (ct_held_left c)"
  "ct_held_right (fold (apply_command R) ks c) = last_set right_key ks (ct_held_right c)"
  by (induction ks arbitrary: c) simp_all

lemma apply_commands_ok: "controller_ok c \<Longrightarrow> controller_ok (fold (apply_command R) ks c)"
  by (induction ks arbitrary: c) auto

text \<open>C26: After any sequence of commands the forward and strafe impulses point the way of the
  keys the caller holds, where a held key is the one last pressed and not yet released: an
  impulse is positive exactly when only the positive key is held, negative exactly when only
  the negative key is held, and opposite keys held together cancel.\<close>

theorem held_keys_drive_impulses:
  "let c = fold (apply_command R) ks default_controller in
     keys_agree (mi_forward (ct_manual c)) (last_set forward_key ks False) (last_set backward_key ks False) \<and>
     keys_agree (mi_strafe (ct_manual c)) (last_set left_key ks False) (last_set right_key ks False)"
  using apply_commands_ok [OF controller_ok_default, of R ks]
  by (simp add: controller_ok_def apply_commands_keys default_controller_def)

section \<open>Random look\<close>

text \<open>What \<open>Rng::gen_range\<close> promises for a non-empty inclusive range of \<open>f32\<close>.\<close>

definition rng_in_range :: "'g rng_ops \<Rightarrow> bool" where
  "rng_in_range R \<longleftrightarrow> (\<forall>lo hi g. f32_lt lo hi \<longrightarrow>
     f32_le lo (fst (gen_range_f32 R lo hi g)) \<and> f32_le (fst (gen_range_f32 R lo hi g)) hi)"

lemma f32_le_refl: "\<not> f32_is_nan x \<Longrightarrow> f32_le x x"
  by (simp add: f32_le_def)

lemma f32_lt_imp_le: "f32_lt x y \<Longrightarrow> f32_le x y"
  by (simp add: f32_lt_def f32_le_def)

lemma f32_le_trans: "f32_le x y \<Longrightarrow> f32_le y z \<Longrightarrow> f32_le x z"
  by (simp add: f32_le_def)

lemma f32_not_lt: "\<not> f32_is_nan x \<Longrightarrow> \<not> f32_is_nan y \<Longrightarrow> \<not> f32_lt x y \<Longrightarrow> f32_le y x"
  by (simp add: f32_lt_def f32_le_def)

lemma f32_finite_not_nan: "f32_is_finite x \<Longrightarrow> \<not> f32_is_nan x"
  by (simp add: f32_is_finite_def f32_is_nan_def)

lemma f32_clamp_bounds:
  assumes "\<not> f32_is_nan x" "f32_le lo hi"
  shows "f32_le lo (f32_clamp x lo hi)" and "f32_le (f32_clamp x lo hi) hi"
  using assms by (auto simp: f32_clamp_def Let_def f32_lt_def f32_le_def)

lemma pitch_range_ordered: "f32_le PITCH_MIN PITCH_MAX"
  by code_simp

lemma pitch_bounds_ok:
  assumes "validate_random_look config = Ok ()" and "pitch_bounds config = (lo, hi)"
  shows "f32_le PITCH_MIN lo" and "f32_le lo hi" and "f32_le hi PITCH_MAX"
proof -
  have finite: "\<not> f32_is_nan (rl_min_pitch config)" "\<not> f32_is_nan (rl_max_pitch config)"
    using assms(1) by (auto simp: validate_random_look_def f32_finite_not_nan split: if_splits)
  note clamped = f32_clamp_bounds [OF finite(1) pitch_range_ordered]
    f32_clamp_bounds [OF finite(2) pitch_range_ordered]
  show "f32_le PITCH_MIN lo" "f32_le lo hi" "f32_le hi PITCH_MAX"
    using assms(2) clamped
    by (auto simp: pitch_bounds_def Let_def f32_max_def f32_le_def f32_lt_def split: if_splits)
qed

definition look_in_bounds :: "random_look_config \<Rightarrow> f32 \<Rightarrow> bool" where
  "look_in_bounds config pitch \<longleftrightarrow>
     f32_le (fst (pitch_bounds config)) pitch \<and> f32_le pitch (snd (pitch_bounds config)) \<and>
     f32_le PITCH_MIN pitch \<and> f32_le pitch PITCH_MAX"

definition looks_with :: "random_look_config \<Rightarrow> 'g controller \<Rightarrow> bool" where
  "looks_with config c \<longleftrightarrow> (\<exists>state. ct_random_look c = Some state \<and> rr_config state = config)"

lemma looks_with_goal [simp]: "looks_with config (c\<lparr>ct_goal := g\<rparr>) = looks_with config c"
  by (simp add: looks_with_def)

lemma drawn_pitch_in_bounds:
  assumes "validate_random_look config = Ok ()" "rng_in_range R"
    and "pitch_bounds config = (lo, hi)"
    and "(if f32_lt lo hi then gen_range_f32 R lo hi rng else (lo, rng)) = (pitch, rng')"
  shows "look_in_bounds config pitch"
proof -
  note b = pitch_bounds_ok [OF assms(1) assms(3)]
  have "f32_le lo pitch \<and> f32_le pitch hi"
  proof (cases "f32_lt lo hi")
    case True
    then show ?thesis
      using assms(2,4) by (metis (full_types) fst_conv rng_in_range_def)
  next
    case False
    then show ?thesis
      using assms(4) b(2) by (auto simp: f32_le_def)
  qed
  then show ?thesis
    using b assms(3) by (auto simp: look_in_bounds_def intro: f32_le_trans)
qed

lemma tick_random_look_bounded:
  assumes "validate_random_look config = Ok ()" "rng_in_range R" "looks_with config c"
    and "tick_random_look F R (c, p) = (c', p')"
  shows "looks_with config c' \<and> (dp_pitch p' = dp_pitch p \<or> look_in_bounds config (dp_pitch p'))"
proof -
  obtain state where s: "ct_random_look c = Some state" "rr_config state = config"
    using assms(3) by (auto simp: looks_with_def)
  show ?thesis
  proof (cases "0 < rr_ticks_until_next state")
    case True
    then show ?thesis
      using assms(4) s by (auto simp: tick_random_look_def looks_with_def)
  next
    case False
    then show ?thesis
      using assms(4) s drawn_pitch_in_bounds [OF assms(1,2)]
      by (auto simp: tick_random_look_def looks_with_def Let_def split: prod.splits)
  qed
qed

lemma drive_bounded:
  assumes "validate_random_look config = Ok ()" "rng_in_range R" "looks_with config c"
    and "drive F R (c, p) = (c', p')"
  shows "looks_with config c' \<and> (dp_pitch p' = dp_pitch p \<or> look_in_bounds config (dp_pitch p'))"
proof -
  obtain c1 p1 where "tick_random_look F R (c1, p1) = (c', p')" "looks_with config c1"
    "dp_pitch p1 = dp_pitch p"
    using assms(3,4)
    by (cases "ct_goal c") (fastforce simp: drive_def Let_def split: prod.splits if_splits)+
  then show ?thesis
    using tick_random_look_bounded [OF assms(1,2)] by metis
qed

lemma drives_bounded:
  assumes "validate_random_look config = Ok ()" "rng_in_range R" "looks_with config c"
    and "(drive F R ^^ n) (c, p) = (c', p')"
  shows "looks_with config c' \<and> (dp_pitch p' = dp_pitch p \<or> look_in_bounds config (dp_pitch p'))"
  using assms(4)
proof (induction n arbitrary: c' p')
  case 0
  then show ?case
    using assms(3) by simp
next
  case (Suc n)
  obtain c1 p1 where "(drive F R ^^ n) (c, p) = (c1, p1)" "drive F R (c1, p1) = (c', p')"
    using Suc.prems by (cases "(drive F R ^^ n) (c, p)") auto
  then show ?case
    using Suc.IH drive_bounded [OF assms(1,2)] by metis
qed


text \<open>A generator that always answers the upper end of the range.\<close>

definition upper_rng :: "unit rng_ops" where
  "upper_rng = \<lparr>seed_from_u64 = (\<lambda>_. ()), from_entropy = (),
     gen_range_u64 = (\<lambda>lo hi g. (hi, g)), gen_range_f32 = (\<lambda>lo hi g. (hi, g))\<rparr>"

text \<open>Float arithmetic that keeps its first argument: enough to run the controller.\<close>

definition first_float :: float_ops where
  "first_float = \<lparr>f64_sub = (\<lambda>x _. x), f64_add = (\<lambda>x _. x), f64_mul = (\<lambda>x _. x),
     f64_neg = id, f64_atan2 = (\<lambda>x _. x), f64_to_degrees = id, f64_as_f32 = ucast, f64_le = (\<le>),
     f32_add = (\<lambda>x _. x), f32_sub = (\<lambda>x _. x), f32_neg = (\<lambda>x. x XOR 0x80000000),
     f32_rem_euclid = (\<lambda>x _. x)\<rparr>"

definition sample_look :: random_look_config where
  "sample_look = \<lparr>rl_min_interval = 0, rl_max_interval = 0, rl_max_yaw_delta = f32_one,
     rl_min_pitch = f32_zero, rl_max_pitch = 0x43160000, rl_seed = Some 1\<rparr>"

lemma upper_rng_in_range: "rng_in_range upper_rng"
  by (auto simp: rng_in_range_def upper_rng_def f32_lt_def f32_le_def)


end
