(* ===== verification/Reconnect_Policy.thy ===== *)
theory Reconnect_Policy
  imports Complex_Main Connection Control
begin

text \<open>
  The reconnect policy of src/src/core/supervisor.rs: what is retried, how often, and after
  which delay. The source computes the delay in \<open>f64\<close>; here the same formula is evaluated in
  exact rational arithmetic, a \<open>Duration\<close> being its number of nanoseconds.
\<close>

section \<open>Reconnect policy\<close>

datatype retry_limit = Unlimited | Count u32
datatype retry_decision = Retry | StopRetrying
datatype jitter = NoJitter | Deterministic rat

record reconnect_policy =
  rp_enabled :: bool
  rp_max_retries :: retry_limit
  rp_initial_delay :: duration
  rp_max_delay :: duration
  rp_multiplier :: rat
  rp_jitter :: jitter
  rp_stable_session_reset :: duration
  rp_on_transient :: retry_decision
  rp_on_server_rejected :: retry_decision
  rp_on_auth_failure :: retry_decision
  rp_on_protocol_incompatible :: retry_decision

definition from_secs :: "nat \<Rightarrow> duration" where
  "from_secs n = n * 10 ^ 9"

definition default_policy :: reconnect_policy where
  "default_policy = \<lparr>rp_enabled = False, rp_max_retries = Count 5,
     rp_initial_delay = from_secs 1, rp_max_delay = from_secs 60, rp_multiplier = 2,
     rp_jitter = NoJitter, rp_stable_session_reset = from_secs 60,
     rp_on_transient = Retry, rp_on_server_rejected = StopRetrying,
     rp_on_auth_failure = StopRetrying, rp_on_protocol_incompatible = StopRetrying\<rparr>"

definition enabled_policy :: reconnect_policy where
  "enabled_policy = default_policy\<lparr>rp_enabled := True\<rparr>"

definition decision_for :: "reconnect_policy \<Rightarrow> retry_class \<Rightarrow> retry_decision" where
  "decision_for p class =
    (if \<not> rp_enabled p then StopRetrying
     else case class of
       Transient \<Rightarrow> rp_on_transient p
     | ServerRejected \<Rightarrow> rp_on_server_rejected p
     | AuthFailure \<Rightarrow> rp_on_auth_failure p
     | ProtocolIncompatible \<Rightarrow> rp_on_protocol_incompatible p)"

definition retries_exhausted :: "reconnect_policy \<Rightarrow> u32 \<Rightarrow> bool" where
  "retries_exhausted p attempt = (case rp_max_retries p of Unlimited \<Rightarrow> False | Count limit \<Rightarrow> limit \<le> attempt)"

definition as_secs :: "duration \<Rightarrow> rat" where
  "as_secs d = of_nat d / 10 ^ 9"

definition from_secs_f64 :: "rat \<Rightarrow> duration" where
  "from_secs_f64 x = nat (round (x * 10 ^ 9))"

definition f64_powi :: "rat \<Rightarrow> i32 \<Rightarrow> rat" where
  "f64_powi x e = (if 0 \<le> sint e then x ^ nat (sint e) else inverse (x ^ nat (- sint e)))"

definition saturating_pred :: "u32 \<Rightarrow> u32" where
  "saturating_pred n = (if n = 0 then 0 else n - 1)"

definition clamp_unit :: "rat \<Rightarrow> rat" where
  "clamp_unit x = (if x < 0 then 0 else if 1 < x then 1 else x)"

definition jitter_cycle :: "u32 \<Rightarrow> rat" where
  "jitter_cycle attempt = of_nat (unat (attempt mod 5)) / 5"

definition backoff_delay :: "reconnect_policy \<Rightarrow> u32 \<Rightarrow> duration" where
  "backoff_delay p attempt =
    (let exponent = saturating_pred attempt;
         base = as_secs (rp_initial_delay p) * f64_powi (max (rp_multiplier p) 0) exponent;
         capped = min base (max (as_secs (rp_max_delay p)) 0);
         with_jitter = (case rp_jitter p of
             NoJitter \<Rightarrow> capped
           | Deterministic fraction \<Rightarrow>
               capped + capped * clamp_unit fraction * jitter_cycle attempt)
     in from_secs_f64 (max with_jitter 0))"

section \<open>Backoff\<close>

lemma round_scaled_le:
  fixes x :: rat
  assumes "x * 10 ^ 9 * of_nat b \<le> of_nat a" "0 < b" "0 \<le> x"
  shows "from_secs_f64 x * b * 2 \<le> a * 2 + b"
proof -
  have "of_int (round (x * 10 ^ 9)) \<le> x * 10 ^ 9 + 1 / 2"
    by (rule of_int_round_le)
  then have "of_int (round (x * 10 ^ 9)) * (of_nat b * 2) \<le> (x * 10 ^ 9 + 1 / 2) * (of_nat b * 2 :: rat)"
    by (intro mult_right_mono) auto
  also have "\<dots> \<le> of_nat a * 2 + of_nat b"
    using assms(1) by (simp add: algebra_simps)
  finally have "of_int (round (x * 10 ^ 9) * (int b * 2)) \<le> (of_int (int a * 2 + int b) :: rat)"
    by simp
  then have "round (x * 10 ^ 9) * (int b * 2) \<le> int a * 2 + int b"
    by (simp only: of_int_le_iff)
  moreover have "0 \<le> round (x * 10 ^ 9)"
    using assms(3) round_mono [of 0 "x * 10 ^ 9"] by simp
  ultimately have "int (from_secs_f64 x) * (int b * 2) \<le> int a * 2 + int b"
    by (simp add: from_secs_f64_def)
  then have "int (from_secs_f64 x * b * 2) \<le> int (a * 2 + b)"
    by (simp add: mult.assoc)
  then show ?thesis
    by (simp only: of_nat_le_iff)
qed

lemma powi_nonneg: "0 \<le> x \<Longrightarrow> 0 \<le> f64_powi x e"
  by (simp add: f64_powi_def)

text \<open>The delay before jitter, in seconds.\<close>

definition capped_delay :: "reconnect_policy \<Rightarrow> u32 \<Rightarrow> rat" where
  "capped_delay p attempt = min (as_secs (rp_initial_delay p) * f64_powi (max (rp_multiplier p) 0) (saturating_pred attempt))
     (max (as_secs (rp_max_delay p)) 0)"

lemma capped_delay_bounds: "0 \<le> capped_delay p attempt" "capped_delay p attempt * 10 ^ 9 \<le> of_nat (rp_max_delay p)"
proof -
  show "0 \<le> capped_delay p attempt"
    by (simp add: capped_delay_def as_secs_def powi_nonneg)
  have "capped_delay p attempt \<le> as_secs (rp_max_delay p)"
    by (simp add: capped_delay_def as_secs_def)
  then show "capped_delay p attempt * 10 ^ 9 \<le> of_nat (rp_max_delay p)"
    by (simp add: as_secs_def)
qed

lemma jitter_cycle_bounds: "0 \<le> jitter_cycle attempt" "jitter_cycle attempt \<le> 4 / 5"
proof -
  have "unat (attempt mod 5) \<le> 4"
    using mod_less_divisor [of 5 "unat attempt"] by (simp add: unat_mod)
  then have "of_nat (unat (attempt mod 5)) \<le> (of_nat 4 :: rat)"
    by (simp only: of_nat_le_iff)
  then show "jitter_cycle attempt \<le> 4 / 5"
    unfolding jitter_cycle_def by (intro divide_right_mono) simp_all
  show "0 \<le> jitter_cycle attempt"
    unfolding jitter_cycle_def by (intro divide_nonneg_nonneg of_nat_0_le_iff) simp
qed

lemma clamp_unit_bounds: "0 \<le> clamp_unit x" "clamp_unit x \<le> 1"
  by (simp_all add: clamp_unit_def)

lemma backoff_delay_eq:
  "backoff_delay p attempt = from_secs_f64 (case rp_jitter p of NoJitter \<Rightarrow> capped_delay p attempt
     | Deterministic fraction \<Rightarrow> capped_delay p attempt * (1 + clamp_unit fraction * jitter_cycle attempt))"
proof -
  have "0 \<le> capped_delay p attempt * (1 + clamp_unit fraction * jitter_cycle attempt)" for fraction
    using capped_delay_bounds(1) [of p attempt] jitter_cycle_bounds(1) [of attempt] clamp_unit_bounds(1) [of fraction]
    by (intro mult_nonneg_nonneg add_nonneg_nonneg) auto
  then show ?thesis
    using capped_delay_bounds(1) [of p attempt]
    by (simp add: backoff_delay_def capped_delay_def [symmetric] Let_def algebra_simps split: jitter.split)
qed

lemma jittered_delay_bound:
  "capped_delay p attempt * (1 + clamp_unit fraction * jitter_cycle attempt) * 10 ^ 9 * of_nat 5
     \<le> of_nat (rp_max_delay p * 9)"
proof -
  have "clamp_unit fraction * jitter_cycle attempt \<le> 1 * (4 / 5)"
    using jitter_cycle_bounds [of attempt] clamp_unit_bounds [of fraction] by (intro mult_mono) auto
  then have "capped_delay p attempt * 10 ^ 9 * ((1 + clamp_unit fraction * jitter_cycle attempt) * 5)
      \<le> of_nat (rp_max_delay p) * 9"
    using capped_delay_bounds [of p attempt] jitter_cycle_bounds(1) [of attempt] clamp_unit_bounds(1) [of fraction]
    by (intro mult_mono) auto
  then show ?thesis
    by (simp add: algebra_simps)
qed



end
