(* ===== verification/Swarm_Registry.thy ===== *)
theory Swarm_Registry
  imports Btree_Map Reconnect_Policy "HOL-Library.List_Lexorder" "HOL-Library.Char_ord"
begin

text \<open>
  The configuration of a swarm, src/src/lua/registry.rs: servers, bots and groups a script
  declares while the coordinator configures, each call validated at once. The proxy profiles
  are the host's; a script can only name them. \<open>BTreeMap\<close>s are those of \<open>Btree_Map\<close>. Strings
  are byte strings, so \<open>len\<close> is the length.
\<close>

section \<open>Definitions of servers, bots and groups\<close>

definition MAX_BOTS :: nat where "MAX_BOTS = 20000"
definition MAX_GROUPS :: nat where "MAX_GROUPS = 4000"
definition MAX_BOTS_PER_GROUP :: nat where "MAX_BOTS_PER_GROUP = 20000"
definition MAX_NAME_LEN :: nat where "MAX_NAME_LEN = 256"
definition MAX_USERNAME_LEN :: nat where "MAX_USERNAME_LEN = 64"
definition MAX_LABEL_LEN :: nat where "MAX_LABEL_LEN = 256"

record server_def =
  sd_name :: string
  sd_host :: string
  sd_port :: u16
  sd_view_distance :: i8
  sd_write_timeout :: duration
  sd_connect_deadline :: duration
  sd_shared_chunks :: bool
  sd_accept_resource_packs :: bool

record bot_def =
  bd_id :: u32
  bd_username :: string
  bd_server :: string
  bd_proxy :: "string option"
  bd_reconnect :: reconnect_policy
  bd_label :: "string option"

record group_def =
  gd_name :: string
  gd_bot_ids :: "u32 list"

record bot_spec =
  bs_id :: "u32 option"
  bs_username :: string
  bs_server :: string
  bs_proxy :: "string option"
  bs_reconnect :: reconnect_policy
  bs_label :: "string option"

text \<open>The message of \<open>InvalidConfiguration\<close> is left out.\<close>

datatype registry_error =
    DuplicateServer string
  | DuplicateBotId u32
  | DuplicateUsername string
  | DuplicateGroup string
  | UnknownServer string
  | UnknownProxy string
  | InvalidConfiguration

fun error_code :: "registry_error \<Rightarrow> string" where
  "error_code (DuplicateServer _) = ''duplicate_id''"
| "error_code (DuplicateBotId _) = ''duplicate_id''"
| "error_code (DuplicateUsername _) = ''duplicate_id''"
| "error_code (DuplicateGroup _) = ''duplicate_id''"
| "error_code (UnknownServer _) = ''unknown_server''"
| "error_code (UnknownProxy _) = ''unknown_proxy''"
| "error_code InvalidConfiguration = ''invalid_configuration''"

section \<open>The builder\<close>

record registry_builder =
  rb_servers :: "(string \<times> server_def) list"
  rb_proxy_profile_ids :: "string list"
  rb_bots :: "(u32 \<times> bot_def) list"
  rb_username_to_id :: "(string \<times> u32) list"
  rb_groups :: "(string \<times> group_def) list"
  rb_next_auto_id :: u32

definition new_builder :: "string list \<Rightarrow> registry_builder" where
  "new_builder profiles = \<lparr>rb_servers = [], rb_proxy_profile_ids = profiles, rb_bots = [],
     rb_username_to_id = [], rb_groups = [], rb_next_auto_id = 0\<rparr>"

definition add_server :: "server_def \<Rightarrow> registry_builder \<Rightarrow> (registry_error + unit) \<times> registry_builder" where
  "add_server d b =
    (if sd_name d = '''' then (Err InvalidConfiguration, b)
     else if MAX_NAME_LEN < length (sd_name d) then (Err InvalidConfiguration, b)
     else if sd_host d = '''' then (Err InvalidConfiguration, b)
     else if \<not> (2 \<le> sint (sd_view_distance d) \<and> sint (sd_view_distance d) \<le> 32) then (Err InvalidConfiguration, b)
     else if bt_contains (rb_servers b) (sd_name d) then (Err (DuplicateServer (sd_name d)), b)
     else (Ok (), b\<lparr>rb_servers := bt_insert (sd_name d) d (rb_servers b)\<rparr>))"

text \<open>
  The loop of \<open>allocate_id\<close>: the counter is returned as well, since a failing call has moved it.
  \<open>checked_add\<close> fails at the largest \<open>u32\<close>.
\<close>

function allocate_loop :: "(u32 \<times> bot_def) list \<Rightarrow> u32 \<Rightarrow> (registry_error + u32) \<times> u32" where
  "allocate_loop bots next_id =
    (if \<not> bt_contains bots next_id then (Ok next_id, if next_id = - 1 then - 1 else next_id + 1)
     else if next_id = - 1 then (Err InvalidConfiguration, next_id)
     else allocate_loop bots (next_id + 1))"
  by pat_completeness auto
termination
proof (relation "measure (\<lambda>(bots, next_id). unat (- 1 - next_id))")
  fix bots :: "(u32 \<times> bot_def) list" and next_id :: u32
  assume "next_id \<noteq> - 1"
  then have "- 1 - next_id \<noteq> 0"
    by (metis eq_iff_diff_eq_0)
  then have "unat (- 1 - next_id - 1) < unat (- 1 - next_id)"
    by (rule measure_unat)
  then show "((bots, next_id + 1), (bots, next_id)) \<in> measure (\<lambda>(bots, next_id). unat (- 1 - next_id))"
    by (simp add: algebra_simps)
qed simp

definition allocate_id :: "registry_builder \<Rightarrow> (registry_error + u32) \<times> registry_builder" where
  "allocate_id b = (case allocate_loop (rb_bots b) (rb_next_auto_id b) of
     (r, n) \<Rightarrow> (r, b\<lparr>rb_next_auto_id := n\<rparr>))"

definition saturating_succ :: "u32 \<Rightarrow> u32" where
  "saturating_succ x = (if x = - 1 then - 1 else x + 1)"

definition choose_id :: "u32 option \<Rightarrow> registry_builder \<Rightarrow> (registry_error + u32) \<times> registry_builder" where
  "choose_id wanted b = (case wanted of
     Some i \<Rightarrow> if bt_contains (rb_bots b) i then (Err (DuplicateBotId i), b) else (Ok i, b)
   | None \<Rightarrow> allocate_id b)"

text \<open>The checks of \<open>add_bot\<close> before the id is chosen, in the order of the code.\<close>

definition bot_refused :: "bot_spec \<Rightarrow> registry_builder \<Rightarrow> registry_error option" where
  "bot_refused spec b =
    (if bs_username spec = '''' then Some InvalidConfiguration
     else if MAX_USERNAME_LEN < length (bs_username spec) then Some InvalidConfiguration
     else if (case bs_label spec of None \<Rightarrow> False | Some l \<Rightarrow> MAX_LABEL_LEN < length l) then Some InvalidConfiguration
     else if \<not> bt_contains (rb_servers b) (bs_server spec) then Some (UnknownServer (bs_server spec))
     else case (case bs_proxy spec of None \<Rightarrow> None | Some p \<Rightarrow> if p \<in> set (rb_proxy_profile_ids b) then None else Some p) of
       Some p \<Rightarrow> Some (UnknownProxy p)
     | None \<Rightarrow>
         if bt_contains (rb_username_to_id b) (bs_username spec) then Some (DuplicateUsername (bs_username spec))
         else if MAX_BOTS \<le> length (rb_bots b) then Some InvalidConfiguration
         else None)"

definition bot_of :: "u32 \<Rightarrow> bot_spec \<Rightarrow> bot_def" where
  "bot_of i spec = \<lparr>bd_id = i, bd_username = bs_username spec, bd_server = bs_server spec,
     bd_proxy = bs_proxy spec, bd_reconnect = bs_reconnect spec, bd_label = bs_label spec\<rparr>"

definition add_bot :: "bot_spec \<Rightarrow> registry_builder \<Rightarrow> (registry_error + u32) \<times> registry_builder" where
  "add_bot spec b = (case bot_refused spec b of
     Some e \<Rightarrow> (Err e, b)
   | None \<Rightarrow> (case choose_id (bs_id spec) b of
       (Err e, b1) \<Rightarrow> (Err e, b1)
     | (Ok i, b1) \<Rightarrow> (Ok i, b1\<lparr>rb_next_auto_id := max (rb_next_auto_id b1) (saturating_succ i),
         rb_username_to_id := bt_insert (bs_username spec) i (rb_username_to_id b1),
         rb_bots := bt_insert i (bot_of i spec) (rb_bots b1)\<rparr>)))"

definition remove_bot :: "u32 \<Rightarrow> registry_builder \<Rightarrow> bool \<times> registry_builder" where
  "remove_bot i b = (case bt_get (rb_bots b) i of
     Some d \<Rightarrow> (True, b\<lparr>rb_bots := bt_remove i (rb_bots b),
                  rb_username_to_id := bt_remove (bd_username d) (rb_username_to_id b)\<rparr>)
   | None \<Rightarrow> (False, b))"

definition add_group :: "string \<Rightarrow> u32 list \<Rightarrow> registry_builder \<Rightarrow> (registry_error + unit) \<times> registry_builder" where
  "add_group name bot_ids b =
    (if name = '''' then (Err InvalidConfiguration, b)
     else if MAX_NAME_LEN < length name then (Err InvalidConfiguration, b)
     else if MAX_BOTS_PER_GROUP < length bot_ids then (Err InvalidConfiguration, b)
     else if bt_contains (rb_groups b) name then (Err (DuplicateGroup name), b)
     else if MAX_GROUPS \<le> length (rb_groups b) then (Err InvalidConfiguration, b)
     else if \<not> list_all (bt_contains (rb_bots b)) bot_ids then (Err InvalidConfiguration, b)
     else (Ok (), b\<lparr>rb_groups := bt_insert name \<lparr>gd_name = name, gd_bot_ids = bot_ids\<rparr> (rb_groups b)\<rparr>))"

section \<open>The frozen registry\<close>

record swarm_registry =
  sr_servers :: "(string \<times> server_def) list"
  sr_bots :: "(u32 \<times> bot_def) list"
  sr_username_to_id :: "(string \<times> u32) list"
  sr_groups :: "(string \<times> group_def) list"

definition build_registry :: "registry_builder \<Rightarrow> swarm_registry" where
  "build_registry b = \<lparr>sr_servers = rb_servers b, sr_bots = rb_bots b,
     sr_username_to_id = rb_username_to_id b, sr_groups = rb_groups b\<rparr>"

definition worker_index :: "u32 \<Rightarrow> nat \<Rightarrow> nat" where
  "worker_index bot_id worker_count = unat bot_id mod worker_count"

definition bot_by_username :: "swarm_registry \<Rightarrow> string \<Rightarrow> bot_def option" where
  "bot_by_username r username = (case bt_get (sr_username_to_id r) username of
     None \<Rightarrow> None
   | Some i \<Rightarrow> bt_get (sr_bots r) i)"

declare allocate_loop.simps [simp del]

section \<open>Allocating an id\<close>

lemma allocate_loop_spec:
  "case fst (allocate_loop bots n) of
     Ok i \<Rightarrow> n \<le> i \<and> \<not> bt_contains bots i \<and> (\<forall>j. n \<le> j \<and> j < i \<longrightarrow> bt_contains bots j) \<and>
       snd (allocate_loop bots n) = saturating_succ i
   | Err e \<Rightarrow> e = InvalidConfiguration \<and> (\<forall>j \<ge> n. bt_contains bots j) \<and> snd (allocate_loop bots n) = - 1"
proof (induction bots n rule: allocate_loop.induct)
  case (1 bots n)
  show ?case
  proof (cases "bt_contains bots n")
    case False
    then show ?thesis
      by (subst allocate_loop.simps, subst (2) allocate_loop.simps) (auto simp: saturating_succ_def)
  next
    case used: True
    show ?thesis
    proof (cases "n = - 1")
      case True
      have "j = - 1" if "- 1 \<le> j" for j :: u32
        using that by (simp add: word_order.extremum_unique)
      then show ?thesis
        using True used by (auto simp: allocate_loop.simps [of bots "- 1"])
    next
      case False
      then have eq: "allocate_loop bots n = allocate_loop bots (n + 1)"
        using used by (subst allocate_loop.simps) simp
      have above: "n + 1 \<le> j" if "n \<le> j" "j \<noteq> n" for j
        using that by (intro inc_le) simp
      have "n \<le> n + 1"
        using False unatSuc [of n] by (simp add: word_le_nat_alt add.commute eq_neg_iff_add_eq_0)
      then show ?thesis
        using "1.IH" used False above unfolding eq by (auto split: sum.splits intro: order_trans)
    qed
  qed
qed

section \<open>Consistency\<close>

definition bot_ok :: "registry_builder \<Rightarrow> u32 \<Rightarrow> bot_def \<Rightarrow> bool" where
  "bot_ok b i d \<longleftrightarrow> bd_id d = i \<and> bt_get (rb_username_to_id b) (bd_username d) = Some i \<and>
     bd_username d \<noteq> '''' \<and> length (bd_username d) \<le> MAX_USERNAME_LEN \<and>
     bt_contains (rb_servers b) (bd_server d) \<and>
     (\<forall>p. bd_proxy d = Some p \<longrightarrow> p \<in> set (rb_proxy_profile_ids b))"

text \<open>The ids in \<open>gone\<close> may have been removed after they were grouped.\<close>

definition builder_ok :: "u32 set \<Rightarrow> registry_builder \<Rightarrow> bool" where
  "builder_ok gone b \<longleftrightarrow>
     bt_ok (rb_servers b) \<and> bt_ok (rb_bots b) \<and> bt_ok (rb_username_to_id b) \<and> bt_ok (rb_groups b) \<and>
     (\<forall>i d. bt_get (rb_bots b) i = Some d \<longrightarrow> bot_ok b i d) \<and>
     (\<forall>u i. bt_get (rb_username_to_id b) u = Some i \<longrightarrow> (\<exists>d. bt_get (rb_bots b) i = Some d \<and> bd_username d = u)) \<and>
     length (rb_bots b) \<le> MAX_BOTS \<and> length (rb_groups b) \<le> MAX_GROUPS \<and>
     (\<forall>n g. bt_get (rb_groups b) n = Some g \<longrightarrow> gd_name g = n \<and>
        (\<forall>i \<in> set (gd_bot_ids g). bt_contains (rb_bots b) i \<or> i \<in> gone))"

lemma new_builder_ok: "builder_ok gone (new_builder profiles)"
  by (simp add: builder_ok_def new_builder_def)

lemma builder_ok_mono: "builder_ok gone b \<Longrightarrow> gone \<subseteq> gone' \<Longrightarrow> builder_ok gone' b"
  unfolding builder_ok_def by blast

lemma builder_ok_bot:
  assumes "builder_ok gone b" "bt_get (rb_bots b) k = Some d"
  shows "bt_get (rb_username_to_id b) (bd_username d) = Some k"
  using assms unfolding builder_ok_def bot_ok_def by blast

lemma builder_ok_name:
  assumes "builder_ok gone b" "bt_get (rb_username_to_id b) u = Some k"
  shows "\<exists>d. bt_get (rb_bots b) k = Some d \<and> bd_username d = u"
  using assms unfolding builder_ok_def by blast

lemma builder_ok_counter: "builder_ok gone (b\<lparr>rb_next_auto_id := n\<rparr>) = builder_ok gone b"
  by (simp add: builder_ok_def bot_ok_def)

lemma add_server_ok:
  assumes "builder_ok gone b"
  shows "builder_ok gone (snd (add_server d b))"
proof (cases "fst (add_server d b)")
  case (Inl e)
  then have "snd (add_server d b) = b"
    by (auto simp: add_server_def split: if_splits)
  then show ?thesis
    using assms by simp
next
  case (Inr u)
  then have "snd (add_server d b) = b\<lparr>rb_servers := bt_insert (sd_name d) d (rb_servers b)\<rparr>"
    by (auto simp: add_server_def split: if_splits)
  then show ?thesis
    using assms by (auto simp: builder_ok_def bot_ok_def bt_insert_ok)
qed

lemma bot_refused_None:
  assumes "bot_refused spec b = None"
  shows "bs_username spec \<noteq> ''''" and "length (bs_username spec) \<le> MAX_USERNAME_LEN"
    and "bt_contains (rb_servers b) (bs_server spec)"
    and "bs_proxy spec = Some p \<Longrightarrow> p \<in> set (rb_proxy_profile_ids b)"
    and "\<not> bt_contains (rb_username_to_id b) (bs_username spec)" and "length (rb_bots b) < MAX_BOTS"
  using assms by (auto simp: bot_refused_def split: if_splits option.splits)

lemma choose_id_cases:
  assumes "choose_id wanted b = (r, b1)"
  obtains (refused) e n where "r = Err e" "b1 = b\<lparr>rb_next_auto_id := n\<rparr>"
  | (chosen) i n where "r = Ok i" "b1 = b\<lparr>rb_next_auto_id := n\<rparr>" "\<not> bt_contains (rb_bots b) i"
proof (cases wanted)
  case None
  obtain q n where loop: "allocate_loop (rb_bots b) (rb_next_auto_id b) = (q, n)"
    by fastforce
  then have b1: "r = q" "b1 = b\<lparr>rb_next_auto_id := n\<rparr>"
    using assms None by (auto simp: choose_id_def allocate_id_def)
  show thesis
  proof (cases q)
    case (Inl e)
    then show thesis
      using refused [of e n] b1 by simp
  next
    case (Inr i)
    then have "\<not> bt_contains (rb_bots b) i"
      using allocate_loop_spec [where bots = "rb_bots b" and n = "rb_next_auto_id b"] loop by simp
    then show thesis
      using chosen [of i n] b1 Inr by simp
  qed
next
  case (Some i)
  have same: "b = b\<lparr>rb_next_auto_id := rb_next_auto_id b\<rparr>"
    by simp
  show thesis
  proof (cases "bt_contains (rb_bots b) i")
    case True
    then show thesis
      using assms Some refused [of "DuplicateBotId i" "rb_next_auto_id b"] same by (simp add: choose_id_def)
  next
    case False
    then show thesis
      using assms Some chosen [of i "rb_next_auto_id b"] same by (simp add: choose_id_def)
  qed
qed

lemma builder_ok_insert:
  assumes "builder_ok gone b" "bot_refused spec b = None" "\<not> bt_contains (rb_bots b) i"
  shows "builder_ok gone (b\<lparr>rb_username_to_id := bt_insert (bs_username spec) i (rb_username_to_id b),
    rb_bots := bt_insert i (bot_of i spec) (rb_bots b)\<rparr>)"
proof -
  note checks = bot_refused_None [OF assms(2)]
  have "length (bt_insert i (bot_of i spec) (rb_bots b)) \<le> MAX_BOTS"
    using assms checks(6) by (simp add: bt_insert_length builder_ok_def)
  moreover have fresh: "bd_username d \<noteq> bs_username spec" if "bt_get (rb_bots b) k = Some d" for k d
    using builder_ok_bot [OF assms(1) that] checks(5) by (auto simp: bt_contains_def)
  moreover have "k \<noteq> i" if "bt_get (rb_username_to_id b) u = Some k" for u k
    using builder_ok_name [OF assms(1) that] assms(3) by (auto simp: bt_contains_def)
  ultimately show ?thesis
    using assms(1) checks by (auto simp: builder_ok_def bot_ok_def bot_of_def bt_insert_ok)
qed

lemma add_bot_ok:
  assumes "builder_ok gone b"
  shows "builder_ok gone (snd (add_bot spec b))"
proof (cases "bot_refused spec b")
  case (Some e)
  then show ?thesis
    using assms by (simp add: add_bot_def)
next
  case None
  obtain r b1 where choose: "choose_id (bs_id spec) b = (r, b1)"
    by fastforce
  then show ?thesis
  proof (cases rule: choose_id_cases)
    case (refused e n)
    then show ?thesis
      using assms choose None by (simp add: add_bot_def builder_ok_counter)
  next
    case (chosen i n)
    let ?b = "b\<lparr>rb_username_to_id := bt_insert (bs_username spec) i (rb_username_to_id b),
      rb_bots := bt_insert i (bot_of i spec) (rb_bots b)\<rparr>"
    have "snd (add_bot spec b) = ?b\<lparr>rb_next_auto_id := max n (saturating_succ i)\<rparr>"
      using choose None chosen by (simp add: add_bot_def)
    then show ?thesis
      using builder_ok_insert [OF assms None chosen(3)] by (simp only: builder_ok_counter)
  qed
qed

lemma remove_bot_ok:
  assumes "builder_ok gone b"
  shows "builder_ok (insert i gone) (snd (remove_bot i b))"
proof (cases "bt_get (rb_bots b) i")
  case None
  then show ?thesis
    using builder_ok_mono [OF assms] by (auto simp: remove_bot_def)
next
  case (Some d)
  have "bd_username d' \<noteq> bd_username d" if "bt_get (rb_bots b) k = Some d'" "k \<noteq> i" for k d'
    using builder_ok_bot [OF assms Some] builder_ok_bot [OF assms that(1)] that(2) by auto
  moreover have "k \<noteq> i" if "bt_get (rb_username_to_id b) u = Some k" "u \<noteq> bd_username d" for u k
    using builder_ok_name [OF assms that(1)] Some that(2) by auto
  moreover have "bt_contains (rb_bots b) j" if "bt_get (rb_groups b) n = Some g" "j \<in> set (gd_bot_ids g)" "j \<notin> gone" for n g j
    using assms that unfolding builder_ok_def by blast
  moreover have "length (bt_remove i (rb_bots b)) \<le> MAX_BOTS"
    using assms bt_remove_length [of i "rb_bots b"] by (simp add: builder_ok_def)
  ultimately show ?thesis
    using assms Some by (auto simp: builder_ok_def bot_ok_def remove_bot_def bt_remove_ok)
qed

lemma add_group_ok:
  assumes "builder_ok gone b"
  shows "builder_ok gone (snd (add_group name ids b))"
proof (cases "fst (add_group name ids b)")
  case (Inl e)
  then have "snd (add_group name ids b) = b"
    by (auto simp: add_group_def split: if_splits)
  then show ?thesis
    using assms by simp
next
  case (Inr u)
  then have "snd (add_group name ids b) = b\<lparr>rb_groups := bt_insert name \<lparr>gd_name = name, gd_bot_ids = ids\<rparr> (rb_groups b)\<rparr>"
    and "length (rb_groups b) < MAX_GROUPS" "list_all (bt_contains (rb_bots b)) ids" "\<not> bt_contains (rb_groups b) name"
    by (auto simp: add_group_def split: if_splits)
  then show ?thesis
    using assms by (auto simp: builder_ok_def bot_ok_def bt_insert_ok bt_insert_length list_all_iff)
qed

section \<open>Any configuration script\<close>

text \<open>The calls a script makes, in any order and with any arguments; it may go on after an error.\<close>

datatype registry_call =
    CallAddServer server_def
  | CallAddBot bot_spec
  | CallRemoveBot u32
  | CallAddGroup string "u32 list"

fun call_step :: "registry_call \<Rightarrow> registry_builder \<Rightarrow> registry_builder" where
  "call_step (CallAddServer d) b = snd (add_server d b)"
| "call_step (CallAddBot spec) b = snd (add_bot spec b)"
| "call_step (CallRemoveBot i) b = snd (remove_bot i b)"
| "call_step (CallAddGroup name ids) b = snd (add_group name ids b)"

lemma call_step_ok:
  assumes "builder_ok gone b" "\<And>i. call = CallRemoveBot i \<Longrightarrow> i \<in> gone"
  shows "builder_ok gone (call_step call b)"
proof (cases call)
  case (CallRemoveBot i)
  then have "insert i gone = gone"
    using assms(2) by (simp add: insert_absorb)
  then show ?thesis
    using remove_bot_ok [OF assms(1), of i] CallRemoveBot by simp
qed (use assms(1) add_server_ok add_bot_ok add_group_ok in simp_all)

lemma call_steps_ok:
  assumes "builder_ok gone b" "\<And>i. CallRemoveBot i \<in> set calls \<Longrightarrow> i \<in> gone"
  shows "builder_ok gone (fold call_step calls b)"
  using assms
proof (induction calls arbitrary: b)
  case (Cons call calls)
  then show ?case
    using call_step_ok [of gone b call] by simp
qed simp

lemma call_step_profiles: "rb_proxy_profile_ids (call_step call b) = rb_proxy_profile_ids b"
proof (cases call)
  case (CallAddBot spec)
  obtain r b1 where choose: "choose_id (bs_id spec) b = (r, b1)"
    by fastforce
  then show ?thesis
    by (cases rule: choose_id_cases) (auto simp: CallAddBot add_bot_def choose split: option.split)
qed (simp_all add: add_server_def remove_bot_def add_group_def split: option.split)

lemma call_steps_profiles: "rb_proxy_profile_ids (fold call_step calls b) = rb_proxy_profile_ids b"
  by (induction calls arbitrary: b) (simp_all add: call_step_profiles)

section \<open>Properties\<close>

text \<open>C9: Whatever a configuration script does, the registry it leaves is consistent. Usernames and ids
  name each other: looking a bot up by its username finds exactly the bot that has it. Every
  bot is on a defined server and uses no proxy but a profile the host registered. There are at
  most 20000 bots and 4000 groups, and a group names only bots that exist or were removed.\<close>

theorem registry_consistent:
  fixes calls profiles
  defines "r \<equiv> build_registry (fold call_step calls (new_builder profiles))"
  shows "(\<forall>u d. bot_by_username r u = Some d \<longleftrightarrow> bt_get (sr_bots r) (bd_id d) = Some d \<and> bd_username d = u) \<and>
    (\<forall>i d. bt_get (sr_bots r) i = Some d \<longrightarrow> bd_id d = i \<and> bt_contains (sr_servers r) (bd_server d) \<and>
       (\<forall>p. bd_proxy d = Some p \<longrightarrow> p \<in> set profiles)) \<and>
    length (sr_bots r) \<le> MAX_BOTS \<and> length (sr_groups r) \<le> MAX_GROUPS \<and>
    (\<forall>n g i. bt_get (sr_groups r) n = Some g \<and> i \<in> set (gd_bot_ids g) \<longrightarrow>
       bt_contains (sr_bots r) i \<or> CallRemoveBot i \<in> set calls)"
proof -
  let ?b = "fold call_step calls (new_builder profiles)"
  let ?gone = "{i. CallRemoveBot i \<in> set calls}"
  have ok: "builder_ok ?gone ?b"
    by (rule call_steps_ok [OF new_builder_ok]) simp
  have "bot_by_username r u = Some d \<longleftrightarrow> bt_get (sr_bots r) (bd_id d) = Some d \<and> bd_username d = u" for u d
  proof
    assume "bot_by_username r u = Some d"
    then obtain i where i: "bt_get (rb_username_to_id ?b) u = Some i" "bt_get (rb_bots ?b) i = Some d"
      by (auto simp: bot_by_username_def r_def build_registry_def split: option.splits)
    moreover have "bd_id d = i"
      using ok i(2) unfolding builder_ok_def bot_ok_def by blast
    ultimately show "bt_get (sr_bots r) (bd_id d) = Some d \<and> bd_username d = u"
      using builder_ok_name [OF ok i(1)] by (auto simp: r_def build_registry_def)
  next
    assume "bt_get (sr_bots r) (bd_id d) = Some d \<and> bd_username d = u"
    then show "bot_by_username r u = Some d"
      using builder_ok_bot [OF ok, of "bd_id d" d] by (simp add: bot_by_username_def r_def build_registry_def)
  qed
  moreover have "bd_id d = i \<and> bt_contains (sr_servers r) (bd_server d) \<and> (\<forall>p. bd_proxy d = Some p \<longrightarrow> p \<in> set profiles)"
    if "bt_get (sr_bots r) i = Some d" for i d
    using ok that call_steps_profiles [of calls "new_builder profiles"]
    by (auto simp: builder_ok_def bot_ok_def r_def build_registry_def new_builder_def)
  moreover have "length (sr_bots r) \<le> MAX_BOTS" "length (sr_groups r) \<le> MAX_GROUPS"
    using ok by (simp_all add: builder_ok_def r_def build_registry_def)
  moreover have "bt_contains (sr_bots r) i \<or> CallRemoveBot i \<in> set calls"
    if "bt_get (sr_groups r) n = Some g" "i \<in> set (gd_bot_ids g)" for n g i
    using ok that unfolding builder_ok_def r_def build_registry_def by auto
  ultimately show ?thesis
    by blast
qed

definition sample_server :: server_def where
  "sample_server = \<lparr>sd_name = ''main'', sd_host = ''mc.example'', sd_port = 25565, sd_view_distance = 10,
     sd_write_timeout = 10, sd_connect_deadline = 15, sd_shared_chunks = True, sd_accept_resource_packs = True\<rparr>"

definition sample_bot :: "u32 option \<Rightarrow> string \<Rightarrow> bot_spec" where
  "sample_bot i name = \<lparr>bs_id = i, bs_username = name, bs_server = ''main'', bs_proxy = Some ''p1'',
     bs_reconnect = default_policy, bs_label = None\<rparr>"

definition sample_calls :: "registry_call list" where
  "sample_calls = [CallAddServer sample_server, CallAddBot (sample_bot (Some 5) ''ann''),
     CallAddBot (sample_bot None ''bob''), CallAddGroup ''team'' [5, 6]]"

theorem registry_consistent_witness:
  "let r = build_registry (fold call_step sample_calls (new_builder [''p1''])) in
   (\<exists>d. bot_by_username r ''bob'' = Some d \<and> bd_id d = 6 \<and> bt_contains (sr_servers r) (bd_server d) \<and> bd_username d = ''bob'')"
proof -
  let ?r = "build_registry (fold call_step sample_calls (new_builder [''p1'']))"
  have "map_option bd_id (bot_by_username ?r ''bob'') = Some 6"
    by code_simp
  then obtain d where d: "bot_by_username ?r ''bob'' = Some d" "bd_id d = 6"
    by auto
  then have "bt_get (sr_bots ?r) 6 = Some d" "bd_username d = ''bob''"
    using registry_consistent [of sample_calls "[''p1'']"] by auto
  then have "bt_contains (sr_servers ?r) (bd_server d)"
    using registry_consistent [of sample_calls "[''p1'']"] by blast
  then show ?thesis
    using d \<open>bd_username d = ''bob''\<close> by (auto simp: Let_def)
qed

text \<open>C39: Automatic ids are found, and only real exhaustion fails. \<open>allocate_id\<close> always returns: it
  gives the least id from its counter on that no bot uses, and moves the counter past it; it
  fails exactly when every id from the counter up to \<open>u32::MAX\<close> is in use.\<close>

theorem allocate_id_finds_least:
  "(case allocate_id b of
     (Ok i, b') \<Rightarrow> rb_next_auto_id b \<le> i \<and> \<not> bt_contains (rb_bots b) i \<and>
       (\<forall>j. rb_next_auto_id b \<le> j \<and> j < i \<longrightarrow> bt_contains (rb_bots b) j) \<and>
       b' = b\<lparr>rb_next_auto_id := saturating_succ i\<rparr>
   | (Err e, b') \<Rightarrow> e = InvalidConfiguration \<and> (\<forall>j. rb_next_auto_id b \<le> j \<longrightarrow> bt_contains (rb_bots b) j))"
proof -
  obtain r n where loop: "allocate_loop (rb_bots b) (rb_next_auto_id b) = (r, n)"
    by fastforce
  then show ?thesis
    using allocate_loop_spec [where bots = "rb_bots b" and n = "rb_next_auto_id b"]
    by (auto simp: allocate_id_def split: sum.splits)
qed

theorem allocate_id_finds_least_witness:
  "fst (allocate_id ((fold call_step sample_calls (new_builder [''p1'']))\<lparr>rb_next_auto_id := 5\<rparr>)) = Ok 7 \<and>
   bt_contains (rb_bots (fold call_step sample_calls (new_builder [''p1'']))) 6"
proof -
  let ?b = "(fold call_step sample_calls (new_builder [''p1'']))\<lparr>rb_next_auto_id := 5\<rparr>"
  have "fst (allocate_id ?b) = Ok 7" "rb_next_auto_id ?b = 5"
    by code_simp+
  then show ?thesis
    using allocate_id_finds_least [of ?b] by (auto split: prod.splits)
qed

text \<open>
  The counter saturates at the largest id. So, against the comment of \<open>remove_bot\<close>, a removed id
  can be handed out again: \<open>u32::MAX\<close> is, to the next bot without an id of its own.
\<close>

lemma removed_id_is_reused:
  "fst (add_bot (sample_bot None ''bob'') (fold call_step [CallAddServer sample_server,
     CallAddBot (sample_bot (Some 4294967295) ''ann''), CallRemoveBot 4294967295] (new_builder [''p1'']))) = Ok 4294967295"
  by code_simp

end
