(* ===== verification/Wire_Traits.thy ===== *)
theory Wire_Traits
  imports Wire_Nbt
begin

text \<open>
  The \<open>Encode\<close> and \<open>Decode\<close> traits (crates/minerider-protocol/src/traits.rs) that every generated
  packet implements: encoding may fail, so it returns the writer in a \<open>Result\<close>. The implementations for
  vectors and options are functions of the implementation for their elements, as in the source.

  The contract of an implementation is the locale \<open>trait_codec\<close>: on the values it is meant for,
  encoding succeeds and appends some bytes, and decoding those bytes gives the value back. Every
  infallible writer and reader pair is one (\<open>sublocale\<close>), strings and NBT values are, and vectors,
  options and the switches of the generated code (a field whose type depends on another field) are
  whenever their elements are.
\<close>

section \<open>The implementations\<close>

fun encode_items ::
  "(packet_writer \<Rightarrow> 'v \<Rightarrow> protocol_error + packet_writer) \<Rightarrow> packet_writer \<Rightarrow> 'v list \<Rightarrow>
   protocol_error + packet_writer" where
  "encode_items encode w [] = Ok w"
| "encode_items encode w (v # vs) = and_then (encode w v) (\<lambda>w'. encode_items encode w' vs)"

definition encode_vec ::
  "(packet_writer \<Rightarrow> 'v \<Rightarrow> protocol_error + packet_writer) \<Rightarrow> packet_writer \<Rightarrow> 'v list \<Rightarrow>
   protocol_error + packet_writer" where
  "encode_vec encode w vs = encode_items encode (put_varint w (word_of_nat (length vs))) vs"

definition decode_vec :: "(packet_reader \<Rightarrow> 'v reading) \<Rightarrow> packet_reader \<Rightarrow> 'v list reading" where
  "decode_vec decode r = read_array decode r"

definition encode_option ::
  "(packet_writer \<Rightarrow> 'v \<Rightarrow> protocol_error + packet_writer) \<Rightarrow> packet_writer \<Rightarrow> 'v option \<Rightarrow>
   protocol_error + packet_writer" where
  "encode_option encode w v =
     (let w1 = put_bool w (v \<noteq> None) in case v of Some x \<Rightarrow> encode w1 x | None \<Rightarrow> Ok w1)"

definition decode_option :: "(packet_reader \<Rightarrow> 'v reading) \<Rightarrow> packet_reader \<Rightarrow> 'v option reading" where
  "decode_option decode r = read_option decode r"

definition encode_string :: "packet_writer \<Rightarrow> string \<Rightarrow> protocol_error + packet_writer" where
  "encode_string w s = put_string w s"

definition decode_string :: "packet_reader \<Rightarrow> string reading" where
  "decode_string r = read_string r"

definition encode_unit :: "packet_writer \<Rightarrow> unit \<Rightarrow> protocol_error + packet_writer" where
  "encode_unit w v = Ok w"

definition decode_unit :: "packet_reader \<Rightarrow> unit reading" where
  "decode_unit r = Ok ((), r)"

definition ensure_consumed :: "packet_reader \<Rightarrow> string \<Rightarrow> protocol_error + unit" where
  "ensure_consumed r ctx = (if is_empty r then Ok () else Err (TrailingBytes ctx (remaining r)))"

section \<open>The contract\<close>

lemma put_bytes_append [simp]: "put_bytes (put_bytes w a) b = put_bytes w (a @ b)"
  by (simp add: put_bytes_def)

lemma put_bytes_Nil [simp]: "put_bytes w [] = w"
  by (simp add: put_bytes_def)

lemma writer_eqI: "wr_buf w' = wr_buf w @ bs \<Longrightarrow> w' = put_bytes w bs"
  by (cases w; cases w') (simp add: put_bytes_def)

locale trait_codec =
  fixes encode :: "packet_writer \<Rightarrow> 'v \<Rightarrow> protocol_error + packet_writer"
    and decode :: "packet_reader \<Rightarrow> 'v reading"
    and bytes :: "'v \<Rightarrow> u8 list"
    and ok :: "'v \<Rightarrow> bool"
  assumes encode_ok: "ok v \<Longrightarrow> encode w v = Ok (put_bytes w (bytes v))"
    and decode_ok: "ok v \<Longrightarrow> decode (reader_at pre (bytes v @ suf)) = Ok (v, reader_at (pre @ bytes v) suf)"
begin

definition option_bytes :: "'v option \<Rightarrow> u8 list" where
  "option_bytes v = (case v of None \<Rightarrow> [0] | Some x \<Rightarrow> 1 # bytes x)"

lemma roundtrip:
  assumes "ok v"
  shows "\<exists>w. encode new_writer v = Ok w \<and> decode (new_reader (wr_buf w)) = Ok (v, reader_at (wr_buf w) [])"
  using encode_ok [OF assms, of new_writer] decode_ok [OF assms, of "[]" "[]"]
  by (simp add: new_reader_at new_writer_def)

lemma option_codec:
  "trait_codec (encode_option encode) (decode_option decode) option_bytes (\<lambda>v. case v of None \<Rightarrow> True | Some x \<Rightarrow> ok x)"
proof
  fix v :: "'v option" and w pre suf
  assume v: "case v of None \<Rightarrow> True | Some x \<Rightarrow> ok x"
  show "encode_option encode w v = Ok (put_bytes w (option_bytes v))"
    using v encode_ok [of _ "put_bytes w [1]"]
    by (cases v) (simp_all add: encode_option_def option_bytes_def put_bool_def put_u8_def put_bytes_def)
  have b0: "get_bool (reader_at pre (0 # t)) = Ok (False, reader_at (pre @ [0]) t)"
    and b1: "get_bool (reader_at pre (1 # t)) = Ok (True, reader_at (pre @ [1]) t)" for t
    by (simp_all add: get_bool_def wire_simps)
  show "decode_option decode (reader_at pre (option_bytes v @ suf)) = Ok (v, reader_at (pre @ option_bytes v) suf)"
    using v decode_ok [of _ "pre @ [1]" suf]
    by (cases v) (simp_all add: decode_option_def read_option_def option_bytes_def b0 b1)
qed

end

text \<open>Elements of a vector take at least one byte, which the bound of \<open>read_array\<close> relies on.\<close>

locale sized_codec = trait_codec +
  assumes bytes_nonempty: "ok v \<Longrightarrow> bytes v \<noteq> []"
begin

definition vec_bytes :: "'a list \<Rightarrow> u8 list" where
  "vec_bytes vs = write_var_loop (word_of_nat (length vs) :: i32) @ concat (map bytes vs)"

lemma encode_items_ok: "list_all ok vs \<Longrightarrow> encode_items encode w vs = Ok (put_bytes w (concat (map bytes vs)))"
  by (induction vs arbitrary: w) (auto simp: encode_ok)

lemma read_n_ok:
  "list_all ok vs \<Longrightarrow> read_n decode (length vs) (reader_at pre (concat (map bytes vs) @ suf)) =
    Ok (vs, reader_at (pre @ concat (map bytes vs)) suf)"
  by (induction vs arbitrary: pre) (auto simp: decode_ok)

lemma length_bytes: "list_all ok vs \<Longrightarrow> length vs \<le> length (concat (map bytes vs))"
proof (induction vs)
  case (Cons v vs)
  then show ?case using bytes_nonempty [of v] by (cases "bytes v") auto
qed simp

lemma vec_codec:
  "sized_codec (encode_vec encode) (decode_vec decode) vec_bytes (\<lambda>vs. list_all ok vs \<and> length vs < 2 ^ 31)"
proof
  fix vs :: "'a list" and w pre suf
  assume v: "list_all ok vs \<and> length vs < 2 ^ 31"
  have "put_varint w (word_of_nat (length vs)) = put_bytes w (write_var_loop (word_of_nat (length vs) :: i32))"
    by (rule writer_eqI) simp
  then show "encode_vec encode w vs = Ok (put_bytes w (vec_bytes vs))"
    using v by (simp add: encode_vec_def vec_bytes_def encode_items_ok)
  show "decode_vec decode (reader_at pre (vec_bytes vs @ suf)) = Ok (vs, reader_at (pre @ vec_bytes vs) suf)"
    using v length_bytes [of vs] read_n_ok [of vs]
    by (simp add: decode_vec_def read_array_def vec_bytes_def wire_simps sint_word_of_nat_len)
  show "vec_bytes vs \<noteq> []" by (simp add: vec_bytes_def)
qed

end

sublocale wire_codec \<subseteq> fixed: sized_codec "\<lambda>w v. Ok (put w v)" get enc valid
  by unfold_locales (auto simp: get_enc enc_nonempty intro: writer_eqI put_enc)

definition str_ok :: "string \<Rightarrow> bool" where
  "str_ok s \<longleftrightarrow> valid_str s \<and> chars_count s \<le> 32767"

definition string_bytes :: "string \<Rightarrow> u8 list" where
  "string_bytes s = byte_array_enc (as_bytes s)"

interpretation str: sized_codec encode_string decode_string string_bytes str_ok
proof
  fix s w
  assume "str_ok s"
  then show "encode_string w s = Ok (put_bytes w (string_bytes s))"
    using put_string_Ok [of s w] by (auto simp: encode_string_def string_bytes_def str_ok_def intro: writer_eqI)
  show "string_bytes s \<noteq> []" by (simp add: string_bytes_def byte_array_enc_def)
qed (auto simp: decode_string_def string_bytes_def str_ok_def wire_simps)

interpretation nbt_value: sized_codec encode_nbt decode_nbt nbt_enc nbt_ok
proof
  fix v w
  assume "nbt_ok v"
  then show "encode_nbt w v = Ok (put_bytes w (nbt_enc v))"
    using encode_nbt_enc [of v w] by (auto simp: nbt_ok_def intro: writer_eqI)
  show "nbt_enc v \<noteq> []" by (simp add: nbt_enc_def)
qed (rule nbt.get_enc)

interpretation void: trait_codec encode_unit decode_unit "\<lambda>_. []" "\<lambda>_. True"
  by unfold_locales (simp_all add: encode_unit_def decode_unit_def)

section \<open>Switches\<close>

text \<open>
  A field whose presence depends on a discriminant of the packet. The generated code has one
  enum per field; fields that are present for the discriminants 0 and 2, or 1 and 2 of an optional
  one, differ only in their payload.
\<close>

datatype 'v switch02 = V0 'v | V2 'v | SwitchDefault

definition decode_switch02 ::
  "(packet_reader \<Rightarrow> 'v reading) \<Rightarrow> i8 \<Rightarrow> packet_reader \<Rightarrow> 'v switch02 reading" where
  "decode_switch02 decode d r =
     (if d = 0 then and_then (decode r) (\<lambda>(v, r'). Ok (V0 v, r'))
      else if d = 2 then and_then (decode r) (\<lambda>(v, r'). Ok (V2 v, r'))
      else Ok (SwitchDefault, r))"

definition encode_switch02 ::
  "(packet_writer \<Rightarrow> 'v \<Rightarrow> protocol_error + packet_writer) \<Rightarrow> i8 \<Rightarrow> packet_writer \<Rightarrow> 'v switch02 \<Rightarrow>
   protocol_error + packet_writer" where
  "encode_switch02 encode d w s =
     (if d = 0 then (case s of V0 v \<Rightarrow> encode w v | _ \<Rightarrow> Err InvalidData)
      else if d = 2 then (case s of V2 v \<Rightarrow> encode w v | _ \<Rightarrow> Err InvalidData)
      else (case s of SwitchDefault \<Rightarrow> Ok w | _ \<Rightarrow> Err InvalidData))"

datatype 'v switch12 = V1 'v | V12 'v | SwitchNone

definition decode_switch12 ::
  "(packet_reader \<Rightarrow> 'v reading) \<Rightarrow> i64 option \<Rightarrow> packet_reader \<Rightarrow> 'v switch12 reading" where
  "decode_switch12 decode d r =
     (if d = Some 1 then and_then (decode r) (\<lambda>(v, r'). Ok (V1 v, r'))
      else if d = Some 2 then and_then (decode r) (\<lambda>(v, r'). Ok (V12 v, r'))
      else Ok (SwitchNone, r))"

definition encode_switch12 ::
  "(packet_writer \<Rightarrow> 'v \<Rightarrow> protocol_error + packet_writer) \<Rightarrow> i64 option \<Rightarrow> packet_writer \<Rightarrow> 'v switch12 \<Rightarrow>
   protocol_error + packet_writer" where
  "encode_switch12 encode d w s =
     (if d = Some 1 then (case s of V1 v \<Rightarrow> encode w v | _ \<Rightarrow> Err InvalidData)
      else if d = Some 2 then (case s of V12 v \<Rightarrow> encode w v | _ \<Rightarrow> Err InvalidData)
      else (case s of SwitchNone \<Rightarrow> Ok w | _ \<Rightarrow> Err InvalidData))"

fun switch02_bytes :: "('v \<Rightarrow> u8 list) \<Rightarrow> 'v switch02 \<Rightarrow> u8 list" where
  "switch02_bytes bytes (V0 v) = bytes v"
| "switch02_bytes bytes (V2 v) = bytes v"
| "switch02_bytes bytes SwitchDefault = []"

definition switch02_ok :: "('v \<Rightarrow> bool) \<Rightarrow> i8 \<Rightarrow> 'v switch02 \<Rightarrow> bool" where
  "switch02_ok ok d s \<longleftrightarrow>
     (case s of V0 v \<Rightarrow> d = 0 \<and> ok v | V2 v \<Rightarrow> d = 2 \<and> ok v | SwitchDefault \<Rightarrow> d \<noteq> 0 \<and> d \<noteq> 2)"

fun switch12_bytes :: "('v \<Rightarrow> u8 list) \<Rightarrow> 'v switch12 \<Rightarrow> u8 list" where
  "switch12_bytes bytes (V1 v) = bytes v"
| "switch12_bytes bytes (V12 v) = bytes v"
| "switch12_bytes bytes SwitchNone = []"

definition switch12_ok :: "('v \<Rightarrow> bool) \<Rightarrow> i64 option \<Rightarrow> 'v switch12 \<Rightarrow> bool" where
  "switch12_ok ok d s \<longleftrightarrow>
     (case s of V1 v \<Rightarrow> d = Some 1 \<and> ok v | V12 v \<Rightarrow> d = Some 2 \<and> ok v
      | SwitchNone \<Rightarrow> d \<noteq> Some 1 \<and> d \<noteq> Some 2)"

context trait_codec
begin

lemma switch02_codec:
  "trait_codec (encode_switch02 encode d) (decode_switch02 decode d) (switch02_bytes bytes) (switch02_ok ok d)"
  by unfold_locales
     (auto simp: encode_switch02_def decode_switch02_def switch02_ok_def encode_ok decode_ok split: switch02.splits)

lemma switch12_codec:
  "trait_codec (encode_switch12 encode d) (decode_switch12 decode d) (switch12_bytes bytes) (switch12_ok ok d)"
  by unfold_locales
     (auto simp: encode_switch12_def decode_switch12_def switch12_ok_def encode_ok decode_ok split: switch12.splits)

end

end
