(* ===== verification/Scoreboard_Packets.thy ===== *)
theory Scoreboard_Packets
  imports Wire_Traits
begin

text \<open>
  The generated scoreboard and team packets
  (crates/minerider-protocol/src/generated/v1_21_4/play.rs): their structs, encoders and decoders. A
  field that is present for some actions only is a switch of \<open>Wire_Traits\<close>; the struct encoder checks
  that it matches the action. Every packet is a \<open>trait_codec\<close>.
\<close>

section \<open>Objectives\<close>

type_synonym objective_display_text = "nbt switch02"
type_synonym objective_type = "i32 switch02"
type_synonym objective_number_format = "i32 option switch02"
type_synonym objective_styling = "nbt switch12 switch02"

record packet_scoreboard_objective =
  so_name :: string
  so_action :: i8
  so_display_text :: objective_display_text
  so_type :: objective_type
  so_number_format :: objective_number_format
  so_styling :: objective_styling

definition encode_varint :: "packet_writer \<Rightarrow> i32 \<Rightarrow> protocol_error + packet_writer" where
  "encode_varint w v = Ok (put_varint w v)"

text \<open>The inner styling enum is written without a look at the number format.\<close>

definition encode_styling_payload :: "packet_writer \<Rightarrow> nbt switch12 \<Rightarrow> protocol_error + packet_writer" where
  "encode_styling_payload w s =
     (case s of V1 v \<Rightarrow> encode_nbt w v | V12 v \<Rightarrow> encode_nbt w v | SwitchNone \<Rightarrow> Ok w)"

definition objective_kind :: "objective_number_format \<Rightarrow> i64 option" where
  "objective_kind nf =
     (case nf of V0 v \<Rightarrow> map_option scast v | V2 v \<Rightarrow> map_option scast v | SwitchDefault \<Rightarrow> None)"

definition encode_objective ::
  "packet_writer \<Rightarrow> packet_scoreboard_objective \<Rightarrow> protocol_error + packet_writer" where
  "encode_objective w p =
     and_then (encode_string w (so_name p)) (\<lambda>w1.
     and_then (encode_switch02 encode_nbt (so_action p) (put_i8 w1 (so_action p)) (so_display_text p)) (\<lambda>w2.
     and_then (encode_switch02 encode_varint (so_action p) w2 (so_type p)) (\<lambda>w3.
     and_then (encode_switch02 (encode_option encode_varint) (so_action p) w3 (so_number_format p)) (\<lambda>w4.
       encode_switch02 encode_styling_payload (so_action p) w4 (so_styling p)))))"

definition decode_display_text :: "i8 \<Rightarrow> packet_reader \<Rightarrow> objective_display_text reading" where
  "decode_display_text = decode_switch02 decode_nbt"

definition decode_objective_type :: "i8 \<Rightarrow> packet_reader \<Rightarrow> objective_type reading" where
  "decode_objective_type = decode_switch02 get_varint"

definition decode_number_format :: "i8 \<Rightarrow> packet_reader \<Rightarrow> objective_number_format reading" where
  "decode_number_format = decode_switch02 (decode_option get_varint)"

definition decode_styling_v0 :: "i64 option \<Rightarrow> packet_reader \<Rightarrow> nbt switch12 reading" where
  "decode_styling_v0 = decode_switch12 decode_nbt"

definition decode_styling_v2 :: "i64 option \<Rightarrow> packet_reader \<Rightarrow> nbt switch12 reading" where
  "decode_styling_v2 = decode_switch12 decode_nbt"

definition decode_objective_styling :: "i8 \<Rightarrow> i64 option \<Rightarrow> packet_reader \<Rightarrow> objective_styling reading" where
  "decode_objective_styling d number_format r =
     (if d = 0 then and_then (decode_styling_v0 number_format r) (\<lambda>(v, r'). Ok (V0 v, r'))
      else if d = 2 then and_then (decode_styling_v2 number_format r) (\<lambda>(v, r'). Ok (V2 v, r'))
      else Ok (SwitchDefault, r))"

definition decode_objective :: "packet_reader \<Rightarrow> packet_scoreboard_objective reading" where
  "decode_objective r =
     and_then (decode_string r) (\<lambda>(name, r1).
     and_then (get_i8 r1) (\<lambda>(action, r2).
     and_then (decode_display_text action r2) (\<lambda>(display_text, r3).
     and_then (decode_objective_type action r3) (\<lambda>(type, r4).
     and_then (decode_number_format action r4) (\<lambda>(number_format, r5).
     and_then (decode_objective_styling action (objective_kind number_format) r5) (\<lambda>(styling, r6).
       Ok (\<lparr>so_name = name, so_action = action, so_display_text = display_text, so_type = type,
            so_number_format = number_format, so_styling = styling\<rparr>, r6)))))))"

section \<open>Display slots and scores\<close>

record packet_display_objective =
  do_position :: i32
  do_name :: string

definition encode_display_objective ::
  "packet_writer \<Rightarrow> packet_display_objective \<Rightarrow> protocol_error + packet_writer" where
  "encode_display_objective w p = encode_string (put_varint w (do_position p)) (do_name p)"

definition decode_display_objective :: "packet_reader \<Rightarrow> packet_display_objective reading" where
  "decode_display_objective r =
     and_then (get_varint r) (\<lambda>(position, r1).
     and_then (decode_string r1) (\<lambda>(name, r2). Ok (\<lparr>do_position = position, do_name = name\<rparr>, r2)))"

record packet_reset_score =
  rs_entity_name :: string
  rs_objective_name :: "string option"

definition encode_reset_score :: "packet_writer \<Rightarrow> packet_reset_score \<Rightarrow> protocol_error + packet_writer" where
  "encode_reset_score w p =
     and_then (encode_string w (rs_entity_name p)) (\<lambda>w1. encode_option encode_string w1 (rs_objective_name p))"

definition decode_reset_score :: "packet_reader \<Rightarrow> packet_reset_score reading" where
  "decode_reset_score r =
     and_then (decode_string r) (\<lambda>(entity_name, r1).
     and_then (decode_option decode_string r1) (\<lambda>(objective_name, r2).
       Ok (\<lparr>rs_entity_name = entity_name, rs_objective_name = objective_name\<rparr>, r2)))"

type_synonym score_styling = "nbt switch12"

record packet_scoreboard_score =
  sc_item_name :: string
  sc_score_name :: string
  sc_value :: i32
  sc_display_name :: "nbt option"
  sc_number_format :: "i32 option"
  sc_styling :: score_styling

definition decode_score_styling :: "i64 option \<Rightarrow> packet_reader \<Rightarrow> score_styling reading" where
  "decode_score_styling = decode_switch12 decode_nbt"

definition encode_score :: "packet_writer \<Rightarrow> packet_scoreboard_score \<Rightarrow> protocol_error + packet_writer" where
  "encode_score w p =
     and_then (encode_string w (sc_item_name p)) (\<lambda>w1.
     and_then (encode_string w1 (sc_score_name p)) (\<lambda>w2.
     and_then (encode_option encode_nbt (put_varint w2 (sc_value p)) (sc_display_name p)) (\<lambda>w3.
     and_then (encode_option encode_varint w3 (sc_number_format p)) (\<lambda>w4.
       encode_switch12 encode_nbt (map_option scast (sc_number_format p)) w4 (sc_styling p)))))"

definition decode_score :: "packet_reader \<Rightarrow> packet_scoreboard_score reading" where
  "decode_score r =
     and_then (decode_string r) (\<lambda>(item_name, r1).
     and_then (decode_string r1) (\<lambda>(score_name, r2).
     and_then (get_varint r2) (\<lambda>(v, r3).
     and_then (decode_option decode_nbt r3) (\<lambda>(display_name, r4).
     and_then (decode_option get_varint r4) (\<lambda>(number_format, r5).
     and_then (decode_score_styling (map_option scast number_format) r5) (\<lambda>(styling, r6).
       Ok (\<lparr>sc_item_name = item_name, sc_score_name = score_name, sc_value = v,
            sc_display_name = display_name, sc_number_format = number_format, sc_styling = styling\<rparr>, r6)))))))"

section \<open>Teams\<close>

type_synonym teams_name = "nbt switch02"
type_synonym teams_friendly_fire = "i8 switch02"
type_synonym teams_name_tag_visibility = "string switch02"
type_synonym teams_collision_rule = "string switch02"
type_synonym teams_formatting = "i32 switch02"
type_synonym teams_prefix = "nbt switch02"
type_synonym teams_suffix = "nbt switch02"

datatype teams_players =
  PlayersV0 "string list" | PlayersV3 "string list" | PlayersV4 "string list" | PlayersDefault

record packet_teams =
  tm_team :: string
  tm_mode :: i8
  tm_name :: teams_name
  tm_friendly_fire :: teams_friendly_fire
  tm_name_tag_visibility :: teams_name_tag_visibility
  tm_collision_rule :: teams_collision_rule
  tm_formatting :: teams_formatting
  tm_prefix :: teams_prefix
  tm_suffix :: teams_suffix
  tm_players :: teams_players

definition encode_i8 :: "packet_writer \<Rightarrow> i8 \<Rightarrow> protocol_error + packet_writer" where
  "encode_i8 w v = Ok (put_i8 w v)"

definition encode_teams_players :: "i8 \<Rightarrow> packet_writer \<Rightarrow> teams_players \<Rightarrow> protocol_error + packet_writer" where
  "encode_teams_players d w p =
     (if d = 0 then (case p of PlayersV0 v \<Rightarrow> encode_vec encode_string w v | _ \<Rightarrow> Err InvalidData)
      else if d = 3 then (case p of PlayersV3 v \<Rightarrow> encode_vec encode_string w v | _ \<Rightarrow> Err InvalidData)
      else if d = 4 then (case p of PlayersV4 v \<Rightarrow> encode_vec encode_string w v | _ \<Rightarrow> Err InvalidData)
      else (case p of PlayersDefault \<Rightarrow> Ok w | _ \<Rightarrow> Err InvalidData))"

definition encode_teams :: "packet_writer \<Rightarrow> packet_teams \<Rightarrow> protocol_error + packet_writer" where
  "encode_teams w p =
     (let mode = tm_mode p in
      and_then (encode_string w (tm_team p)) (\<lambda>w1.
      and_then (encode_switch02 encode_nbt mode (put_i8 w1 mode) (tm_name p)) (\<lambda>w2.
      and_then (encode_switch02 encode_i8 mode w2 (tm_friendly_fire p)) (\<lambda>w3.
      and_then (encode_switch02 encode_string mode w3 (tm_name_tag_visibility p)) (\<lambda>w4.
      and_then (encode_switch02 encode_string mode w4 (tm_collision_rule p)) (\<lambda>w5.
      and_then (encode_switch02 encode_varint mode w5 (tm_formatting p)) (\<lambda>w6.
      and_then (encode_switch02 encode_nbt mode w6 (tm_prefix p)) (\<lambda>w7.
      and_then (encode_switch02 encode_nbt mode w7 (tm_suffix p)) (\<lambda>w8.
        encode_teams_players mode w8 (tm_players p))))))))))"

definition decode_teams_name :: "i8 \<Rightarrow> packet_reader \<Rightarrow> teams_name reading" where
  "decode_teams_name = decode_switch02 decode_nbt"

definition decode_teams_friendly_fire :: "i8 \<Rightarrow> packet_reader \<Rightarrow> teams_friendly_fire reading" where
  "decode_teams_friendly_fire = decode_switch02 get_i8"

definition decode_teams_name_tag_visibility :: "i8 \<Rightarrow> packet_reader \<Rightarrow> teams_name_tag_visibility reading" where
  "decode_teams_name_tag_visibility = decode_switch02 decode_string"

definition decode_teams_collision_rule :: "i8 \<Rightarrow> packet_reader \<Rightarrow> teams_collision_rule reading" where
  "decode_teams_collision_rule = decode_switch02 decode_string"

definition decode_teams_formatting :: "i8 \<Rightarrow> packet_reader \<Rightarrow> teams_formatting reading" where
  "decode_teams_formatting = decode_switch02 get_varint"

definition decode_teams_prefix :: "i8 \<Rightarrow> packet_reader \<Rightarrow> teams_prefix reading" where
  "decode_teams_prefix = decode_switch02 decode_nbt"

definition decode_teams_suffix :: "i8 \<Rightarrow> packet_reader \<Rightarrow> teams_suffix reading" where
  "decode_teams_suffix = decode_switch02 decode_nbt"

definition decode_teams_players :: "i8 \<Rightarrow> packet_reader \<Rightarrow> teams_players reading" where
  "decode_teams_players d r =
     (if d = 0 then and_then (decode_vec decode_string r) (\<lambda>(v, r'). Ok (PlayersV0 v, r'))
      else if d = 3 then and_then (decode_vec decode_string r) (\<lambda>(v, r'). Ok (PlayersV3 v, r'))
      else if d = 4 then and_then (decode_vec decode_string r) (\<lambda>(v, r'). Ok (PlayersV4 v, r'))
      else Ok (PlayersDefault, r))"

definition decode_teams :: "packet_reader \<Rightarrow> packet_teams reading" where
  "decode_teams r =
     and_then (decode_string r) (\<lambda>(team, r1).
     and_then (get_i8 r1) (\<lambda>(mode, r2).
     and_then (decode_teams_name mode r2) (\<lambda>(name, r3).
     and_then (decode_teams_friendly_fire mode r3) (\<lambda>(friendly_fire, r4).
     and_then (decode_teams_name_tag_visibility mode r4) (\<lambda>(name_tag_visibility, r5).
     and_then (decode_teams_collision_rule mode r5) (\<lambda>(collision_rule, r6).
     and_then (decode_teams_formatting mode r6) (\<lambda>(formatting, r7).
     and_then (decode_teams_prefix mode r7) (\<lambda>(prefix, r8).
     and_then (decode_teams_suffix mode r8) (\<lambda>(suffix, r9).
     and_then (decode_teams_players mode r9) (\<lambda>(players, r10).
       Ok (\<lparr>tm_team = team, tm_mode = mode, tm_name = name, tm_friendly_fire = friendly_fire,
            tm_name_tag_visibility = name_tag_visibility, tm_collision_rule = collision_rule,
            tm_formatting = formatting, tm_prefix = prefix, tm_suffix = suffix, tm_players = players\<rparr>, r10)))))))))))"

section \<open>The codecs of the fields\<close>

interpretation encode_varint: sized_codec encode_varint get_varint write_var_loop "\<lambda>_. True"
  using varint.fixed.sized_codec_axioms by (simp add: encode_varint_def [abs_def])

interpretation encode_i8: sized_codec encode_i8 get_i8 "\<lambda>v. [v]" "\<lambda>_. True"
  using i8.fixed.sized_codec_axioms by (simp add: encode_i8_def [abs_def])

interpretation nbt_option: trait_codec "encode_option encode_nbt" "decode_option decode_nbt"
  nbt_value.option_bytes "\<lambda>v. case v of None \<Rightarrow> True | Some x \<Rightarrow> nbt_ok x"
  by (rule nbt_value.option_codec)

interpretation string_option: trait_codec "encode_option encode_string" "decode_option decode_string"
  str.option_bytes "\<lambda>v. case v of None \<Rightarrow> True | Some x \<Rightarrow> str_ok x"
  by (rule str.option_codec)

interpretation varint_option: trait_codec "encode_option encode_varint" "decode_option get_varint"
  encode_varint.option_bytes "\<lambda>v. case v of None \<Rightarrow> True | Some x \<Rightarrow> True"
  by (rule encode_varint.option_codec)

interpretation string_vec: sized_codec "encode_vec encode_string" "decode_vec decode_string" str.vec_bytes
  "\<lambda>vs. list_all str_ok vs \<and> length vs < 2 ^ 31"
  by (rule str.vec_codec)

interpretation nbt_switch: trait_codec "encode_switch02 encode_nbt d" "decode_switch02 decode_nbt d"
  "switch02_bytes nbt_enc" "switch02_ok nbt_ok d" for d
  by (rule nbt_value.switch02_codec)

interpretation string_switch: trait_codec "encode_switch02 encode_string d" "decode_switch02 decode_string d"
  "switch02_bytes string_bytes" "switch02_ok str_ok d" for d
  by (rule str.switch02_codec)

interpretation i8_switch: trait_codec "encode_switch02 encode_i8 d" "decode_switch02 get_i8 d"
  "switch02_bytes (\<lambda>v. [v])" "switch02_ok (\<lambda>_. True) d" for d
  by (rule encode_i8.switch02_codec)

interpretation varint_switch: trait_codec "encode_switch02 encode_varint d" "decode_switch02 get_varint d"
  "switch02_bytes write_var_loop" "switch02_ok (\<lambda>_. True) d" for d
  by (rule encode_varint.switch02_codec)

interpretation varint_option_switch: trait_codec "encode_switch02 (encode_option encode_varint) d"
  "decode_switch02 (decode_option get_varint) d" "switch02_bytes encode_varint.option_bytes"
  "switch02_ok (\<lambda>v. case v of None \<Rightarrow> True | Some x \<Rightarrow> True) d" for d
  by (rule varint_option.switch02_codec)

interpretation nbt_switch12: trait_codec "encode_switch12 encode_nbt d" "decode_switch12 decode_nbt d"
  "switch12_bytes nbt_enc" "switch12_ok nbt_ok d" for d
  by (rule nbt_value.switch12_codec)

interpretation styling_payload: trait_codec encode_styling_payload "decode_styling_v0 k"
  "switch12_bytes nbt_enc" "switch12_ok nbt_ok k" for k
  by unfold_locales
     (auto simp: encode_styling_payload_def decode_styling_v0_def nbt_switch12.decode_ok switch12_ok_def
       nbt_value.encode_ok split: switch12.splits)

lemma decode_objective_styling_switch: "decode_objective_styling d k = decode_switch02 (decode_styling_v0 k) d"
  by (auto simp: fun_eq_iff decode_objective_styling_def decode_switch02_def decode_styling_v0_def decode_styling_v2_def)

interpretation styling_switch: trait_codec "encode_switch02 encode_styling_payload d" "decode_objective_styling d k"
  "switch02_bytes (switch12_bytes nbt_enc)" "switch02_ok (switch12_ok nbt_ok k) d" for d k
  using styling_payload.switch02_codec by (simp add: decode_objective_styling_switch)

fun players_bytes :: "teams_players \<Rightarrow> u8 list" where
  "players_bytes (PlayersV0 v) = str.vec_bytes v"
| "players_bytes (PlayersV3 v) = str.vec_bytes v"
| "players_bytes (PlayersV4 v) = str.vec_bytes v"
| "players_bytes PlayersDefault = []"

definition players_ok :: "i8 \<Rightarrow> teams_players \<Rightarrow> bool" where
  "players_ok d p \<longleftrightarrow>
     (let ok = (\<lambda>vs. list_all str_ok vs \<and> length vs < 2 ^ 31) in
      case p of PlayersV0 v \<Rightarrow> d = 0 \<and> ok v | PlayersV3 v \<Rightarrow> d = 3 \<and> ok v | PlayersV4 v \<Rightarrow> d = 4 \<and> ok v
      | PlayersDefault \<Rightarrow> d \<noteq> 0 \<and> d \<noteq> 3 \<and> d \<noteq> 4)"

interpretation players: trait_codec "encode_teams_players d" "decode_teams_players d" players_bytes "players_ok d" for d
  by unfold_locales
     (auto simp: encode_teams_players_def decode_teams_players_def players_ok_def Let_def
       string_vec.encode_ok string_vec.decode_ok split: teams_players.splits)

section \<open>The codecs of the packets\<close>

lemma put_varint_bytes: "put_varint w v = put_bytes w (write_var_loop v)"
  by (rule writer_eqI) simp

lemma put_i8_bytes: "put_i8 w v = put_bytes w [v]"
  by (rule writer_eqI) (simp add: i8.put_enc)

lemma get_i8_at: "get_i8 (reader_at pre (b # suf)) = Ok (b, reader_at (pre @ [b]) suf)"
  using i8.get_enc [where v = b and pre = pre and suf = suf] by simp

lemmas field_encoders = put_varint_bytes put_i8_bytes str.encode_ok nbt_value.encode_ok nbt_option.encode_ok
  string_option.encode_ok varint_option.encode_ok nbt_switch.encode_ok string_switch.encode_ok i8_switch.encode_ok
  varint_switch.encode_ok varint_option_switch.encode_ok nbt_switch12.encode_ok players.encode_ok

lemmas field_decoders = get_varint_at get_i8_at str.decode_ok nbt_value.decode_ok nbt_option.decode_ok
  string_option.decode_ok varint_option.decode_ok nbt_switch.decode_ok string_switch.decode_ok i8_switch.decode_ok
  varint_switch.decode_ok varint_option_switch.decode_ok nbt_switch12.decode_ok styling_switch.decode_ok
  players.decode_ok

lemmas switch_decoders = decode_display_text_def decode_objective_type_def decode_number_format_def
  decode_score_styling_def decode_teams_name_def decode_teams_friendly_fire_def decode_teams_name_tag_visibility_def
  decode_teams_collision_rule_def decode_teams_formatting_def decode_teams_prefix_def decode_teams_suffix_def

definition objective_bytes :: "packet_scoreboard_objective \<Rightarrow> u8 list" where
  "objective_bytes p =
     string_bytes (so_name p) @ [so_action p] @ switch02_bytes nbt_enc (so_display_text p) @
     switch02_bytes write_var_loop (so_type p) @ switch02_bytes encode_varint.option_bytes (so_number_format p) @
     switch02_bytes (switch12_bytes nbt_enc) (so_styling p)"

definition objective_ok :: "packet_scoreboard_objective \<Rightarrow> bool" where
  "objective_ok p \<longleftrightarrow>
     str_ok (so_name p) \<and> switch02_ok nbt_ok (so_action p) (so_display_text p) \<and>
     switch02_ok (\<lambda>_. True) (so_action p) (so_type p) \<and>
     switch02_ok (\<lambda>v. case v of None \<Rightarrow> True | Some x \<Rightarrow> True) (so_action p) (so_number_format p) \<and>
     switch02_ok (switch12_ok nbt_ok (objective_kind (so_number_format p))) (so_action p) (so_styling p)"

interpretation objective_packet: trait_codec encode_objective decode_objective objective_bytes objective_ok
proof
  fix p w
  assume "objective_ok p"
  note ok = this [unfolded objective_ok_def]
  with styling_switch.encode_ok [where k = "objective_kind (so_number_format p)" and d = "so_action p" and v = "so_styling p"]
  show "encode_objective w p = Ok (put_bytes w (objective_bytes p))"
    by (simp add: encode_objective_def objective_bytes_def field_encoders)
qed (simp add: objective_ok_def decode_objective_def objective_bytes_def switch_decoders field_decoders)

definition display_objective_bytes :: "packet_display_objective \<Rightarrow> u8 list" where
  "display_objective_bytes p = write_var_loop (do_position p) @ string_bytes (do_name p)"

interpretation display_objective_packet: trait_codec encode_display_objective decode_display_objective
  display_objective_bytes "\<lambda>p. str_ok (do_name p)"
  by unfold_locales
     (simp_all add: encode_display_objective_def decode_display_objective_def display_objective_bytes_def
       field_encoders field_decoders)

definition reset_score_bytes :: "packet_reset_score \<Rightarrow> u8 list" where
  "reset_score_bytes p = string_bytes (rs_entity_name p) @ str.option_bytes (rs_objective_name p)"

definition reset_score_ok :: "packet_reset_score \<Rightarrow> bool" where
  "reset_score_ok p \<longleftrightarrow> str_ok (rs_entity_name p) \<and>
     (case rs_objective_name p of None \<Rightarrow> True | Some x \<Rightarrow> str_ok x)"

interpretation reset_score_packet: trait_codec encode_reset_score decode_reset_score reset_score_bytes reset_score_ok
  by unfold_locales
     (simp_all add: reset_score_ok_def encode_reset_score_def decode_reset_score_def reset_score_bytes_def
       field_encoders field_decoders)

definition score_bytes :: "packet_scoreboard_score \<Rightarrow> u8 list" where
  "score_bytes p =
     string_bytes (sc_item_name p) @ string_bytes (sc_score_name p) @ write_var_loop (sc_value p) @
     nbt_value.option_bytes (sc_display_name p) @ encode_varint.option_bytes (sc_number_format p) @
     switch12_bytes nbt_enc (sc_styling p)"

definition score_ok :: "packet_scoreboard_score \<Rightarrow> bool" where
  "score_ok p \<longleftrightarrow>
     str_ok (sc_item_name p) \<and> str_ok (sc_score_name p) \<and>
     (case sc_display_name p of None \<Rightarrow> True | Some x \<Rightarrow> nbt_ok x) \<and>
     switch12_ok nbt_ok (map_option scast (sc_number_format p)) (sc_styling p)"

interpretation score_packet: trait_codec encode_score decode_score score_bytes score_ok
  by unfold_locales
     (simp_all add: score_ok_def encode_score_def decode_score_def score_bytes_def field_encoders switch_decoders
       field_decoders split: option.splits)

definition teams_bytes :: "packet_teams \<Rightarrow> u8 list" where
  "teams_bytes p =
     string_bytes (tm_team p) @ [tm_mode p] @ switch02_bytes nbt_enc (tm_name p) @
     switch02_bytes (\<lambda>v. [v]) (tm_friendly_fire p) @ switch02_bytes string_bytes (tm_name_tag_visibility p) @
     switch02_bytes string_bytes (tm_collision_rule p) @ switch02_bytes write_var_loop (tm_formatting p) @
     switch02_bytes nbt_enc (tm_prefix p) @ switch02_bytes nbt_enc (tm_suffix p) @ players_bytes (tm_players p)"

definition teams_ok :: "packet_teams \<Rightarrow> bool" where
  "teams_ok p \<longleftrightarrow>
     (let d = tm_mode p in
      str_ok (tm_team p) \<and> switch02_ok nbt_ok d (tm_name p) \<and> switch02_ok (\<lambda>_. True) d (tm_friendly_fire p) \<and>
      switch02_ok str_ok d (tm_name_tag_visibility p) \<and> switch02_ok str_ok d (tm_collision_rule p) \<and>
      switch02_ok (\<lambda>_. True) d (tm_formatting p) \<and> switch02_ok nbt_ok d (tm_prefix p) \<and>
      switch02_ok nbt_ok d (tm_suffix p) \<and> players_ok d (tm_players p))"

interpretation teams_packet: trait_codec encode_teams decode_teams teams_bytes teams_ok
  by unfold_locales
     (simp_all add: teams_ok_def encode_teams_def decode_teams_def teams_bytes_def Let_def field_encoders
       switch_decoders field_decoders)

end
