(* ===== verification/Text.thy ===== *)
theory Text
  imports Wire_Nbt
begin

text \<open>
  Text components (src/src/minecraft/text.rs): the component tree, the parsers of network NBT and
  of JSON with their shared budget of nodes and literal bytes, and the rendering to plain text.

  The structs that refer to each other are one mutually recursive datatype with the fields of the
  source as selectors. \<open>serde_json\<close> is not part of the repository: a \<open>Value\<close> is its documented
  tree of variants with a number kept as its token, and \<open>from_str\<close>, \<open>as_i64\<close> and \<open>as_f64\<close> are
  parameters of what uses them. \<open>usize\<close> is \<open>nat\<close>: the sums that \<open>saturating_add\<close> guards are compared
  with a small limit only.
\<close>

section \<open>Components\<close>

definition MAX_DEPTH :: nat where "MAX_DEPTH = 64"
definition MAX_NODES :: nat where "MAX_NODES = 4096"
definition MAX_TEXT_BYTES :: nat where "MAX_TEXT_BYTES = 262144"

datatype color = Named string | Hex string

datatype click_event = ClickEvent (ce_action: string) (ce_value: string)

datatype json =
    JNull
  | JBool bool
  | JNumber string
  | JString string
  | JArray "json list"
  | JObject "(string \<times> json) list"

datatype raw_event = RawNbt nbt | RawJson json

datatype text_component =
    TextComponent (tc_content: content) (tc_style: style) (tc_extra: "text_component list")
and content =
    Literal string
  | Translate string "text_component list"
  | UnknownContent nbt
and style =
    Style (st_color: "color option") (st_bold: "bool option") (st_italic: "bool option")
      (st_underlined: "bool option") (st_strikethrough: "bool option") (st_obfuscated: "bool option")
      (st_insertion: "string option") (st_font: "string option")
      (st_click_event: "click_event option") (st_hover_event: "hover_event option")
and hover_event =
    HoverEvent (he_action: string) (he_text: "text_component option") (he_raw: raw_event)

definition default_style :: style where
  "default_style = Style None None None None None None None None None None"

definition literal :: "string \<Rightarrow> text_component" where
  "literal text = TextComponent (Literal text) default_style []"

section \<open>The parse budget\<close>

record budget =
  bd_nodes :: nat
  bd_text_bytes :: nat

definition default_budget :: budget where
  "default_budget = \<lparr>bd_nodes = 0, bd_text_bytes = 0\<rparr>"

definition is_exhausted :: "budget \<Rightarrow> bool" where
  "is_exhausted b \<longleftrightarrow> bd_nodes b \<ge> MAX_NODES"

definition take_node :: "budget \<Rightarrow> bool \<times> budget" where
  "take_node b = (if is_exhausted b then (False, b) else (True, b\<lparr>bd_nodes := bd_nodes b + 1\<rparr>))"

definition take_text :: "budget \<Rightarrow> nat \<Rightarrow> bool \<times> budget" where
  "take_text b len =
     (if bd_text_bytes b + len > MAX_TEXT_BYTES then (False, b)
      else (True, b\<lparr>bd_text_bytes := bd_text_bytes b + len\<rparr>))"

definition literal_bounded :: "string \<Rightarrow> budget \<Rightarrow> text_component \<times> budget" where
  "literal_bounded text b =
     (case take_text b (length text) of
        (True, b') \<Rightarrow> (literal text, b')
      | (False, b') \<Rightarrow> (literal '''', b'))"

definition parse_color :: "string \<Rightarrow> color" where
  "parse_color raw = (case raw of CHR ''#'' # hex \<Rightarrow> Hex hex | _ \<Rightarrow> Named raw)"

section \<open>Network NBT\<close>

definition nbt_list_field :: "nbt \<Rightarrow> string \<Rightarrow> nbt list option" where
  "nbt_list_field v name = (case nbt_get v name of Some (NbtList _ items) \<Rightarrow> Some items | _ \<Rightarrow> None)"

definition nbt_string_field :: "nbt \<Rightarrow> string \<Rightarrow> string option" where
  "nbt_string_field v key = (case nbt_get v key of Some (NbtString s) \<Rightarrow> Some s | _ \<Rightarrow> None)"

definition nbt_bool_field :: "nbt \<Rightarrow> string \<Rightarrow> bool option" where
  "nbt_bool_field v key = (case nbt_get v key of Some (NbtByte b) \<Rightarrow> Some (b \<noteq> 0) | _ \<Rightarrow> None)"

definition nbt_event_field :: "nbt \<Rightarrow> string \<Rightarrow> string \<Rightarrow> nbt option" where
  "nbt_event_field v camel snake = (case nbt_get v camel of Some e \<Rightarrow> Some e | None \<Rightarrow> nbt_get v snake)"

definition nbt_click_event :: "nbt \<Rightarrow> click_event option" where
  "nbt_click_event v =
     (case nbt_event_field v ''clickEvent'' ''click_event'' of
        None \<Rightarrow> None
      | Some event \<Rightarrow>
          (case nbt_string_field event ''action'' of
             None \<Rightarrow> None
           | Some action \<Rightarrow>
               Some (ClickEvent action (case nbt_string_field event ''value'' of Some s \<Rightarrow> s | None \<Rightarrow> ''''))))"

definition nbt_style_with :: "nbt \<Rightarrow> hover_event option \<Rightarrow> style" where
  "nbt_style_with v hover =
     Style (map_option parse_color (nbt_string_field v ''color'')) (nbt_bool_field v ''bold'')
       (nbt_bool_field v ''italic'') (nbt_bool_field v ''underlined'') (nbt_bool_field v ''strikethrough'')
       (nbt_bool_field v ''obfuscated'') (nbt_string_field v ''insertion'') (nbt_string_field v ''font'')
       (nbt_click_event v) hover"

lemma nbt_get_size: "nbt_get v name = Some x \<Longrightarrow> size x < size v"
proof -
  assume "nbt_get v name = Some x"
  then obtain entries n where v: "v = NbtCompound entries" and "(n, x) \<in> set entries"
    by (auto simp: nbt_get_def find_Some_iff split: nbt.splits) (metis nth_mem)
  from this(2) have "size x < size_list (size_prod (\<lambda>_. 0) size) entries"
    by (induction entries) auto
  with v show ?thesis by simp
qed

text \<open>\<open>unwrap_or_default\<close> on an optional list.\<close>

definition list_or_empty :: "'a list option \<Rightarrow> 'a list" where
  "list_or_empty xs = (case xs of Some ys \<Rightarrow> ys | None \<Rightarrow> [])"

lemma nbt_list_field_size: "size_list size (list_or_empty (nbt_list_field v name)) \<le> size v"
  by (auto simp: nbt_list_field_def list_or_empty_def dest!: nbt_get_size split: option.splits nbt.splits)

lemma nbt_list_field_size4:
  "4 * size_list size (list_or_empty (nbt_list_field v name)) \<le> Suc (4 * size v)"
  using nbt_list_field_size [of v name] by simp

lemma nbt_event_field_size: "nbt_event_field v camel snake = Some x \<Longrightarrow> size x < size v"
  by (auto simp: nbt_event_field_def dest: nbt_get_size split: option.splits)

text \<open>Components pushed to the siblings a component already has.\<close>

definition push_extra :: "text_component \<Rightarrow> text_component list \<Rightarrow> text_component" where
  "push_extra c cs = TextComponent (tc_content c) (tc_style c) (tc_extra c @ cs)"

function (sequential) nbt_parse :: "nbt \<Rightarrow> budget \<Rightarrow> nat \<Rightarrow> text_component \<times> budget"
  and nbt_parse_rest :: "nbt list \<Rightarrow> budget \<Rightarrow> nat \<Rightarrow> text_component list \<times> budget"
  and nbt_parse_list :: "nbt list \<Rightarrow> budget \<Rightarrow> nat \<Rightarrow> text_component list \<times> budget"
  and nbt_content :: "nbt \<Rightarrow> budget \<Rightarrow> nat \<Rightarrow> content \<times> budget"
  and nbt_parse_compound :: "nbt \<Rightarrow> budget \<Rightarrow> nat \<Rightarrow> text_component \<times> budget"
  and nbt_hover_event :: "nbt \<Rightarrow> budget \<Rightarrow> hover_event option \<times> budget" where
  "nbt_parse v b depth =
     (if depth > MAX_DEPTH then (literal '''', b)
      else case take_node b of
        (False, b1) \<Rightarrow> (literal '''', b1)
      | (True, b1) \<Rightarrow>
          (case v of
             NbtString text \<Rightarrow> literal_bounded text b1
           | NbtList _ [] \<Rightarrow> (literal '''', b1)
           | NbtList _ (first # items) \<Rightarrow>
               (let (c, b2) = nbt_parse first b1 (depth + 1);
                    (cs, b3) = nbt_parse_rest items b2 depth in
                (push_extra c cs, b3))
           | NbtCompound _ \<Rightarrow> nbt_parse_compound v b1 depth
           | _ \<Rightarrow> (literal '''', b1)))"
| "nbt_parse_rest [] b depth = ([], b)"
| "nbt_parse_rest (item # items) b depth =
     (let (c, b1) = nbt_parse item b (depth + 1);
          (cs, b2) = nbt_parse_rest items b1 depth in
      (c # cs, b2))"
| "nbt_parse_list [] b depth = ([], b)"
| "nbt_parse_list (item # items) b depth =
     (if is_exhausted b then ([], b)
      else let (c, b1) = nbt_parse item b (depth + 1);
               (cs, b2) = nbt_parse_list items b1 depth in
           (c # cs, b2))"
| "nbt_content v b depth =
     (case nbt_string_field v ''text'' of
        Some text \<Rightarrow> (let (c, b') = literal_bounded text b in (tc_content c, b'))
      | None \<Rightarrow>
          (case nbt_string_field v ''translate'' of
             Some key \<Rightarrow>
               (let (args, b') = nbt_parse_list (list_or_empty (nbt_list_field v ''with'')) b depth in
                (Translate key args, b'))
           | None \<Rightarrow> (UnknownContent v, b)))"
| "nbt_parse_compound v b depth =
     (let (content, b1) = nbt_content v b depth;
          (hover, b2) = nbt_hover_event v b1;
          (extra, b3) = nbt_parse_list (list_or_empty (nbt_list_field v ''extra'')) b2 depth in
      (TextComponent content (nbt_style_with v hover) extra, b3))"
| "nbt_hover_event v b =
     (case nbt_event_field v ''hoverEvent'' ''hover_event'' of
        None \<Rightarrow> (None, b)
      | Some event \<Rightarrow>
          (case nbt_string_field event ''action'' of
             None \<Rightarrow> (None, b)
           | Some action \<Rightarrow>
               if action = ''show_text'' then
                 (case nbt_event_field event ''contents'' ''value'' of
                    None \<Rightarrow> (Some (HoverEvent action None (RawNbt event)), b)
                  | Some contents \<Rightarrow>
                      (let (c, b') = nbt_parse contents b 0 in
                       (Some (HoverEvent action (Some c) (RawNbt event)), b')))
               else (Some (HoverEvent action None (RawNbt event)), b)))"
  by pat_completeness auto

termination
  apply (relation "measure (case_sum (case_sum (\<lambda>(v, _). 4 * size v + 3)
        (case_sum (\<lambda>(vs, _). 4 * size_list size vs) (\<lambda>(vs, _). 4 * size_list size vs)))
      (case_sum (\<lambda>(v, _). 4 * size v + 1) (case_sum (\<lambda>(v, _). 4 * size v + 2) (\<lambda>(v, _). 4 * size v + 1))))")
  apply (auto simp: less_Suc_eq_le nbt_list_field_size nbt_list_field_size4 dest!: nbt_event_field_size)
  done

section \<open>JSON\<close>

definition json_get :: "json \<Rightarrow> string \<Rightarrow> json option" where
  "json_get v name =
     (case v of JObject entries \<Rightarrow> map_option snd (find (\<lambda>(n, _). n = name) entries) | _ \<Rightarrow> None)"

definition json_list_field :: "json \<Rightarrow> string \<Rightarrow> json list option" where
  "json_list_field v name = (case json_get v name of Some (JArray items) \<Rightarrow> Some items | _ \<Rightarrow> None)"

definition json_string_field :: "json \<Rightarrow> string \<Rightarrow> string option" where
  "json_string_field v key = (case json_get v key of Some (JString s) \<Rightarrow> Some s | _ \<Rightarrow> None)"

definition json_bool_field :: "json \<Rightarrow> string \<Rightarrow> bool option" where
  "json_bool_field v key = (case json_get v key of Some (JBool b) \<Rightarrow> Some b | _ \<Rightarrow> None)"

definition json_event_field :: "json \<Rightarrow> string \<Rightarrow> string \<Rightarrow> json option" where
  "json_event_field v camel snake = (case json_get v camel of Some e \<Rightarrow> Some e | None \<Rightarrow> json_get v snake)"

definition json_click_event :: "json \<Rightarrow> click_event option" where
  "json_click_event v =
     (case json_event_field v ''clickEvent'' ''click_event'' of
        None \<Rightarrow> None
      | Some event \<Rightarrow>
          (case json_string_field event ''action'' of
             None \<Rightarrow> None
           | Some action \<Rightarrow>
               Some (ClickEvent action (case json_string_field event ''value'' of Some s \<Rightarrow> s | None \<Rightarrow> ''''))))"

definition json_style_with :: "json \<Rightarrow> hover_event option \<Rightarrow> style" where
  "json_style_with v hover =
     Style (map_option parse_color (json_string_field v ''color'')) (json_bool_field v ''bold'')
       (json_bool_field v ''italic'') (json_bool_field v ''underlined'') (json_bool_field v ''strikethrough'')
       (json_bool_field v ''obfuscated'') (json_string_field v ''insertion'') (json_string_field v ''font'')
       (json_click_event v) hover"

fun json_to_nbt_lossy :: "(string \<Rightarrow> i64 option) \<Rightarrow> (string \<Rightarrow> u64 option) \<Rightarrow> json \<Rightarrow> nbt" where
  "json_to_nbt_lossy as_i64 as_f64 JNull = NbtCompound []"
| "json_to_nbt_lossy as_i64 as_f64 (JBool b) = NbtByte (if b then 1 else 0)"
| "json_to_nbt_lossy as_i64 as_f64 (JNumber n) =
     (case as_i64 n of
        Some i \<Rightarrow> NbtLong i
      | None \<Rightarrow> (case as_f64 n of Some f \<Rightarrow> NbtDouble f | None \<Rightarrow> NbtLong 0))"
| "json_to_nbt_lossy as_i64 as_f64 (JString s) = NbtString s"
| "json_to_nbt_lossy as_i64 as_f64 (JArray items) =
     (let ns = map (json_to_nbt_lossy as_i64 as_f64) items in
      NbtList (case ns of [] \<Rightarrow> 8 | n # _ \<Rightarrow> tag_id n) ns)"
| "json_to_nbt_lossy as_i64 as_f64 (JObject entries) =
     NbtCompound (map (\<lambda>(k, v). (k, json_to_nbt_lossy as_i64 as_f64 v)) entries)"

lemma json_get_size: "json_get v name = Some x \<Longrightarrow> size x < size v"
proof -
  assume "json_get v name = Some x"
  then obtain entries n where v: "v = JObject entries" and "(n, x) \<in> set entries"
    by (auto simp: json_get_def find_Some_iff split: json.splits) (metis nth_mem)
  from this(2) have "size x < size_list (size_prod (\<lambda>_. 0) size) entries"
    by (induction entries) auto
  with v show ?thesis by simp
qed

lemma json_list_field_size: "size_list size (list_or_empty (json_list_field v name)) \<le> size v"
  by (auto simp: json_list_field_def list_or_empty_def dest!: json_get_size split: option.splits json.splits)

lemma json_list_field_size4:
  "4 * size_list size (list_or_empty (json_list_field v name)) \<le> Suc (4 * size v)"
  using json_list_field_size [of v name] by simp

lemma json_event_field_size: "json_event_field v camel snake = Some x \<Longrightarrow> size x < size v"
  by (auto simp: json_event_field_def dest: json_get_size split: option.splits)

function (sequential) json_parse :: "(string \<Rightarrow> i64 option) \<Rightarrow> (string \<Rightarrow> u64 option) \<Rightarrow> json \<Rightarrow> budget \<Rightarrow> nat \<Rightarrow> text_component \<times> budget"
  and json_parse_rest :: "(string \<Rightarrow> i64 option) \<Rightarrow> (string \<Rightarrow> u64 option) \<Rightarrow> json list \<Rightarrow> budget \<Rightarrow> nat \<Rightarrow> text_component list \<times> budget"
  and json_parse_list :: "(string \<Rightarrow> i64 option) \<Rightarrow> (string \<Rightarrow> u64 option) \<Rightarrow> json list \<Rightarrow> budget \<Rightarrow> nat \<Rightarrow> text_component list \<times> budget"
  and json_content :: "(string \<Rightarrow> i64 option) \<Rightarrow> (string \<Rightarrow> u64 option) \<Rightarrow> json \<Rightarrow> budget \<Rightarrow> nat \<Rightarrow> content \<times> budget"
  and json_parse_object :: "(string \<Rightarrow> i64 option) \<Rightarrow> (string \<Rightarrow> u64 option) \<Rightarrow> json \<Rightarrow> budget \<Rightarrow> nat \<Rightarrow> text_component \<times> budget"
  and json_hover_event :: "(string \<Rightarrow> i64 option) \<Rightarrow> (string \<Rightarrow> u64 option) \<Rightarrow> json \<Rightarrow> budget \<Rightarrow> hover_event option \<times> budget" where
  "json_parse as_i64 as_f64 v b depth =
     (if depth > MAX_DEPTH then (literal '''', b)
      else case take_node b of
        (False, b1) \<Rightarrow> (literal '''', b1)
      | (True, b1) \<Rightarrow>
          (case v of
             JString text \<Rightarrow> literal_bounded text b1
           | JArray [] \<Rightarrow> (literal '''', b1)
           | JArray (first # items) \<Rightarrow>
               (let (c, b2) = json_parse as_i64 as_f64 first b1 (depth + 1);
                    (cs, b3) = json_parse_rest as_i64 as_f64 items b2 depth in
                (push_extra c cs, b3))
           | JObject _ \<Rightarrow> json_parse_object as_i64 as_f64 v b1 depth
           | _ \<Rightarrow> (literal '''', b1)))"
| "json_parse_rest as_i64 as_f64 [] b depth = ([], b)"
| "json_parse_rest as_i64 as_f64 (item # items) b depth =
     (let (c, b1) = json_parse as_i64 as_f64 item b (depth + 1);
          (cs, b2) = json_parse_rest as_i64 as_f64 items b1 depth in
      (c # cs, b2))"
| "json_parse_list as_i64 as_f64 [] b depth = ([], b)"
| "json_parse_list as_i64 as_f64 (item # items) b depth =
     (if is_exhausted b then ([], b)
      else let (c, b1) = json_parse as_i64 as_f64 item b (depth + 1);
               (cs, b2) = json_parse_list as_i64 as_f64 items b1 depth in
           (c # cs, b2))"
| "json_content as_i64 as_f64 v b depth =
     (case json_string_field v ''text'' of
        Some text \<Rightarrow> (let (c, b') = literal_bounded text b in (tc_content c, b'))
      | None \<Rightarrow>
          (case json_string_field v ''translate'' of
             Some key \<Rightarrow>
               (let (args, b') = json_parse_list as_i64 as_f64 (list_or_empty (json_list_field v ''with'')) b depth in
                (Translate key args, b'))
           | None \<Rightarrow> (UnknownContent (json_to_nbt_lossy as_i64 as_f64 v), b)))"
| "json_parse_object as_i64 as_f64 v b depth =
     (let (content, b1) = json_content as_i64 as_f64 v b depth;
          (hover, b2) = json_hover_event as_i64 as_f64 v b1;
          (extra, b3) = json_parse_list as_i64 as_f64 (list_or_empty (json_list_field v ''extra'')) b2 depth in
      (TextComponent content (json_style_with v hover) extra, b3))"
| "json_hover_event as_i64 as_f64 v b =
     (case json_event_field v ''hoverEvent'' ''hover_event'' of
        None \<Rightarrow> (None, b)
      | Some event \<Rightarrow>
          (case json_string_field event ''action'' of
             None \<Rightarrow> (None, b)
           | Some action \<Rightarrow>
               if action = ''show_text'' then
                 (case json_event_field event ''contents'' ''value'' of
                    None \<Rightarrow> (Some (HoverEvent action None (RawJson event)), b)
                  | Some contents \<Rightarrow>
                      (let (c, b') = json_parse as_i64 as_f64 contents b 0 in
                       (Some (HoverEvent action (Some c) (RawJson event)), b')))
               else (Some (HoverEvent action None (RawJson event)), b)))"
  by pat_completeness auto

termination
  apply (relation "measure (case_sum (case_sum (\<lambda>(_, _, v, _). 4 * size v + 3)
        (case_sum (\<lambda>(_, _, vs, _). 4 * size_list size vs) (\<lambda>(_, _, vs, _). 4 * size_list size vs)))
      (case_sum (\<lambda>(_, _, v, _). 4 * size v + 1) (case_sum (\<lambda>(_, _, v, _). 4 * size v + 2) (\<lambda>(_, _, v, _). 4 * size v + 1))))")
  apply (auto simp: less_Suc_eq_le json_list_field_size json_list_field_size4 dest!: json_event_field_size)
  done

section \<open>Entry points\<close>

definition from_nbt :: "nbt \<Rightarrow> text_component" where
  "from_nbt v = fst (nbt_parse v default_budget 0)"

definition from_json_str ::
  "(string \<Rightarrow> json option) \<Rightarrow> (string \<Rightarrow> i64 option) \<Rightarrow> (string \<Rightarrow> u64 option) \<Rightarrow> string \<Rightarrow> text_component" where
  "from_json_str from_str as_i64 as_f64 s =
     (case from_str s of
        Some v \<Rightarrow> fst (json_parse as_i64 as_f64 v default_budget 0)
      | None \<Rightarrow> literal s)"

section \<open>Rendering\<close>

definition translation_template :: "string \<Rightarrow> string option" where
  "translation_template key =
     map_of [(''chat.type.text'', ''<%s> %s''),
       (''chat.type.announcement'', ''[%s] %s''),
       (''chat.type.emote'', ''* %s %s''),
       (''chat.type.team.text'', ''%s <%s> %s''),
       (''multiplayer.player.joined'', ''%s joined the game''),
       (''multiplayer.player.joined.renamed'', ''%s (formerly known as %s) joined the game''),
       (''multiplayer.player.left'', ''%s left the game''),
       (''commands.message.display.incoming'', ''%s whispers to you: %s''),
       (''commands.message.display.outgoing'', ''You whisper to %s: %s'')] key"

definition is_digit_char :: "char \<Rightarrow> bool" where
  "is_digit_char c \<longleftrightarrow> of_char CHR ''0'' \<le> (of_char c :: nat) \<and> (of_char c :: nat) \<le> of_char CHR ''9''"

definition get_arg :: "string list \<Rightarrow> nat \<Rightarrow> string" where
  "get_arg args i = (if i < length args then args ! i else '''')"

text \<open>The digits of an index, and what follows them.\<close>

fun take_index :: "nat \<Rightarrow> string \<Rightarrow> nat \<times> string" where
  "take_index index [] = (index, [])"
| "take_index index (d # cs) =
     (if is_digit_char d then take_index (index * 10 + (of_char d - of_char CHR ''0'')) cs
      else (index, d # cs))"

lemma take_index_length: "length (snd (take_index i cs)) \<le> length cs"
  by (induction i cs rule: take_index.induct) auto

definition skip_char :: "char \<Rightarrow> string \<Rightarrow> bool \<times> string" where
  "skip_char c cs = (case cs of d # ds \<Rightarrow> if d = c then (True, ds) else (False, cs) | [] \<Rightarrow> (False, cs))"

definition skip_dollar_s :: "string \<Rightarrow> string" where
  "skip_dollar_s cs = (case skip_char CHR ''$'' cs of (True, cs1) \<Rightarrow> snd (skip_char CHR ''s'' cs1) | (False, _) \<Rightarrow> cs)"

lemma skip_dollar_s_length: "length (skip_dollar_s cs) \<le> length cs"
  by (auto simp: skip_dollar_s_def skip_char_def split: list.splits)

lemma skip_index_shorter: "(index, cs3) = take_index i cs1 \<Longrightarrow> length (skip_dollar_s cs3) < Suc (length cs1)"
  using take_index_length [of i cs1] skip_dollar_s_length [of cs3] by (metis le_imp_less_Suc order_trans snd_conv)

function substitute_placeholders :: "string \<Rightarrow> string list \<Rightarrow> nat \<Rightarrow> string" where
  "substitute_placeholders cs args next_seq =
     (case cs of
        [] \<Rightarrow> []
      | c # cs1 \<Rightarrow>
          if c \<noteq> CHR ''%'' then c # substitute_placeholders cs1 args next_seq
          else (case cs1 of
            [] \<Rightarrow> ''%''
          | d # cs2 \<Rightarrow>
              if d = CHR ''%'' then CHR ''%'' # substitute_placeholders cs2 args next_seq
              else if d = CHR ''s'' then
                get_arg args next_seq @ substitute_placeholders cs2 args (next_seq + 1)
              else if is_digit_char d then
                (let (index, cs3) = take_index 0 cs1 in
                 (if index = 0 then '''' else get_arg args (index - 1)) @
                 substitute_placeholders (skip_dollar_s cs3) args next_seq)
              else CHR ''%'' # substitute_placeholders cs1 args next_seq))"
  by pat_completeness auto

termination
  by (relation "measure (\<lambda>(cs, _, _). length cs)") (auto dest: skip_index_shorter)

declare substitute_placeholders.simps [simp del]

definition join_args :: "string list \<Rightarrow> string" where
  "join_args args = concat (case args of [] \<Rightarrow> [] | a # as \<Rightarrow> a # map (\<lambda>x. '', '' @ x) as)"

definition render_translation :: "string \<Rightarrow> string list \<Rightarrow> string" where
  "render_translation key rendered_args =
     (case translation_template key of
        Some template \<Rightarrow> substitute_placeholders template rendered_args 0
      | None \<Rightarrow>
          if rendered_args = [] then key
          else key @ ''{'' @ join_args rendered_args @ ''}'')"

fun plain_text :: "text_component \<Rightarrow> string" and content_text :: "content \<Rightarrow> string" where
  "plain_text (TextComponent content style extra) = content_text content @ concat (map plain_text extra)"
| "content_text (Literal text) = text"
| "content_text (Translate key args) = render_translation key (map plain_text args)"
| "content_text (UnknownContent raw) = ''''"

section \<open>Measures of a component\<close>

text \<open>Bytes of literal text anywhere in the tree, hover texts included.\<close>

fun lit_bytes :: "text_component \<Rightarrow> nat" and content_bytes :: "content \<Rightarrow> nat"
  and style_bytes :: "style \<Rightarrow> nat" and hover_bytes :: "hover_event \<Rightarrow> nat" where
  "lit_bytes (TextComponent c st ex) = content_bytes c + style_bytes st + sum_list (map lit_bytes ex)"
| "content_bytes (Literal t) = length t"
| "content_bytes (Translate key args) = sum_list (map lit_bytes args)"
| "content_bytes (UnknownContent raw) = 0"
| "style_bytes (Style a b c d e f g h i hover) = (case hover of None \<Rightarrow> 0 | Some he \<Rightarrow> hover_bytes he)"
| "hover_bytes (HoverEvent a t r) = (case t of None \<Rightarrow> 0 | Some c \<Rightarrow> lit_bytes c)"

text \<open>Components that are more than the empty literal a spent budget is answered with.\<close>

fun tc_nodes :: "text_component \<Rightarrow> nat" and content_nodes :: "content \<Rightarrow> nat"
  and style_nodes :: "style \<Rightarrow> nat" and hover_nodes :: "hover_event \<Rightarrow> nat" where
  "tc_nodes (TextComponent c st ex) =
     (if c = Literal '''' \<and> st = default_style \<and> ex = [] then 0
      else 1 + content_nodes c + style_nodes st + sum_list (map tc_nodes ex))"
| "content_nodes (Literal t) = 0"
| "content_nodes (Translate key args) = sum_list (map tc_nodes args)"
| "content_nodes (UnknownContent raw) = 0"
| "style_nodes (Style a b c d e f g h i hover) = (case hover of None \<Rightarrow> 0 | Some he \<Rightarrow> hover_nodes he)"
| "hover_nodes (HoverEvent a t r) = (case t of None \<Rightarrow> 0 | Some c \<Rightarrow> tc_nodes c)"

text \<open>Levels of siblings and arguments.\<close>

definition max_list :: "nat list \<Rightarrow> nat" where
  "max_list ns = foldr max ns 0"

fun tc_depth :: "text_component \<Rightarrow> nat" and content_depth :: "content \<Rightarrow> nat" where
  "tc_depth (TextComponent c st ex) = 1 + max (content_depth c) (max_list (map tc_depth ex))"
| "content_depth (Literal t) = 0"
| "content_depth (Translate key args) = max_list (map tc_depth args)"
| "content_depth (UnknownContent raw) = 0"

lemma max_list_le [simp]: "max_list ns \<le> k \<longleftrightarrow> (\<forall>n\<in>set ns. n \<le> k)"
  by (induction ns) (auto simp: max_list_def)

lemma max_list_simps [simp]: "max_list [] = 0" "max_list (n # ns) = max n (max_list ns)"
  by (simp_all add: max_list_def)

lemma max_list_append [simp]: "max_list (ms @ ns) = max (max_list ms) (max_list ns)"
  by (induction ms) auto

text \<open>What a part of the tree may have cost.\<close>

definition spent :: "nat \<Rightarrow> nat \<Rightarrow> budget \<Rightarrow> budget \<Rightarrow> bool" where
  "spent nodes bytes b b' \<longleftrightarrow>
     nodes + bd_nodes b \<le> bd_nodes b' \<and> bytes + bd_text_bytes b \<le> bd_text_bytes b' \<and>
     (bd_nodes b \<le> MAX_NODES \<longrightarrow> bd_nodes b' \<le> MAX_NODES) \<and>
     (bd_text_bytes b \<le> MAX_TEXT_BYTES \<longrightarrow> bd_text_bytes b' \<le> MAX_TEXT_BYTES)"

lemma spent_refl [simp]: "spent 0 0 b b"
  by (simp add: spent_def)

lemma spent_trans: "spent n t b b1 \<Longrightarrow> spent n' t' b1 b2 \<Longrightarrow> spent (n + n') (t + t') b b2"
  by (auto simp: spent_def)

lemma spent_less: "spent n t b b' \<Longrightarrow> n' \<le> n \<Longrightarrow> t' \<le> t \<Longrightarrow> spent n' t' b b'"
  by (auto simp: spent_def)

lemma literal_measures [simp]:
  "lit_bytes (literal t) = length t" "tc_nodes (literal t) = (if t = '''' then 0 else 1)" "tc_depth (literal t) = 1"
  by (simp_all add: literal_def default_style_def)

lemma style_with_measures [simp]:
  "style_bytes (nbt_style_with v hover) = (case hover of None \<Rightarrow> 0 | Some he \<Rightarrow> hover_bytes he)"
  "style_nodes (nbt_style_with v hover) = (case hover of None \<Rightarrow> 0 | Some he \<Rightarrow> hover_nodes he)"
  by (simp_all add: nbt_style_with_def)

lemma literal_bounded_spent:
  assumes "literal_bounded t b = (c, b')"
  shows "spent 0 (lit_bytes c) b b' \<and> tc_nodes c \<le> 1 \<and> tc_depth c = 1 \<and> (\<exists>s. c = literal s)"
  using assms by (auto simp: literal_bounded_def take_text_def spent_def split: if_splits)

lemma take_node_spent: "take_node b = (ok, b') \<Longrightarrow> (if ok then spent 1 0 b b' else b' = b)"
  by (auto simp: take_node_def is_exhausted_def spent_def split: if_splits)

lemma push_extra_measures:
  "lit_bytes (push_extra c cs) = lit_bytes c + sum_list (map lit_bytes cs)"
  "tc_nodes (push_extra c cs) \<le> 1 + tc_nodes c + sum_list (map tc_nodes cs)"
  "tc_depth (push_extra c cs) = max (tc_depth c) (1 + max_list (map tc_depth cs))"
  by (cases c; simp add: push_extra_def default_style_def)+

lemmas nbt_parsers_induct =
  nbt_parse_nbt_parse_rest_nbt_parse_list_nbt_content_nbt_parse_compound_nbt_hover_event.induct

lemmas json_parsers_induct =
  json_parse_json_parse_rest_json_parse_list_json_content_json_parse_object_json_hover_event.induct

lemmas nbt_parser_simps = nbt_parse.simps nbt_content.simps nbt_parse_compound.simps nbt_hover_event.simps

lemmas json_parser_simps = json_parse.simps json_content.simps json_parse_object.simps json_hover_event.simps

declare nbt_parser_simps [simp del] json_parser_simps [simp del]

lemma parse_spent:
  shows "nbt_parse v b d = (c, b') \<Longrightarrow> spent (tc_nodes c) (lit_bytes c) b b'"
    and "nbt_parse_rest vs b d = (cs, b') \<Longrightarrow> spent (sum_list (map tc_nodes cs)) (sum_list (map lit_bytes cs)) b b'"
    and "nbt_parse_list vs b d = (cs, b') \<Longrightarrow> spent (sum_list (map tc_nodes cs)) (sum_list (map lit_bytes cs)) b b'"
    and "nbt_content v b d = (ct, b') \<Longrightarrow> spent (content_nodes ct) (content_bytes ct) b b'"
    and "nbt_parse_compound v b d = (c, b') \<Longrightarrow> spent (tc_nodes c - 1) (lit_bytes c) b b'"
    and "nbt_hover_event v b = (h, b') \<Longrightarrow>
      spent (case h of None \<Rightarrow> 0 | Some he \<Rightarrow> hover_nodes he) (case h of None \<Rightarrow> 0 | Some he \<Rightarrow> hover_bytes he) b b'"
proof (induction v b d and vs b d and vs b d and v b d and v b d and v b
    arbitrary: c b' and cs b' and cs b' and ct b' and c b' and h b' rule: nbt_parsers_induct)
  case (1 v b depth)
  show ?case
  proof (cases "depth > MAX_DEPTH \<or> \<not> fst (take_node b)")
    case True
    with "1.prems" take_node_spent [of b] show ?thesis
      by (auto simp: nbt_parse.simps split: if_splits prod.splits bool.splits)
  next
    case False
    then obtain b1 where d: "\<not> MAX_DEPTH < depth" and t: "take_node b = (True, b1)" by (cases "take_node b") auto
    with take_node_spent have b1: "spent 1 0 b b1" by fastforce
    note run = "1.prems" [unfolded nbt_parse.simps [of v b depth] t prod.case bool.case if_not_P [OF d]]
    have cost: "spent (tc_nodes c) (lit_bytes c) b b'" if "spent n (lit_bytes c) b1 b'" "tc_nodes c \<le> 1 + n" for n
      using spent_less [OF spent_trans [OF b1 that(1)]] that(2) by simp
    show ?thesis
    proof (cases v)
      case (NbtString x)
      with run literal_bounded_spent [of x b1 c b'] show ?thesis by (intro cost [of 0]) auto
    next
      case (NbtList tag items)
      show ?thesis
      proof (cases items)
        case Nil
        with run NbtList show ?thesis by (intro cost [of 0]) auto
      next
        case (Cons i vs)
        obtain c1 b2 where c1: "nbt_parse i b1 (depth + 1) = (c1, b2)" by fastforce
        obtain cs b3 where cs: "nbt_parse_rest vs b2 depth = (cs, b3)" by fastforce
        have r: "c = push_extra c1 cs" "b' = b3" using run NbtList Cons c1 cs by auto
        have "spent (tc_nodes c1 + sum_list (map tc_nodes cs)) (lit_bytes c1 + sum_list (map lit_bytes cs)) b1 b3"
        proof (rule spent_trans)
          show "spent (tc_nodes c1) (lit_bytes c1) b1 b2"
            by (rule "1.IH"(1) [OF d _ _ _ _ c1]) (simp_all add: t NbtList Cons)
          show "spent (sum_list (map tc_nodes cs)) (sum_list (map lit_bytes cs)) b2 b3"
            by (rule "1.IH"(2) [OF d _ _ _ _ _ _ cs]) (rule t [symmetric] c1 [symmetric] NbtList [unfolded Cons] refl TrueI)+
        qed
        then show ?thesis using push_extra_measures [of c1 cs] by (intro cost) (auto simp: r)
      qed
    next
      case (NbtCompound x)
      with run have "nbt_parse_compound v b1 depth = (c, b')" by simp
      from "1.IH"(3) [OF d t [symmetric] refl NbtCompound this] show ?thesis by (rule cost) simp
    qed (use run b1 in \<open>auto intro: spent_less\<close>)
  qed
next
  case (3 item items b depth)
  obtain c1 b1 where 1: "nbt_parse item b (depth + 1) = (c1, b1)" by fastforce
  obtain cs1 b2 where 2: "nbt_parse_rest items b1 depth = (cs1, b2)" by fastforce
  from "3.prems" 1 2 spent_trans [OF "3.IH"(1) [OF 1] "3.IH"(2) [OF 1 [symmetric] refl 2]]
  show ?case by auto
next
  case (5 item items b depth)
  obtain c1 b1 where 1: "nbt_parse item b (depth + 1) = (c1, b1)" by fastforce
  obtain cs1 b2 where 2: "nbt_parse_list items b1 depth = (cs1, b2)" by fastforce
  show ?case
  proof (cases "is_exhausted b")
    case False
    from "5.prems" 1 2 False spent_trans [OF "5.IH"(1) [OF False 1] "5.IH"(2) [OF False 1 [symmetric] refl 2]]
    show ?thesis by auto
  qed (use "5.prems" in auto)
next
  case (6 v b depth)
  then show ?case
    by (auto simp: nbt_content.simps Let_def split: prod.splits option.splits
        dest!: literal_bounded_spent) (auto simp: literal_def)
next
  case (7 v b depth)
  obtain ct b1 where 1: "nbt_content v b depth = (ct, b1)" by fastforce
  obtain hover b2 where 2: "nbt_hover_event v b1 = (hover, b2)" by fastforce
  obtain extra b3 where 3: "nbt_parse_list (list_or_empty (nbt_list_field v ''extra'')) b2 depth = (extra, b3)" by fastforce
  note steps = "7.IH"(1) [OF 1] "7.IH"(2) [OF 1 [symmetric] refl 2] "7.IH"(3) [OF 1 [symmetric] refl 2 [symmetric] refl 3]
  from "7.prems" 1 2 3 have r: "c = TextComponent ct (nbt_style_with v hover) extra" "b' = b3"
    by (auto simp: nbt_parse_compound.simps)
  show ?case unfolding r by (rule spent_less [OF spent_trans [OF spent_trans [OF steps(1,2)] steps(3)]]) auto
next
  case (8 v b)
  then show ?case
    by (auto simp: nbt_hover_event.simps Let_def split: prod.splits option.splits if_splits)
qed auto

lemma parse_depth:
  shows "nbt_parse v b d = (c, b') \<Longrightarrow> d \<le> MAX_DEPTH + 1 \<Longrightarrow> tc_depth c + d \<le> MAX_DEPTH + 2"
    and "nbt_parse_rest vs b d = (cs, b') \<Longrightarrow> d \<le> MAX_DEPTH \<Longrightarrow> max_list (map tc_depth cs) + d \<le> MAX_DEPTH + 1"
    and "nbt_parse_list vs b d = (cs, b') \<Longrightarrow> d \<le> MAX_DEPTH \<Longrightarrow> max_list (map tc_depth cs) + d \<le> MAX_DEPTH + 1"
    and "nbt_content v b d = (ct, b') \<Longrightarrow> d \<le> MAX_DEPTH \<Longrightarrow> content_depth ct + d \<le> MAX_DEPTH + 1"
    and "nbt_parse_compound v b d = (c, b') \<Longrightarrow> d \<le> MAX_DEPTH \<Longrightarrow> tc_depth c + d \<le> MAX_DEPTH + 2"
    and "nbt_hover_event v b = (h, b') \<Longrightarrow> True"
proof (induction v b d and vs b d and vs b d and v b d and v b d and v b
    arbitrary: c b' and cs b' and cs b' and ct b' and c b' and h b' rule: nbt_parsers_induct)
  case (1 v b depth)
  show ?case
  proof (cases "depth > MAX_DEPTH \<or> \<not> fst (take_node b)")
    case True
    with "1.prems" show ?thesis
      by (auto simp: nbt_parse.simps split: if_splits prod.splits bool.splits)
  next
    case False
    then obtain b1 where d: "\<not> MAX_DEPTH < depth" and t: "take_node b = (True, b1)" by (cases "take_node b") auto
    note run = "1.prems"(1) [unfolded nbt_parse.simps [of v b depth] t prod.case bool.case if_not_P [OF d]]
    show ?thesis
    proof (cases v)
      case (NbtString x)
      with run d literal_bounded_spent [of x b1 c b'] show ?thesis by auto
    next
      case (NbtList tag items)
      show ?thesis
      proof (cases items)
        case Nil
        with run d NbtList show ?thesis by auto
      next
        case (Cons i vs)
        obtain c1 b2 where c1: "nbt_parse i b1 (depth + 1) = (c1, b2)" by fastforce
        obtain cs b3 where cs: "nbt_parse_rest vs b2 depth = (cs, b3)" by fastforce
        have r: "c = push_extra c1 cs" using run NbtList Cons c1 cs by auto
        have "tc_depth c1 + (depth + 1) \<le> MAX_DEPTH + 2"
          by (rule "1.IH"(1) [OF d _ _ _ _ c1]) (use d in \<open>simp_all add: t NbtList Cons\<close>)
        moreover have "max_list (map tc_depth cs) + depth \<le> MAX_DEPTH + 1"
          by (rule "1.IH"(2) [OF d t [symmetric] refl NbtList Cons c1 [symmetric] refl cs]) (use d in simp)
        ultimately show ?thesis by (simp add: r push_extra_measures)
      qed
    next
      case (NbtCompound x)
      with run have "nbt_parse_compound v b1 depth = (c, b')" by simp
      from "1.IH"(3) [OF d t [symmetric] refl NbtCompound this] d show ?thesis by simp
    qed (use run d in auto)
  qed
next
  case (3 item items b depth)
  obtain c1 b1 where 1: "nbt_parse item b (depth + 1) = (c1, b1)" by fastforce
  obtain cs1 b2 where 2: "nbt_parse_rest items b1 depth = (cs1, b2)" by fastforce
  from "3.prems" 1 2 "3.IH"(1) [OF 1] "3.IH"(2) [OF 1 [symmetric] refl 2] show ?case by auto
next
  case (5 item items b depth)
  obtain c1 b1 where 1: "nbt_parse item b (depth + 1) = (c1, b1)" by fastforce
  obtain cs1 b2 where 2: "nbt_parse_list items b1 depth = (cs1, b2)" by fastforce
  show ?case
  proof (cases "is_exhausted b")
    case False
    from "5.prems" 1 2 False "5.IH"(1) [OF False 1] "5.IH"(2) [OF False 1 [symmetric] refl 2] show ?thesis by auto
  qed (use "5.prems" in auto)
next
  case (6 v b depth)
  then show ?case
    by (auto simp: nbt_content.simps Let_def split: prod.splits option.splits
        dest!: literal_bounded_spent) (auto simp: literal_def)
next
  case (7 v b depth)
  obtain ct b1 where 1: "nbt_content v b depth = (ct, b1)" by fastforce
  obtain hover b2 where 2: "nbt_hover_event v b1 = (hover, b2)" by fastforce
  obtain extra b3 where 3: "nbt_parse_list (list_or_empty (nbt_list_field v ''extra'')) b2 depth = (extra, b3)" by fastforce
  note steps = "7.IH"(1) [OF 1] "7.IH"(3) [OF 1 [symmetric] refl 2 [symmetric] refl 3]
  from "7.prems" 1 2 3 steps show ?case by (auto simp: nbt_parse_compound.simps)
qed auto

section \<open>JSON components as NBT components\<close>

text \<open>
  The NBT value a JSON value is parsed like: \<open>json_to_nbt_lossy\<close>, but with \<open>null\<close> as a number,
  which is no component either.
\<close>

fun as_nbt :: "(string \<Rightarrow> i64 option) \<Rightarrow> (string \<Rightarrow> u64 option) \<Rightarrow> json \<Rightarrow> nbt" where
  "as_nbt as_i64 as_f64 JNull = NbtLong 0"
| "as_nbt as_i64 as_f64 (JBool b) = NbtByte (if b then 1 else 0)"
| "as_nbt as_i64 as_f64 (JNumber n) = json_to_nbt_lossy as_i64 as_f64 (JNumber n)"
| "as_nbt as_i64 as_f64 (JString s) = NbtString s"
| "as_nbt as_i64 as_f64 (JArray items) =
     (let ns = map (as_nbt as_i64 as_f64) items in NbtList (case ns of [] \<Rightarrow> 8 | n # _ \<Rightarrow> tag_id n) ns)"
| "as_nbt as_i64 as_f64 (JObject entries) = NbtCompound (map (\<lambda>(k, v). (k, as_nbt as_i64 as_f64 v)) entries)"

fun no_null :: "json \<Rightarrow> bool" where
  "no_null JNull = False"
| "no_null (JArray items) = list_all no_null items"
| "no_null (JObject entries) = list_all (\<lambda>(k, v). no_null v) entries"
| "no_null _ = True"

lemma as_nbt_lossy: "no_null v \<Longrightarrow> as_nbt as_i64 as_f64 v = json_to_nbt_lossy as_i64 as_f64 v"
proof (induction v rule: no_null.induct)
  case (2 items)
  then have "map (as_nbt as_i64 as_f64) items = map (json_to_nbt_lossy as_i64 as_f64) items"
    by (auto simp: list_all_iff)
  then show ?case by (simp only: as_nbt.simps json_to_nbt_lossy.simps)
next
  case (3 entries)
  then show ?case by (auto simp: list_all_iff)
qed auto

text \<open>The raw data that is kept for diagnostics is the only difference of the two parsers.\<close>

fun strip_raw :: "text_component \<Rightarrow> text_component" and strip_content :: "content \<Rightarrow> content"
  and strip_style :: "style \<Rightarrow> style" and strip_hover :: "hover_event \<Rightarrow> hover_event" where
  "strip_raw (TextComponent c st ex) = TextComponent (strip_content c) (strip_style st) (map strip_raw ex)"
| "strip_content (Literal t) = Literal t"
| "strip_content (Translate key args) = Translate key (map strip_raw args)"
| "strip_content (UnknownContent raw) = UnknownContent (NbtCompound [])"
| "strip_style (Style a b c d e f g h i hover) = Style a b c d e f g h i (map_option strip_hover hover)"
| "strip_hover (HoverEvent a t r) = HoverEvent a (map_option strip_raw t) (RawNbt (NbtCompound []))"

lemma nbt_get_as_nbt: "nbt_get (as_nbt as_i64 as_f64 v) k = map_option (as_nbt as_i64 as_f64) (json_get v k)"
proof (cases v)
  case (JObject entries)
  have "map_option snd (find (\<lambda>(n, _). n = k) (map (\<lambda>(k, v). (k, as_nbt as_i64 as_f64 v)) entries)) =
      map_option (as_nbt as_i64 as_f64) (map_option snd (find (\<lambda>(n, _). n = k) entries))"
    by (induction entries) auto
  then show ?thesis by (simp add: JObject nbt_get_def json_get_def)
qed (auto simp: nbt_get_def json_get_def Let_def split: option.splits)

lemma as_nbt_cases [simp]:
  "as_nbt as_i64 as_f64 v = NbtString s \<longleftrightarrow> v = JString s"
  "as_nbt as_i64 as_f64 v = NbtByte n \<longleftrightarrow> (\<exists>b. v = JBool b \<and> n = (if b then 1 else 0))"
  by (cases v; auto simp: Let_def split: option.splits)+

lemma as_nbt_fields:
  "nbt_string_field (as_nbt as_i64 as_f64 v) k = json_string_field v k"
  "nbt_bool_field (as_nbt as_i64 as_f64 v) k = json_bool_field v k"
  "list_or_empty (nbt_list_field (as_nbt as_i64 as_f64 v) k) =
     map (as_nbt as_i64 as_f64) (list_or_empty (json_list_field v k))"
  "nbt_event_field (as_nbt as_i64 as_f64 v) k k' = map_option (as_nbt as_i64 as_f64) (json_event_field v k k')"
  by (auto simp: nbt_string_field_def json_string_field_def nbt_bool_field_def json_bool_field_def
      nbt_list_field_def json_list_field_def nbt_event_field_def json_event_field_def nbt_get_as_nbt
      list_or_empty_def Let_def split: option.splits json.splits)

lemma as_nbt_style:
  "strip_style (nbt_style_with (as_nbt as_i64 as_f64 v) h) = strip_style (json_style_with v h') \<longleftrightarrow>
   map_option strip_hover h = map_option strip_hover h'"
  by (auto simp: nbt_style_with_def json_style_with_def as_nbt_fields nbt_click_event_def json_click_event_def
      split: option.splits)

lemma strip_push_extra: "strip_raw (push_extra c cs) = push_extra (strip_raw c) (map strip_raw cs)"
  by (cases c) (simp add: push_extra_def)

lemma map_prod_eqI: "p = (x, y) \<Longrightarrow> map_prod f id q = map_prod f id p \<Longrightarrow> \<exists>x'. q = (x', y) \<and> f x' = f x"
  by (cases q) auto

lemma parse_agrees:
  fixes as_i64 :: "string \<Rightarrow> i64 option" and as_f64 :: "string \<Rightarrow> u64 option"
  shows "map_prod strip_raw id (nbt_parse (as_nbt as_i64 as_f64 v) b d) =
      map_prod strip_raw id (json_parse as_i64 as_f64 v b d)"
    and "map_prod (map strip_raw) id (nbt_parse_rest (map (as_nbt as_i64 as_f64) vs) b d) =
      map_prod (map strip_raw) id (json_parse_rest as_i64 as_f64 vs b d)"
    and "map_prod (map strip_raw) id (nbt_parse_list (map (as_nbt as_i64 as_f64) vs) b d) =
      map_prod (map strip_raw) id (json_parse_list as_i64 as_f64 vs b d)"
    and "map_prod strip_content id (nbt_content (as_nbt as_i64 as_f64 v) b d) =
      map_prod strip_content id (json_content as_i64 as_f64 v b d)"
    and "map_prod strip_raw id (nbt_parse_compound (as_nbt as_i64 as_f64 v) b d) =
      map_prod strip_raw id (json_parse_object as_i64 as_f64 v b d)"
    and "map_prod (map_option strip_hover) id (nbt_hover_event (as_nbt as_i64 as_f64 v) b) =
      map_prod (map_option strip_hover) id (json_hover_event as_i64 as_f64 v b)"
proof (induction as_i64 as_f64 v b d and as_i64 as_f64 vs b d and as_i64 as_f64 vs b d and as_i64 as_f64 v b d
    and as_i64 as_f64 v b d and as_i64 as_f64 v b rule: json_parsers_induct)
  case (1 as_i64 as_f64 v b depth)
  show ?case
  proof (cases "depth > MAX_DEPTH \<or> \<not> fst (take_node b)")
    case True
    then show ?thesis
      by (auto simp: nbt_parse.simps [of _ b depth] json_parse.simps [of _ _ _ b depth] split: prod.splits bool.splits)
  next
    case False
    then obtain b1 where d: "\<not> MAX_DEPTH < depth" and t: "take_node b = (True, b1)" by (cases "take_node b") auto
    note run = nbt_parse.simps [of _ b depth] json_parse.simps [of _ _ _ b depth] t d
    show ?thesis
    proof (cases v)
      case (JNumber n)
      then show ?thesis by (simp add: run split: option.splits)
    next
      case (JArray items)
      show ?thesis
      proof (cases items)
        case (Cons i vs)
        obtain c b2 where j: "json_parse as_i64 as_f64 i b1 (depth + 1) = (c, b2)" by fastforce
        obtain cs b3 where js: "json_parse_rest as_i64 as_f64 vs b2 depth = (cs, b3)" by fastforce
        from map_prod_eqI [OF j "1.IH"(1) [OF d t [symmetric] refl JArray Cons]] obtain c' where
          n: "nbt_parse (as_nbt as_i64 as_f64 i) b1 (depth + 1) = (c', b2)" "strip_raw c' = strip_raw c" by blast
        from map_prod_eqI [OF js "1.IH"(2) [OF d t [symmetric] refl JArray Cons j [symmetric] refl]] obtain cs' where
          ns: "nbt_parse_rest (map (as_nbt as_i64 as_f64) vs) b2 depth = (cs', b3)" "map strip_raw cs' = map strip_raw cs" by blast
        show ?thesis using j js n ns by (simp add: run JArray Cons Let_def strip_push_extra)
      qed (simp add: run JArray Let_def)
    next
      case (JObject entries)
      from "1.IH"(3) [OF d t [symmetric] refl JObject] show ?thesis by (simp add: run JObject)
    qed (simp_all add: run)
  qed
next
  case (3 as_i64 as_f64 item items b depth)
  obtain c b1 where j: "json_parse as_i64 as_f64 item b (depth + 1) = (c, b1)" by fastforce
  obtain cs b2 where js: "json_parse_rest as_i64 as_f64 items b1 depth = (cs, b2)" by fastforce
  from map_prod_eqI [OF j "3.IH"(1)] map_prod_eqI [OF js "3.IH"(2) [OF j [symmetric] refl]] j js
  show ?case by auto
next
  case (5 as_i64 as_f64 item items b depth)
  obtain c b1 where j: "json_parse as_i64 as_f64 item b (depth + 1) = (c, b1)" by fastforce
  obtain cs b2 where js: "json_parse_list as_i64 as_f64 items b1 depth = (cs, b2)" by fastforce
  show ?case
  proof (cases "is_exhausted b")
    case False
    from map_prod_eqI [OF j "5.IH"(1) [OF False]] map_prod_eqI [OF js "5.IH"(2) [OF False j [symmetric] refl]] j js False
    show ?thesis by auto
  qed simp
next
  case (6 as_i64 as_f64 v b depth)
  obtain cs b1 where js: "json_parse_list as_i64 as_f64 (list_or_empty (json_list_field v ''with'')) b depth = (cs, b1)" by fastforce
  show ?case
  proof (cases "json_string_field v ''text'' = None \<and> json_string_field v ''translate'' \<noteq> None")
    case True
    with map_prod_eqI [OF js "6.IH"] js show ?thesis
      by (auto simp: nbt_content.simps json_content.simps as_nbt_fields)
  qed (auto simp: nbt_content.simps json_content.simps as_nbt_fields split: option.splits prod.splits)
next
  case (7 as_i64 as_f64 v b depth)
  obtain ct b1 where 1: "json_content as_i64 as_f64 v b depth = (ct, b1)" by fastforce
  obtain hover b2 where 2: "json_hover_event as_i64 as_f64 v b1 = (hover, b2)" by fastforce
  obtain extra b3 where 3: "json_parse_list as_i64 as_f64 (list_or_empty (json_list_field v ''extra'')) b2 depth = (extra, b3)" by fastforce
  from map_prod_eqI [OF 1 "7.IH"(1)] map_prod_eqI [OF 2 "7.IH"(2) [OF 1 [symmetric] refl]]
    map_prod_eqI [OF 3 "7.IH"(3) [OF 1 [symmetric] refl 2 [symmetric] refl]] 1 2 3
  show ?case by (auto simp: nbt_parse_compound.simps json_parse_object.simps as_nbt_fields as_nbt_style)
next
  case (8 as_i64 as_f64 v b)
  show ?case
  proof (cases "json_event_field v ''hoverEvent'' ''hover_event''")
    case (Some event)
    show ?thesis
    proof (cases "json_string_field event ''action'' = Some ''show_text''")
      case True
      show ?thesis
      proof (cases "json_event_field event ''contents'' ''value''")
        case (Some contents)
        obtain c b1 where j: "json_parse as_i64 as_f64 contents b 0 = (c, b1)" by fastforce
        from map_prod_eqI [OF j "8.IH" [OF \<open>json_event_field v _ _ = _\<close> True refl Some]] j True Some \<open>json_event_field v _ _ = _\<close>
        show ?thesis by (auto simp: nbt_hover_event.simps json_hover_event.simps as_nbt_fields)
      qed (use True Some in \<open>auto simp: nbt_hover_event.simps json_hover_event.simps as_nbt_fields\<close>)
    qed (use Some in \<open>auto simp: nbt_hover_event.simps json_hover_event.simps as_nbt_fields split: option.splits\<close>)
  qed (simp add: nbt_hover_event.simps json_hover_event.simps as_nbt_fields)
qed simp_all

lemma strip_style_default [simp]: "strip_style st = default_style \<longleftrightarrow> st = default_style"
  by (cases st) (auto simp: default_style_def)

lemma strip_content_Literal [simp]: "strip_content c = Literal t \<longleftrightarrow> c = Literal t"
  by (cases c) auto

lemma strip_measures:
  shows "lit_bytes (strip_raw c) = lit_bytes c \<and> tc_nodes (strip_raw c) = tc_nodes c \<and>
      tc_depth (strip_raw c) = tc_depth c \<and> plain_text (strip_raw c) = plain_text c"
    and "content_bytes (strip_content ct) = content_bytes ct \<and> content_nodes (strip_content ct) = content_nodes ct \<and>
      content_depth (strip_content ct) = content_depth ct \<and> content_text (strip_content ct) = content_text ct"
    and "style_bytes (strip_style st) = style_bytes st \<and> style_nodes (strip_style st) = style_nodes st"
    and "hover_bytes (strip_hover h) = hover_bytes h \<and> hover_nodes (strip_hover h) = hover_nodes h"
  by (induction c and ct and st and h rule: strip_raw_strip_content_strip_style_strip_hover.induct)
     (simp_all cong: map_cong add: comp_def split: option.splits)

lemma plain_text_strip: "strip_raw c = strip_raw c' \<Longrightarrow> plain_text c = plain_text c'"
  using strip_measures(1) [of c] strip_measures(1) [of c'] by metis

lemma parsed_bounds:
  "lit_bytes (from_nbt v) \<le> MAX_TEXT_BYTES \<and> tc_nodes (from_nbt v) \<le> MAX_NODES \<and> tc_depth (from_nbt v) \<le> MAX_DEPTH + 2"
proof -
  obtain c b where "nbt_parse v default_budget 0 = (c, b)" by fastforce
  with parse_spent(1) [OF this] parse_depth(1) [OF this] show ?thesis
    by (auto simp: from_nbt_def spent_def default_budget_def)
qed

lemma json_parse_from_nbt:
  "strip_raw (fst (json_parse as_i64 as_f64 v default_budget 0)) = strip_raw (from_nbt (as_nbt as_i64 as_f64 v))"
proof -
  obtain c b where j: "json_parse as_i64 as_f64 v default_budget 0 = (c, b)" by fastforce
  from map_prod_eqI [OF j parse_agrees(1)] j show ?thesis by (auto simp: from_nbt_def)
qed

section \<open>Templates\<close>

text \<open>A template of pieces without placeholders, and the pieces with the arguments between them.\<close>

fun seq_template :: "string \<Rightarrow> string list \<Rightarrow> string" where
  "seq_template p [] = p"
| "seq_template p (q # qs) = p @ ''%s'' @ seq_template q qs"

fun seq_filled :: "string \<Rightarrow> string list \<Rightarrow> string list \<Rightarrow> nat \<Rightarrow> string" where
  "seq_filled p [] args k = p"
| "seq_filled p (q # qs) args k = p @ get_arg args k @ seq_filled q qs args (k + 1)"

lemma substitute_Nil [simp]: "substitute_placeholders [] args k = []"
  by (simp add: substitute_placeholders.simps)

lemma substitute_plain [simp]:
  "c \<noteq> CHR ''%'' \<Longrightarrow> substitute_placeholders (c # cs) args k = c # substitute_placeholders cs args k"
  by (simp add: substitute_placeholders.simps [of "c # cs"])

lemma substitute_s [simp]:
  "substitute_placeholders (CHR ''%'' # CHR ''s'' # cs) args k = get_arg args k @ substitute_placeholders cs args (k + 1)"
  by (simp add: substitute_placeholders.simps [of "_ # _ # _"])

lemma substitute_piece:
  "CHR ''%'' \<notin> set p \<Longrightarrow> substitute_placeholders (p @ cs) args k = p @ substitute_placeholders cs args k"
  by (induction p) auto

lemma substitute_seq:
  "CHR ''%'' \<notin> set p \<Longrightarrow> list_all (\<lambda>q. CHR ''%'' \<notin> set q) qs \<Longrightarrow>
   substitute_placeholders (seq_template p qs) args k = seq_filled p qs args k"
proof (induction p qs args k rule: seq_filled.induct)
  case (1 p args k)
  then show ?case using substitute_piece [of p "[]"] by simp
next
  case (2 p q qs args k)
  then show ?case by (simp add: substitute_piece)
qed

definition templates :: "(string \<times> string \<times> string list) list" where
  "templates =
     [(''chat.type.text'', ''<'', [''> '', '''']),
      (''chat.type.announcement'', ''['', [''] '', '''']),
      (''chat.type.emote'', ''* '', ['' '', '''']),
      (''chat.type.team.text'', '''', ['' <'', ''> '', '''']),
      (''multiplayer.player.joined'', '''', ['' joined the game'']),
      (''multiplayer.player.joined.renamed'', '''', ['' (formerly known as '', '') joined the game'']),
      (''multiplayer.player.left'', '''', ['' left the game'']),
      (''commands.message.display.incoming'', '''', ['' whispers to you: '', '''']),
      (''commands.message.display.outgoing'', ''You whisper to '', ['': '', ''''])]"

lemma translation_template_pieces:
  "translation_template key = map_option (\<lambda>(p, qs). seq_template p qs) (map_of templates key)"
  by (simp add: translation_template_def templates_def)

lemma templates_plain:
  "map_of templates key = Some (p, qs) \<Longrightarrow> CHR ''%'' \<notin> set p \<and> list_all (\<lambda>q. CHR ''%'' \<notin> set q) qs"
  by (auto simp: templates_def split: if_splits)

lemma render_known:
  assumes "map_of templates key = Some (p, qs)"
  shows "render_translation key args = seq_filled p qs args 0"
  using substitute_seq templates_plain [OF assms] by (simp add: render_translation_def translation_template_pieces assms)


lemma nbt_parse_rest_length: "nbt_parse_rest vs b d = (cs, b') \<Longrightarrow> length cs = length vs"
  by (induction vs arbitrary: b cs) (auto simp: Let_def split: prod.splits)


text \<open>A parse within the depth limit and the budget takes a node.\<close>

lemma parse_takes_node:
  assumes "nbt_parse v b d = (c, b')" "d \<le> MAX_DEPTH" "\<not> is_exhausted b"
  shows "bd_nodes b < bd_nodes b'"
proof -
  obtain b1 where t: "take_node b = (True, b1)" "bd_nodes b1 = bd_nodes b + 1"
    using assms(3) by (auto simp: take_node_def)
  note run = assms(1) [unfolded nbt_parse.simps [of v b d] t prod.case bool.case]
  show ?thesis
  proof (cases v)
    case (NbtString x)
    with run t assms(2) literal_bounded_spent [of x b1 c b'] show ?thesis by (simp add: spent_def)
  next
    case (NbtList tag items)
    with run t assms(2) show ?thesis
      by (auto simp: spent_def Let_def split: list.splits prod.splits dest!: parse_spent(1,2))
  next
    case (NbtCompound x)
    with run t assms(2) show ?thesis by (auto simp: spent_def dest!: parse_spent(5))
  qed (use run t assms(2) in auto)
qed

lemma parse_list_length:
  "nbt_parse_list vs b d = (cs, b') \<Longrightarrow> d < MAX_DEPTH \<Longrightarrow> bd_nodes b \<le> MAX_NODES \<Longrightarrow> length cs + bd_nodes b \<le> MAX_NODES"
proof (induction vs arbitrary: b cs b')
  case (Cons v vs)
  show ?case
  proof (cases "is_exhausted b")
    case False
    obtain c b1 where c: "nbt_parse v b (d + 1) = (c, b1)" by fastforce
    obtain cs1 b2 where cs: "nbt_parse_list vs b1 d = (cs1, b2)" by fastforce
    have "bd_nodes b < bd_nodes b1" by (rule parse_takes_node [OF c _ False]) (use Cons.prems(2) in simp)
    moreover have "bd_nodes b1 \<le> MAX_NODES" using parse_spent(1) [OF c] Cons.prems(3) by (simp add: spent_def)
    ultimately show ?thesis using Cons.IH [OF cs] Cons.prems c cs False by auto
  qed (use Cons.prems in auto)
qed simp

section \<open>Properties\<close>



text \<open>
  C23: the two wire forms of a component mean the same. A JSON text without \<open>null\<close> gives the component
  that its NBT form gives, in structure, style, events and rendered text; only the raw data kept for
  diagnostics differs.
\<close>

theorem json_text_agrees:
  assumes "from_str s = Some v" "no_null v"
  shows "strip_raw (from_json_str from_str as_i64 as_f64 s) = strip_raw (from_nbt (json_to_nbt_lossy as_i64 as_f64 v)) \<and>
    plain_text (from_json_str from_str as_i64 as_f64 s) = plain_text (from_nbt (json_to_nbt_lossy as_i64 as_f64 v))"
proof -
  have "strip_raw (from_json_str from_str as_i64 as_f64 s) = strip_raw (from_nbt (json_to_nbt_lossy as_i64 as_f64 v))"
    using json_parse_from_nbt [of as_i64 as_f64 v] as_nbt_lossy [OF assms(2)] assms(1) by (simp add: from_json_str_def)
  then show ?thesis using plain_text_strip by blast
qed

theorem json_text_agrees_witness:
  "plain_text (from_json_str (\<lambda>s. if s = ''x'' then Some (JObject [(''text'', JString ''hi''), (''bold'', JBool True)]) else None)
      (\<lambda>_. None) (\<lambda>_. None) ''x'') =
   plain_text (from_nbt (NbtCompound [(''text'', NbtString ''hi''), (''bold'', NbtByte 1)]))"
proof -
  let ?from_str = "\<lambda>s. if s = ''x'' then Some (JObject [(''text'', JString ''hi''), (''bold'', JBool True)]) else None"
  show ?thesis
    using json_text_agrees [of ?from_str "''x''" "JObject [(''text'', JString ''hi''), (''bold'', JBool True)]"
        "\<lambda>_. None" "\<lambda>_. None"] by simp
qed

text \<open>
  rendering a translation puts the rendered arguments into the template verbatim, in order and at
  its placeholders only: a percent sign inside an argument is never interpreted, a missing argument is
  empty, and an unknown key is shown with its arguments instead of disappearing.
\<close>

theorem translation_renders_arguments:
  "plain_text (TextComponent (Translate key args) st ex) =
     (case map_of templates key of
        Some (p, qs) \<Rightarrow> seq_filled p qs (map plain_text args) 0
      | None \<Rightarrow> if args = [] then key else key @ ''{'' @ join_args (map plain_text args) @ ''}'') @
     concat (map plain_text ex)"
proof (cases "map_of templates key")
  case None
  then show ?thesis by (simp add: render_translation_def translation_template_pieces)
next
  case (Some t)
  then show ?thesis using render_known [of key "fst t" "snd t"] by (cases t) simp
qed

text \<open>
  the node budget truncates the siblings of a compound component, but not a bare list: the
  component a list stands for has a sibling for every further element, however many there are.
\<close>

theorem bare_list_is_not_truncated:
  "length (tc_extra (from_nbt (NbtCompound entries))) \<le> MAX_NODES \<and>
   length (tc_extra (from_nbt (NbtList tag (NbtString t # vs)))) = length vs"
proof
  obtain ct b1 where 1: "nbt_content (NbtCompound entries) (default_budget\<lparr>bd_nodes := 1\<rparr>) 0 = (ct, b1)" by fastforce
  obtain h b2 where 2: "nbt_hover_event (NbtCompound entries) b1 = (h, b2)" by fastforce
  obtain ex b3 where 3: "nbt_parse_list (list_or_empty (nbt_list_field (NbtCompound entries) ''extra'')) b2 0 = (ex, b3)"
    by fastforce
  have "bd_nodes b2 \<le> MAX_NODES"
    using parse_spent(4) [OF 1] parse_spent(6) [OF 2] by (auto simp: spent_def default_budget_def MAX_NODES_def)
  with parse_list_length [OF 3] have "length ex \<le> MAX_NODES" by (simp add: MAX_DEPTH_def)
  then show "length (tc_extra (from_nbt (NbtCompound entries))) \<le> MAX_NODES" using 1 2 3
    by (simp add: from_nbt_def nbt_parse.simps [of "NbtCompound entries"] nbt_parse_compound.simps take_node_def
        is_exhausted_def default_budget_def MAX_NODES_def)
  obtain c b1 where c: "nbt_parse (NbtString t) (default_budget\<lparr>bd_nodes := 1\<rparr>) 1 = (c, b1)" by fastforce
  have "tc_extra c = []" using c
    by (auto simp: nbt_parse.simps take_node_def literal_bounded_def literal_def split: if_splits prod.splits bool.splits)
  moreover obtain cs b2 where cs: "nbt_parse_rest vs b1 0 = (cs, b2)" by fastforce
  ultimately show "length (tc_extra (from_nbt (NbtList tag (NbtString t # vs)))) = length vs"
    using c nbt_parse_rest_length [OF cs]
    by (simp add: from_nbt_def nbt_parse.simps [of "NbtList tag (NbtString t # vs)"] take_node_def
        is_exhausted_def default_budget_def MAX_NODES_def push_extra_def)
qed

end
