(* ===== verification/Scoreboard.thy ===== *)
theory Scoreboard
  imports Scoreboard_Packets Text Btree_Map "HOL-Library.List_Lexorder" "HOL-Library.Char_ord"
    "HOL-Library.Product_Lexorder"
begin

text \<open>
  Scoreboard and team state (src/src/minecraft/scoreboard.rs): the mapping of packets to updates and
  the state they are applied to. The \<open>BTreeMap\<close>s are those of \<open>Btree_Map\<close>, so the key types have the
  order that the source derives.

  Every update keeps the maps within their limits, keeps display slots and scores tied to existing
  objectives, and keeps the index from members to teams equal to the member sets of the teams.
\<close>

section \<open>Data\<close>

definition MAX_OBJECTIVES :: nat where "MAX_OBJECTIVES = 256"
definition MAX_DISPLAY_SLOTS :: nat where "MAX_DISPLAY_SLOTS = 64"
definition MAX_SCORES :: nat where "MAX_SCORES = 16384"
definition MAX_TEAMS :: nat where "MAX_TEAMS = 1024"
definition MAX_TEAM_MEMBERS :: nat where "MAX_TEAM_MEMBERS = 16384"

datatype render_type = RenderInteger | RenderHearts | RenderUnknown i32

definition render_type_from :: "i32 \<Rightarrow> render_type" where
  "render_type_from v = (if v = 0 then RenderInteger else if v = 1 then RenderHearts else RenderUnknown v)"

datatype number_format = Blank | Styled nbt | Fixed text_component | FormatUnknown i32 "nbt option"

datatype team_color =
    Black | DarkBlue | DarkGreen | DarkAqua | DarkRed | DarkPurple | Gold | Gray | DarkGray
  | Blue | Green | Aqua | Red | LightPurple | Yellow | White | Reset | ColorUnknown i32

definition named_colors :: "team_color list" where
  "named_colors =
     [Black, DarkBlue, DarkGreen, DarkAqua, DarkRed, DarkPurple, Gold, Gray, DarkGray, Blue, Green, Aqua,
      Red, LightPurple, Yellow, White]"

definition team_color_from :: "i32 \<Rightarrow> team_color" where
  "team_color_from v =
     (if 0 \<le> sint v \<and> sint v \<le> 15 then named_colors ! nat (sint v)
      else if v = - 1 then Reset else ColorUnknown v)"

datatype display_slot = SlotList | SlotSidebar | SlotBelowName | SlotTeam team_color | SlotUnknown i32

definition display_slot_from :: "i32 \<Rightarrow> display_slot" where
  "display_slot_from v =
     (if v = 0 then SlotList else if v = 1 then SlotSidebar else if v = 2 then SlotBelowName
      else if 3 \<le> sint v \<and> sint v \<le> 18 then SlotTeam (team_color_from (v - 3))
      else SlotUnknown v)"

datatype score_key = ScoreKey (sk_objective: string) (sk_owner: string)

text \<open>The derived orders: position of the variant, then its fields.\<close>

fun color_rank :: "team_color \<Rightarrow> int \<times> int" where
  "color_rank (ColorUnknown v) = (17, sint v)"
| "color_rank Reset = (16, 0)"
| "color_rank Black = (0, 0)" | "color_rank DarkBlue = (1, 0)" | "color_rank DarkGreen = (2, 0)"
| "color_rank DarkAqua = (3, 0)" | "color_rank DarkRed = (4, 0)" | "color_rank DarkPurple = (5, 0)"
| "color_rank Gold = (6, 0)" | "color_rank Gray = (7, 0)" | "color_rank DarkGray = (8, 0)"
| "color_rank Blue = (9, 0)" | "color_rank Green = (10, 0)" | "color_rank Aqua = (11, 0)"
| "color_rank Red = (12, 0)" | "color_rank LightPurple = (13, 0)" | "color_rank Yellow = (14, 0)"
| "color_rank White = (15, 0)"

lemma color_rank_inj [simp]: "color_rank a = color_rank b \<longleftrightarrow> a = b"
  by (cases a; cases b) (auto dest: signed_word_eqI)

fun slot_rank :: "display_slot \<Rightarrow> int \<times> int \<times> int" where
  "slot_rank SlotList = (0, 0, 0)"
| "slot_rank SlotSidebar = (1, 0, 0)"
| "slot_rank SlotBelowName = (2, 0, 0)"
| "slot_rank (SlotTeam c) = (3, color_rank c)"
| "slot_rank (SlotUnknown v) = (4, sint v, 0)"

lemma slot_rank_inj [simp]: "slot_rank a = slot_rank b \<longleftrightarrow> a = b"
  by (cases a; cases b) (auto dest: signed_word_eqI)

instantiation display_slot :: linorder
begin

definition less_eq_display_slot :: "display_slot \<Rightarrow> display_slot \<Rightarrow> bool" where
  "less_eq_display_slot a b \<longleftrightarrow> slot_rank a \<le> slot_rank b"

definition less_display_slot :: "display_slot \<Rightarrow> display_slot \<Rightarrow> bool" where
  "less_display_slot a b \<longleftrightarrow> slot_rank a < slot_rank b"

instance
  by standard (auto simp: less_eq_display_slot_def less_display_slot_def simp flip: slot_rank_inj)

end

instantiation score_key :: linorder
begin

definition less_eq_score_key :: "score_key \<Rightarrow> score_key \<Rightarrow> bool" where
  "less_eq_score_key a b \<longleftrightarrow> (sk_objective a, sk_owner a) \<le> (sk_objective b, sk_owner b)"

definition less_score_key :: "score_key \<Rightarrow> score_key \<Rightarrow> bool" where
  "less_score_key a b \<longleftrightarrow> (sk_objective a, sk_owner a) < (sk_objective b, sk_owner b)"

instance
proof
  fix a b :: score_key
  show "a \<le> b \<Longrightarrow> b \<le> a \<Longrightarrow> a = b" by (cases a; cases b) (auto simp: less_eq_score_key_def)
qed (auto simp: less_eq_score_key_def less_score_key_def)

end

datatype name_tag_visibility =
    TagAlways | TagNever | TagHideForOtherTeams | TagHideForOwnTeam | TagUnknown string

definition name_tag_visibility_from :: "string \<Rightarrow> name_tag_visibility" where
  "name_tag_visibility_from v =
     (if v = ''always'' then TagAlways else if v = ''never'' then TagNever
      else if v = ''hideForOtherTeams'' then TagHideForOtherTeams
      else if v = ''hideForOwnTeam'' then TagHideForOwnTeam else TagUnknown v)"

datatype collision_rule =
    PushAlways | PushNever | PushOtherTeams | PushOwnTeam | PushUnknown string

definition collision_rule_from :: "string \<Rightarrow> collision_rule" where
  "collision_rule_from v =
     (if v = ''always'' then PushAlways else if v = ''never'' then PushNever
      else if v = ''pushOtherTeams'' then PushOtherTeams
      else if v = ''pushOwnTeam'' then PushOwnTeam else PushUnknown v)"

record friendly_fire =
  ff_raw :: u8

definition allows_friendly_fire :: "friendly_fire \<Rightarrow> bool" where
  "allows_friendly_fire f \<longleftrightarrow> ff_raw f AND 0x01 \<noteq> 0"

definition see_friendly_invisibles :: "friendly_fire \<Rightarrow> bool" where
  "see_friendly_invisibles f \<longleftrightarrow> ff_raw f AND 0x02 \<noteq> 0"

record objective_definition =
  od_display_name :: text_component
  od_render_type :: render_type
  od_number_format :: "number_format option"

record objective =
  ob_name :: string
  ob_display_name :: text_component
  ob_render_type :: render_type
  ob_number_format :: "number_format option"

definition into_objective :: "objective_definition \<Rightarrow> string \<Rightarrow> objective" where
  "into_objective d name =
     \<lparr>ob_name = name, ob_display_name = od_display_name d, ob_render_type = od_render_type d,
      ob_number_format = od_number_format d\<rparr>"

record score =
  sr_owner :: string
  sr_objective :: string
  sr_value :: i32
  sr_display_name :: "text_component option"
  sr_number_format :: "number_format option"

record team_definition =
  td_display_name :: text_component
  td_friendly_fire :: friendly_fire
  td_name_tag_visibility :: name_tag_visibility
  td_collision_rule :: collision_rule
  td_color :: team_color
  td_prefix :: text_component
  td_suffix :: text_component

record team =
  te_name :: string
  te_display_name :: text_component
  te_friendly_fire :: friendly_fire
  te_name_tag_visibility :: name_tag_visibility
  te_collision_rule :: collision_rule
  te_color :: team_color
  te_prefix :: text_component
  te_suffix :: text_component
  te_members :: "string bt_set"

definition into_team :: "team_definition \<Rightarrow> string \<Rightarrow> team" where
  "into_team d name =
     \<lparr>te_name = name, te_display_name = td_display_name d, te_friendly_fire = td_friendly_fire d,
      te_name_tag_visibility = td_name_tag_visibility d, te_collision_rule = td_collision_rule d,
      te_color = td_color d, te_prefix = td_prefix d, te_suffix = td_suffix d, te_members = []\<rparr>"

datatype objective_action = ObjCreate | ObjRemove | ObjUpdate | ObjUnknown i8

definition objective_action_from :: "i8 \<Rightarrow> objective_action" where
  "objective_action_from v =
     (if v = 0 then ObjCreate else if v = 1 then ObjRemove else if v = 2 then ObjUpdate else ObjUnknown v)"

datatype score_action = ScoreSet | ScoreReset

datatype team_action =
  TeamCreated | TeamRemoved | TeamUpdated | TeamMembersAdded | TeamMembersRemoved | TeamActionUnknown i8

datatype scoreboard_event =
    ObjectiveChanged string objective_action "objective option" nat nat bool
  | DisplaySlotChanged display_slot "string option" bool
  | ScoreChanged string "string option" score_action "score option" nat bool
  | TeamChanged string team_action "team option" nat nat bool

datatype team_update =
    TeamCreate string team_definition "string list"
  | TeamRemove string
  | TeamUpdate string team_definition
  | TeamAddMembers string "string list"
  | TeamRemoveMembers string "string list"
  | TeamUnknown string i8

fun update_name :: "team_update \<Rightarrow> string" where
  "update_name (TeamCreate name _ _) = name"
| "update_name (TeamRemove name) = name"
| "update_name (TeamUpdate name _) = name"
| "update_name (TeamAddMembers name _) = name"
| "update_name (TeamRemoveMembers name _) = name"
| "update_name (TeamUnknown name _) = name"

fun update_action :: "team_update \<Rightarrow> team_action" where
  "update_action (TeamCreate _ _ _) = TeamCreated"
| "update_action (TeamRemove _) = TeamRemoved"
| "update_action (TeamUpdate _ _) = TeamUpdated"
| "update_action (TeamAddMembers _ _) = TeamMembersAdded"
| "update_action (TeamRemoveMembers _ _) = TeamMembersRemoved"
| "update_action (TeamUnknown _ mode) = TeamActionUnknown mode"

datatype scoreboard_update =
    UpObjective string objective_action "objective_definition option"
  | UpDisplaySlot display_slot "string option"
  | UpSetScore score
  | UpResetScore string "string option"
  | UpTeam team_update

record scoreboard_state =
  sb_objectives :: "(string \<times> objective) list"
  sb_display_slots :: "(display_slot \<times> string) list"
  sb_scores :: "(score_key \<times> score) list"
  sb_teams :: "(string \<times> team) list"
  sb_member_teams :: "(string \<times> string) list"

definition default_scoreboard :: scoreboard_state where
  "default_scoreboard =
     \<lparr>sb_objectives = [], sb_display_slots = [], sb_scores = [], sb_teams = [], sb_member_teams = []\<rparr>"

definition team_for_member :: "scoreboard_state \<Rightarrow> string \<Rightarrow> string option" where
  "team_for_member s member = bt_get (sb_member_teams s) member"

section \<open>Applying updates\<close>

definition apply_objective ::
  "scoreboard_state \<Rightarrow> string \<Rightarrow> objective_action \<Rightarrow> objective_definition option \<Rightarrow>
   scoreboard_event \<times> scoreboard_state" where
  "apply_objective s name action def =
     (let (applied, detached_slots, removed_scores, s1) =
        (case action of
           ObjCreate \<Rightarrow>
             (case def of
                None \<Rightarrow> (False, 0, 0, s)
              | Some d \<Rightarrow>
                  if \<not> bt_contains (sb_objectives s) name \<and> length (sb_objectives s) \<ge> MAX_OBJECTIVES
                  then (False, 0, 0, s)
                  else (True, 0, 0, s\<lparr>sb_objectives := bt_insert name (into_objective d name) (sb_objectives s)\<rparr>))
         | ObjUpdate \<Rightarrow>
             (case def of
                None \<Rightarrow> (False, 0, 0, s)
              | Some d \<Rightarrow>
                  if \<not> bt_contains (sb_objectives s) name then (False, 0, 0, s)
                  else (True, 0, 0, s\<lparr>sb_objectives := bt_modify name (\<lambda>_. into_objective d name) (sb_objectives s)\<rparr>))
         | ObjRemove \<Rightarrow>
             (let removed = bt_contains (sb_objectives s) name;
                  slots = bt_retain (\<lambda>_ objective. objective \<noteq> name) (sb_display_slots s);
                  detached = length (sb_display_slots s) - length slots;
                  scores = bt_retain (\<lambda>key _. sk_objective key \<noteq> name) (sb_scores s);
                  removed_sc = length (sb_scores s) - length scores in
              (removed \<or> detached \<noteq> 0 \<or> removed_sc \<noteq> 0, detached, removed_sc,
               s\<lparr>sb_objectives := bt_remove name (sb_objectives s), sb_display_slots := slots, sb_scores := scores\<rparr>))
         | ObjUnknown _ \<Rightarrow> (False, 0, 0, s)) in
      (ObjectiveChanged name action (bt_get (sb_objectives s1) name) detached_slots removed_scores applied, s1))"

definition apply_display_slot ::
  "scoreboard_state \<Rightarrow> display_slot \<Rightarrow> string option \<Rightarrow> scoreboard_event \<times> scoreboard_state" where
  "apply_display_slot s slot objective =
     (let (applied, s1) =
        (case objective of
           None \<Rightarrow> (bt_contains (sb_display_slots s) slot, s\<lparr>sb_display_slots := bt_remove slot (sb_display_slots s)\<rparr>)
         | Some name \<Rightarrow>
             if \<not> bt_contains (sb_objectives s) name then (False, s)
             else if \<not> bt_contains (sb_display_slots s) slot \<and> length (sb_display_slots s) \<ge> MAX_DISPLAY_SLOTS
             then (False, s)
             else (True, s\<lparr>sb_display_slots := bt_insert slot name (sb_display_slots s)\<rparr>)) in
      (DisplaySlotChanged slot (bt_get (sb_display_slots s1) slot) applied, s1))"

definition apply_score :: "scoreboard_state \<Rightarrow> score \<Rightarrow> scoreboard_event \<times> scoreboard_state" where
  "apply_score s sc =
     (let key = ScoreKey (sr_objective sc) (sr_owner sc);
          objective_exists = bt_contains (sb_objectives s) (sr_objective sc);
          has_capacity = (bt_contains (sb_scores s) key \<or> length (sb_scores s) < MAX_SCORES);
          applied = (objective_exists \<and> has_capacity);
          s1 = (if applied then s\<lparr>sb_scores := bt_insert key sc (sb_scores s)\<rparr> else s) in
      (ScoreChanged (sk_owner key) (Some (sk_objective key)) ScoreSet (bt_get (sb_scores s1) key)
         (if applied then 1 else 0) applied, s1))"

definition apply_score_reset ::
  "scoreboard_state \<Rightarrow> string \<Rightarrow> string option \<Rightarrow> scoreboard_event \<times> scoreboard_state" where
  "apply_score_reset s owner objective =
     (let (affected, s1) =
        (case objective of
           Some name \<Rightarrow>
             (if bt_contains (sb_scores s) (ScoreKey name owner) then 1 else 0,
              s\<lparr>sb_scores := bt_remove (ScoreKey name owner) (sb_scores s)\<rparr>)
         | None \<Rightarrow>
             (let scores = bt_retain (\<lambda>key _. sk_owner key \<noteq> owner) (sb_scores s) in
              (length (sb_scores s) - length scores, s\<lparr>sb_scores := scores\<rparr>))) in
      (ScoreChanged owner objective ScoreReset None affected (affected \<noteq> 0), s1))"

definition team_event ::
  "scoreboard_state \<Rightarrow> string \<Rightarrow> team_action \<Rightarrow> bool \<Rightarrow> nat \<Rightarrow> nat \<Rightarrow> scoreboard_event" where
  "team_event s name action applied affected_members rejected_members =
     TeamChanged name action (bt_get (sb_teams s) name) affected_members rejected_members applied"

text \<open>The three loops over members. A step of the first returns whether the member was added or rejected.\<close>

definition insert_member :: "string \<Rightarrow> team \<Rightarrow> team" where
  "insert_member member t = t\<lparr>te_members := bts_insert member (te_members t)\<rparr>"

definition remove_member :: "string \<Rightarrow> team \<Rightarrow> team" where
  "remove_member member t = t\<lparr>te_members := bt_remove member (te_members t)\<rparr>"

fun add_team_members ::
  "scoreboard_state \<Rightarrow> string \<Rightarrow> string list \<Rightarrow> (nat \<times> nat) \<times> scoreboard_state" where
  "add_team_members s team_name [] = ((0, 0), s)"
| "add_team_members s team_name (member # members) =
     (if bt_get (sb_member_teams s) member = Some team_name then add_team_members s team_name members
      else if \<not> bt_contains (sb_member_teams s) member \<and> length (sb_member_teams s) \<ge> MAX_TEAM_MEMBERS then
        (let ((affected, rejected), s') = add_team_members s team_name members in ((affected, rejected + 1), s'))
      else
        (let teams = (case bt_get (sb_member_teams s) member of
                        Some previous \<Rightarrow> bt_modify previous (remove_member member) (sb_teams s)
                      | None \<Rightarrow> sb_teams s);
             s1 = s\<lparr>sb_member_teams := bt_insert member team_name (sb_member_teams s), sb_teams := teams\<rparr>;
             added = bt_contains teams team_name;
             s2 = s1\<lparr>sb_teams := bt_modify team_name (insert_member member) teams\<rparr>;
             ((affected, rejected), s') = add_team_members s2 team_name members in
         ((affected + (if added then 1 else 0), rejected), s')))"

definition remove_team_members :: "scoreboard_state \<Rightarrow> string \<Rightarrow> nat \<times> scoreboard_state" where
  "remove_team_members s team_name =
     (case bt_get (sb_teams s) team_name of
        None \<Rightarrow> (0, s)
      | Some t \<Rightarrow>
          (let members = bts_elems (te_members t);
               index = fold (\<lambda>member m. if bt_get m member = Some team_name then bt_remove member m else m)
                 members (sb_member_teams s) in
           (length members,
            s\<lparr>sb_member_teams := index,
              sb_teams := bt_modify team_name (\<lambda>t. t\<lparr>te_members := []\<rparr>) (sb_teams s)\<rparr>)))"

fun remove_named_team_members ::
  "scoreboard_state \<Rightarrow> string \<Rightarrow> string list \<Rightarrow> nat \<times> scoreboard_state" where
  "remove_named_team_members s team_name [] = (0, s)"
| "remove_named_team_members s team_name (member # members) =
     (if bt_get (sb_member_teams s) member \<noteq> Some team_name then remove_named_team_members s team_name members
      else
        (let s1 = s\<lparr>sb_member_teams := bt_remove member (sb_member_teams s),
                    sb_teams := bt_modify team_name (remove_member member) (sb_teams s)\<rparr>;
             (affected, s') = remove_named_team_members s1 team_name members in
         (affected + 1, s')))"

definition apply_team :: "scoreboard_state \<Rightarrow> team_update \<Rightarrow> scoreboard_event \<times> scoreboard_state" where
  "apply_team s update =
     (let ((applied, affected_members, rejected_members), s1) =
        (case update of
           TeamCreate name def members \<Rightarrow>
             if \<not> bt_contains (sb_teams s) name \<and> length (sb_teams s) \<ge> MAX_TEAMS
             then ((False, 0, length members), s)
             else
               (let (_, s') = remove_team_members s name;
                    s'' = s'\<lparr>sb_teams := bt_insert name (into_team def name) (sb_teams s')\<rparr>;
                    ((affected, rejected), s3) = add_team_members s'' name members in
                ((True, affected, rejected), s3))
         | TeamRemove name \<Rightarrow>
             (let (affected, s') = remove_team_members s name in
              ((bt_contains (sb_teams s') name, affected, 0), s'\<lparr>sb_teams := bt_remove name (sb_teams s')\<rparr>))
         | TeamUpdate name def \<Rightarrow>
             if \<not> bt_contains (sb_teams s) name then ((False, 0, 0), s)
             else ((True, 0, 0),
               s\<lparr>sb_teams := bt_modify name (\<lambda>t. (into_team def name)\<lparr>te_members := te_members t\<rparr>) (sb_teams s)\<rparr>)
         | TeamAddMembers name members \<Rightarrow>
             if \<not> bt_contains (sb_teams s) name then ((False, 0, length members), s)
             else
               (let ((affected, rejected), s') = add_team_members s name members in
                ((affected \<noteq> 0, affected, rejected), s'))
         | TeamRemoveMembers name members \<Rightarrow>
             if \<not> bt_contains (sb_teams s) name then ((False, 0, length members), s)
             else
               (let (affected, s') = remove_named_team_members s name members in
                ((affected \<noteq> 0, affected, 0), s'))
         | TeamUnknown _ _ \<Rightarrow> ((False, 0, 0), s)) in
      (team_event s1 (update_name update) (update_action update) applied affected_members rejected_members, s1))"

definition sb_apply :: "scoreboard_state \<Rightarrow> scoreboard_update \<Rightarrow> scoreboard_event \<times> scoreboard_state" where
  "sb_apply s update =
     (case update of
        UpObjective name action def \<Rightarrow> apply_objective s name action def
      | UpDisplaySlot slot objective \<Rightarrow> apply_display_slot s slot objective
      | UpSetScore sc \<Rightarrow> apply_score s sc
      | UpResetScore owner objective \<Rightarrow> apply_score_reset s owner objective
      | UpTeam u \<Rightarrow> apply_team s u)"

section \<open>Packets to updates\<close>

definition number_format_of :: "i32 option \<Rightarrow> nbt option \<Rightarrow> number_format option" where
  "number_format_of kind styling =
     (case kind of
        None \<Rightarrow> None
      | Some k \<Rightarrow>
          Some (if k = 0 then Blank
            else if k = 1 then (case styling of Some st \<Rightarrow> Styled st | None \<Rightarrow> FormatUnknown 1 None)
            else if k = 2 then (case styling of Some st \<Rightarrow> Fixed (from_nbt st) | None \<Rightarrow> FormatUnknown 2 None)
            else FormatUnknown k styling))"

definition styling_payload :: "nbt switch12 \<Rightarrow> nbt option" where
  "styling_payload s = (case s of V1 v \<Rightarrow> Some v | V12 v \<Rightarrow> Some v | SwitchNone \<Rightarrow> None)"

definition objective_styling_of :: "objective_styling \<Rightarrow> nbt option" where
  "objective_styling_of s =
     (case s of V0 v \<Rightarrow> styling_payload v | V2 v \<Rightarrow> styling_payload v | SwitchDefault \<Rightarrow> None)"

definition score_styling_of :: "score_styling \<Rightarrow> nbt option" where
  "score_styling_of s = (case s of V1 v \<Rightarrow> Some v | V12 v \<Rightarrow> Some v | SwitchNone \<Rightarrow> None)"

text \<open>The payload of a switch that is present, as every \<open>match\<close> with a \<open>return None\<close> takes it.\<close>

definition present :: "'v switch02 \<Rightarrow> 'v option" where
  "present s = (case s of V0 v \<Rightarrow> Some v | V2 v \<Rightarrow> Some v | SwitchDefault \<Rightarrow> None)"

definition objective_definition_of :: "packet_scoreboard_objective \<Rightarrow> objective_definition option" where
  "objective_definition_of p =
     (case present (so_display_text p) of
        None \<Rightarrow> None
      | Some text \<Rightarrow>
          (case present (so_type p) of
             None \<Rightarrow> None
           | Some ty \<Rightarrow>
               (case present (so_number_format p) of
                  None \<Rightarrow> None
                | Some kind \<Rightarrow>
                    Some \<lparr>od_display_name = from_nbt text, od_render_type = render_type_from ty,
                          od_number_format = number_format_of kind (objective_styling_of (so_styling p))\<rparr>)))"

definition team_definition_of :: "packet_teams \<Rightarrow> team_definition option" where
  "team_definition_of p =
     (case present (tm_name p) of
        None \<Rightarrow> None
      | Some name \<Rightarrow>
          (case present (tm_friendly_fire p) of
             None \<Rightarrow> None
           | Some ff \<Rightarrow>
               (case present (tm_name_tag_visibility p) of
                  None \<Rightarrow> None
                | Some ntv \<Rightarrow>
                    (case present (tm_collision_rule p) of
                       None \<Rightarrow> None
                     | Some cr \<Rightarrow>
                         (case present (tm_formatting p) of
                            None \<Rightarrow> None
                          | Some fmt \<Rightarrow>
                              (case present (tm_prefix p) of
                                 None \<Rightarrow> None
                               | Some prefix \<Rightarrow>
                                   (case present (tm_suffix p) of
                                      None \<Rightarrow> None
                                    | Some suffix \<Rightarrow>
                                        Some \<lparr>td_display_name = from_nbt name, td_friendly_fire = \<lparr>ff_raw = ff\<rparr>,
                                              td_name_tag_visibility = name_tag_visibility_from ntv,
                                              td_collision_rule = collision_rule_from cr,
                                              td_color = team_color_from fmt, td_prefix = from_nbt prefix,
                                              td_suffix = from_nbt suffix\<rparr>)))))))"

definition team_players :: "teams_players \<Rightarrow> string list option" where
  "team_players p =
     (case p of PlayersV0 v \<Rightarrow> Some v | PlayersV3 v \<Rightarrow> Some v | PlayersV4 v \<Rightarrow> Some v | PlayersDefault \<Rightarrow> None)"

definition team_update_of :: "packet_teams \<Rightarrow> team_update" where
  "team_update_of p =
     (let mode = tm_mode p; team = tm_team p in
      if mode = 0 then
        (case (team_definition_of p, team_players (tm_players p)) of
           (Some def, Some members) \<Rightarrow> TeamCreate team def members
         | _ \<Rightarrow> TeamUnknown team mode)
      else if mode = 1 then TeamRemove team
      else if mode = 2 then
        (case team_definition_of p of Some def \<Rightarrow> TeamUpdate team def | None \<Rightarrow> TeamUnknown team mode)
      else if mode = 3 then
        (case team_players (tm_players p) of Some members \<Rightarrow> TeamAddMembers team members | None \<Rightarrow> TeamUnknown team mode)
      else if mode = 4 then
        (case team_players (tm_players p) of Some members \<Rightarrow> TeamRemoveMembers team members | None \<Rightarrow> TeamUnknown team mode)
      else TeamUnknown team mode)"

definition CLIENTBOUND_RESET_SCORE_ID :: i32 where "CLIENTBOUND_RESET_SCORE_ID = 73"
definition CLIENTBOUND_SCOREBOARD_DISPLAY_OBJECTIVE_ID :: i32 where "CLIENTBOUND_SCOREBOARD_DISPLAY_OBJECTIVE_ID = 92"
definition CLIENTBOUND_SCOREBOARD_OBJECTIVE_ID :: i32 where "CLIENTBOUND_SCOREBOARD_OBJECTIVE_ID = 100"
definition CLIENTBOUND_TEAMS_ID :: i32 where "CLIENTBOUND_TEAMS_ID = 103"
definition CLIENTBOUND_SCOREBOARD_SCORE_ID :: i32 where "CLIENTBOUND_SCOREBOARD_SCORE_ID = 104"

definition sb_decode_update :: "i32 \<Rightarrow> u8 list \<Rightarrow> protocol_error + scoreboard_update option" where
  "sb_decode_update pid payload =
     (let input = new_reader payload in
      if pid = CLIENTBOUND_SCOREBOARD_OBJECTIVE_ID then
        and_then (decode_objective input) (\<lambda>(p, _).
          Ok (Some (UpObjective (so_name p) (objective_action_from (so_action p)) (objective_definition_of p))))
      else if pid = CLIENTBOUND_SCOREBOARD_DISPLAY_OBJECTIVE_ID then
        and_then (decode_display_objective input) (\<lambda>(p, _).
          Ok (Some (UpDisplaySlot (display_slot_from (do_position p)) (if do_name p = '''' then None else Some (do_name p)))))
      else if pid = CLIENTBOUND_SCOREBOARD_SCORE_ID then
        and_then (decode_score input) (\<lambda>(p, _).
          Ok (Some (UpSetScore \<lparr>sr_owner = sc_item_name p, sr_objective = sc_score_name p, sr_value = sc_value p,
            sr_display_name = map_option from_nbt (sc_display_name p),
            sr_number_format = number_format_of (sc_number_format p) (score_styling_of (sc_styling p))\<rparr>)))
      else if pid = CLIENTBOUND_RESET_SCORE_ID then
        and_then (decode_reset_score input) (\<lambda>(p, _).
          Ok (Some (UpResetScore (rs_entity_name p) (rs_objective_name p))))
      else if pid = CLIENTBOUND_TEAMS_ID then
        and_then (decode_teams input) (\<lambda>(p, _). Ok (Some (UpTeam (team_update_of p))))
      else Ok None)"

section \<open>The invariant\<close>

text \<open>The maps are ordered and within their limits.\<close>

definition bounds_ok :: "scoreboard_state \<Rightarrow> bool" where
  "bounds_ok s \<longleftrightarrow>
     bt_ok (sb_objectives s) \<and> length (sb_objectives s) \<le> MAX_OBJECTIVES \<and>
     bt_ok (sb_display_slots s) \<and> length (sb_display_slots s) \<le> MAX_DISPLAY_SLOTS \<and>
     bt_ok (sb_scores s) \<and> length (sb_scores s) \<le> MAX_SCORES \<and>
     bt_ok (sb_teams s) \<and> length (sb_teams s) \<le> MAX_TEAMS \<and>
     bt_ok (sb_member_teams s) \<and> length (sb_member_teams s) \<le> MAX_TEAM_MEMBERS"

text \<open>Display slots and scores belong to objectives that exist, and entries are filed under their own names.\<close>

definition refs_ok :: "scoreboard_state \<Rightarrow> bool" where
  "refs_ok s \<longleftrightarrow>
     (\<forall>slot name. bt_get (sb_display_slots s) slot = Some name \<longrightarrow> bt_contains (sb_objectives s) name) \<and>
     (\<forall>key sc. bt_get (sb_scores s) key = Some sc \<longrightarrow>
        bt_contains (sb_objectives s) (sk_objective key) \<and> key = ScoreKey (sr_objective sc) (sr_owner sc)) \<and>
     (\<forall>name ob. bt_get (sb_objectives s) name = Some ob \<longrightarrow> ob_name ob = name)"

text \<open>The index from members to teams and the member sets of the teams say the same.\<close>

definition members_of :: "scoreboard_state \<Rightarrow> string \<Rightarrow> string set" where
  "members_of s name = (case bt_get (sb_teams s) name of Some t \<Rightarrow> set (bts_elems (te_members t)) | None \<Rightarrow> {})"

definition index_ok :: "scoreboard_state \<Rightarrow> bool" where
  "index_ok s \<longleftrightarrow>
     (\<forall>member name. bt_get (sb_member_teams s) member = Some name \<longleftrightarrow> member \<in> members_of s name) \<and>
     (\<forall>name t. bt_get (sb_teams s) name = Some t \<longrightarrow> te_name t = name \<and> bt_ok (te_members t))"

definition sb_ok :: "scoreboard_state \<Rightarrow> bool" where
  "sb_ok s \<longleftrightarrow> bounds_ok s \<and> refs_ok s \<and> index_ok s"

lemma default_scoreboard_ok: "sb_ok default_scoreboard"
  by (simp add: sb_ok_def bounds_ok_def refs_ok_def index_ok_def members_of_def default_scoreboard_def)

lemma bounds_teams:
  "bounds_ok s \<Longrightarrow> bt_ok ts \<Longrightarrow> length ts \<le> MAX_TEAMS \<Longrightarrow> bt_ok m \<Longrightarrow> length m \<le> MAX_TEAM_MEMBERS \<Longrightarrow>
   bounds_ok (s\<lparr>sb_teams := ts, sb_member_teams := m\<rparr>)"
  by (simp add: bounds_ok_def)

lemma refs_teams [simp]:
  "refs_ok (s\<lparr>sb_teams := ts\<rparr>) = refs_ok s" "refs_ok (s\<lparr>sb_member_teams := m\<rparr>) = refs_ok s"
  by (simp_all add: refs_ok_def)

lemma index_other [simp]:
  "index_ok (s\<lparr>sb_objectives := os\<rparr>) = index_ok s" "index_ok (s\<lparr>sb_display_slots := ds\<rparr>) = index_ok s"
  "index_ok (s\<lparr>sb_scores := ss\<rparr>) = index_ok s"
  by (simp_all add: index_ok_def members_of_def)

subsection \<open>Objectives, slots and scores\<close>

lemma apply_objective_ok:
  assumes "sb_ok s" "apply_objective s name action def = (ev, s')"
  shows "sb_ok s'"
proof (cases action)
  case ObjRemove
  have s': "s' = s\<lparr>sb_objectives := bt_remove name (sb_objectives s),
      sb_display_slots := bt_retain (\<lambda>_ objective. objective \<noteq> name) (sb_display_slots s),
      sb_scores := bt_retain (\<lambda>key _. sk_objective key \<noteq> name) (sb_scores s)\<rparr>"
    using assms(2) ObjRemove by (auto simp: apply_objective_def Let_def)
  have "bounds_ok s'" using assms(1) unfolding s'
    by (auto simp: sb_ok_def bounds_ok_def bt_remove_ok bt_retain_ok
        intro: order_trans [OF bt_remove_length] order_trans [OF bt_retain_length])
  moreover have "refs_ok s'" using assms(1) unfolding s'
    by (auto simp: sb_ok_def refs_ok_def bounds_ok_def bt_get_retain split: option.splits if_splits)
  ultimately show ?thesis using assms(1) by (simp add: sb_ok_def s')
qed (use assms in \<open>auto simp: apply_objective_def sb_ok_def bounds_ok_def refs_ok_def Let_def into_objective_def
      bt_insert_ok bt_insert_length split: option.splits if_splits\<close>)

lemma apply_display_slot_ok:
  assumes "sb_ok s" "apply_display_slot s slot objective = (ev, s')"
  shows "sb_ok s'"
  using assms
  by (auto simp: apply_display_slot_def sb_ok_def bounds_ok_def refs_ok_def Let_def bt_insert_ok bt_insert_length
      bt_remove_ok intro: order_trans [OF bt_remove_length] split: option.splits if_splits)

lemma apply_score_ok:
  assumes "sb_ok s" "apply_score s sc = (ev, s')"
  shows "sb_ok s'"
  using assms
  by (auto simp: apply_score_def sb_ok_def bounds_ok_def refs_ok_def Let_def bt_insert_ok bt_insert_length
      split: if_splits)

lemma apply_score_reset_ok:
  assumes "sb_ok s" "apply_score_reset s owner objective = (ev, s')"
  shows "sb_ok s'"
  using assms
  by (auto simp: apply_score_reset_def sb_ok_def bounds_ok_def refs_ok_def Let_def bt_remove_ok bt_retain_ok
      bt_get_retain intro: order_trans [OF bt_remove_length] order_trans [OF bt_retain_length]
      split: option.splits if_splits)

subsection \<open>Teams\<close>

lemma members_of_teams:
  "members_of (s\<lparr>sb_member_teams := m\<rparr>) n = members_of s n"
  by (simp add: members_of_def)

text \<open>Everything about a team but its members, and everything that is not about teams.\<close>

definition same_teams :: "scoreboard_state \<Rightarrow> scoreboard_state \<Rightarrow> bool" where
  "same_teams s s' \<longleftrightarrow>
     sb_objectives s' = sb_objectives s \<and> sb_display_slots s' = sb_display_slots s \<and> sb_scores s' = sb_scores s \<and>
     (\<forall>n. map_option (\<lambda>t. t\<lparr>te_members := []\<rparr>) (bt_get (sb_teams s') n) =
        map_option (\<lambda>t. t\<lparr>te_members := []\<rparr>) (bt_get (sb_teams s) n))"

lemma same_teams_refl [simp]: "same_teams s s"
  by (simp add: same_teams_def)

lemma same_teams_trans: "same_teams s s1 \<Longrightarrow> same_teams s1 s2 \<Longrightarrow> same_teams s s2"
  by (simp add: same_teams_def)

lemma same_teams_contains: "same_teams s s' \<Longrightarrow> bt_contains (sb_teams s') n = bt_contains (sb_teams s) n"
  unfolding same_teams_def bt_contains_def by (metis option.map_disc_iff)

lemma index_okD: "index_ok s \<Longrightarrow> bt_get (sb_member_teams s) m = Some n \<longleftrightarrow> m \<in> members_of s n"
  by (simp add: index_ok_def)

lemma insert_member_simps [simp]:
  "te_name (insert_member m t) = te_name t" "te_members (insert_member m t) = bts_insert m (te_members t)"
  "(insert_member m t)\<lparr>te_members := x\<rparr> = t\<lparr>te_members := x\<rparr>"
  by (simp_all add: insert_member_def)

lemma remove_member_simps [simp]:
  "te_name (remove_member m t) = te_name t" "te_members (remove_member m t) = bt_remove m (te_members t)"
  "(remove_member m t)\<lparr>te_members := x\<rparr> = t\<lparr>te_members := x\<rparr>"
  by (simp_all add: remove_member_def)

text \<open>One turn of the loop in \<open>add_team_members\<close> that adds the member.\<close>

definition move_member :: "scoreboard_state \<Rightarrow> string \<Rightarrow> string \<Rightarrow> scoreboard_state" where
  "move_member s team_name member =
     (let teams = (case bt_get (sb_member_teams s) member of
                     Some previous \<Rightarrow> bt_modify previous (remove_member member) (sb_teams s)
                   | None \<Rightarrow> sb_teams s) in
      s\<lparr>sb_member_teams := bt_insert member team_name (sb_member_teams s),
        sb_teams := bt_modify team_name (insert_member member) teams\<rparr>)"

lemma move_member_members:
  assumes "index_ok s" "bt_contains (sb_teams s) name" "bt_get (sb_member_teams s) m \<noteq> Some name"
  shows "members_of (move_member s name m) n = (if n = name then insert m (members_of s name) else members_of s n - {m})"
proof (cases "bt_get (sb_member_teams s) m")
  case None
  then have "m \<notin> members_of s n" by (simp flip: index_okD [OF assms(1)])
  with None assms(2) show ?thesis
    by (auto simp: move_member_def members_of_def bt_contains_def split: option.splits)
next
  case (Some p)
  then have "n \<noteq> p \<Longrightarrow> m \<notin> members_of s n" by (simp flip: index_okD [OF assms(1)])
  with Some assms(2,3) show ?thesis
    by (auto simp: move_member_def members_of_def bt_contains_def split: option.splits if_splits)
qed

lemma move_member_ok:
  assumes "sb_ok s" "bt_contains (sb_teams s) name" "bt_get (sb_member_teams s) m \<noteq> Some name"
    "bt_contains (sb_member_teams s) m \<or> length (sb_member_teams s) < MAX_TEAM_MEMBERS"
  shows "sb_ok (move_member s name m) \<and> same_teams s (move_member s name m)"
proof -
  have b: "bounds_ok s" and i: "index_ok s" using assms(1) by (simp_all add: sb_ok_def)
  have "bounds_ok (move_member s name m)"
    using b assms(4) by (auto simp: move_member_def bounds_ok_def Let_def bt_insert_ok bt_insert_length split: option.splits)
  moreover have "refs_ok (move_member s name m)" using assms(1) by (simp add: sb_ok_def move_member_def Let_def)
  moreover have "index_ok (move_member s name m)"
  proof -
    have "bt_get (sb_member_teams (move_member s name m)) x = Some n \<longleftrightarrow> x \<in> members_of (move_member s name m) n" for x n
      using move_member_members [OF i assms(2,3), of n] index_okD [OF i, of x n] index_okD [OF i, of x name]
      by (auto simp: move_member_def Let_def)
    moreover have "te_name t = n \<and> bt_ok (te_members t)" if "bt_get (sb_teams (move_member s name m)) n = Some t" for n t
      using i that by (auto simp: move_member_def index_ok_def Let_def bts_insert_def bt_insert_ok bt_remove_ok
          split: option.splits if_splits)
    ultimately show ?thesis by (simp add: index_ok_def)
  qed
  moreover have "same_teams s (move_member s name m)"
    by (auto simp: same_teams_def move_member_def Let_def option.map_comp comp_def split: option.splits)
  ultimately show ?thesis by (simp add: sb_ok_def)
qed

lemma move_member_index:
  "bt_get (sb_member_teams (move_member s name m)) = (bt_get (sb_member_teams s))(m \<mapsto> name)"
  by (simp add: move_member_def Let_def)

lemma add_team_members_move:
  assumes "bt_get (sb_member_teams s) m \<noteq> Some name" "bt_contains (sb_teams s) name"
    "bt_contains (sb_member_teams s) m \<or> length (sb_member_teams s) < MAX_TEAM_MEMBERS"
  shows "add_team_members s name (m # ms) =
    (let ((a, r), s') = add_team_members (move_member s name m) name ms in ((a + 1, r), s'))"
proof -
  have "\<not> (\<not> bt_contains (sb_member_teams s) m \<and> length (sb_member_teams s) \<ge> MAX_TEAM_MEMBERS)" using assms(3) by auto
  with assms(1,2) show ?thesis
    by (simp add: move_member_def Let_def split: option.splits prod.splits) (auto simp: case_prod_beta Let_def)
qed

lemma add_team_members_ok:
  assumes "sb_ok s" "bt_contains (sb_teams s) name" "add_team_members s name ms = ((a, r), s')"
  shows "sb_ok s' \<and> same_teams s s' \<and> a + r \<le> length ms \<and>
    (r = 0 \<longrightarrow> bt_get (sb_member_teams s') = (\<lambda>m. if m \<in> set ms then Some name else bt_get (sb_member_teams s) m))"
  using assms
proof (induction ms arbitrary: s a r s')
  case (Cons m ms)
  consider (same) "bt_get (sb_member_teams s) m = Some name"
    | (full) "bt_get (sb_member_teams s) m \<noteq> Some name" "\<not> bt_contains (sb_member_teams s) m"
        "length (sb_member_teams s) \<ge> MAX_TEAM_MEMBERS"
    | (move) "bt_get (sb_member_teams s) m \<noteq> Some name"
        "bt_contains (sb_member_teams s) m \<or> length (sb_member_teams s) < MAX_TEAM_MEMBERS"
    by (meson not_le)
  then show ?case
  proof cases
    case same
    with Cons.prems have "add_team_members s name ms = ((a, r), s')" by simp
    note IH = Cons.IH [OF Cons.prems(1,2) this]
    have "(\<lambda>x. if x \<in> set (m # ms) then Some name else bt_get (sb_member_teams s) x) =
        (\<lambda>x. if x \<in> set ms then Some name else bt_get (sb_member_teams s) x)" using same by (intro ext) auto
    with IH show ?thesis by simp
  next
    case full
    obtain a1 r1 s1 where run: "add_team_members s name ms = ((a1, r1), s1)" by (cases "add_team_members s name ms") auto
    have "add_team_members s name (m # ms) = ((a1, r1 + 1), s1)" by (simp add: full run)
    with Cons.prems(3) have "a = a1" "r = r1 + 1" "s' = s1" by (simp_all only: prod.inject)
    with Cons.IH [OF Cons.prems(1,2) run] show ?thesis by simp
  next
    case move
    obtain a1 r1 s1 where run: "add_team_members (move_member s name m) name ms = ((a1, r1), s1)"
      by (cases "add_team_members (move_member s name m) name ms") auto
    have "add_team_members s name (m # ms) = ((a1 + 1, r1), s1)"
      unfolding add_team_members_move [OF move(1) Cons.prems(2) move(2)] by (simp add: run)
    with Cons.prems(3) have r: "a = a1 + 1" "r = r1" "s' = s1" by (simp_all only: prod.inject)
    note ok = move_member_ok [OF Cons.prems(1,2) move]
    then have "bt_contains (sb_teams (move_member s name m)) name"
      using ok Cons.prems(2) same_teams_contains by blast
    note IH = Cons.IH [OF conjunct1 [OF ok] this run]
    then have "same_teams s s1" using ok same_teams_trans by blast
    moreover have "(\<lambda>x. if x \<in> set ms then Some name else bt_get (sb_member_teams (move_member s name m)) x) =
        (\<lambda>x. if x \<in> set (m # ms) then Some name else bt_get (sb_member_teams s) x)"
      unfolding move_member_index by (intro ext) auto
    ultimately show ?thesis using IH unfolding r by simp
  qed
qed simp

lemma bt_ok_remove_members:
  "bt_ok m \<Longrightarrow> bt_ok (fold (\<lambda>member m. if bt_get m member = Some name then bt_remove member m else m) ms m) \<and>
   length (fold (\<lambda>member m. if bt_get m member = Some name then bt_remove member m else m) ms m) \<le> length m"
proof (induction ms arbitrary: m)
  case (Cons x ms)
  let ?m = "if bt_get m x = Some name then bt_remove x m else m"
  have "bt_ok ?m" "length ?m \<le> length m" using Cons.prems by (simp_all add: bt_remove_ok bt_remove_length)
  with Cons.IH [of ?m] show ?case by simp
qed simp

lemma bt_get_remove_members:
  "bt_get (fold (\<lambda>member m. if bt_get m member = Some name then bt_remove member m else m) ms m) =
   (\<lambda>x. if x \<in> set ms \<and> bt_get m x = Some name then None else bt_get m x)"
proof (induction ms arbitrary: m)
  case (Cons x ms)
  let ?m = "if bt_get m x = Some name then bt_remove x m else m"
  show ?case using Cons.IH [of ?m] by (auto simp: fun_eq_iff)
qed simp

lemma remove_team_members_ok:
  assumes "sb_ok s" "remove_team_members s name = (a, s')"
  shows "sb_ok s' \<and> same_teams s s' \<and> members_of s' name = {} \<and>
    bt_get (sb_member_teams s') = (\<lambda>m. if bt_get (sb_member_teams s) m = Some name then None else bt_get (sb_member_teams s) m)"
proof (cases "bt_get (sb_teams s) name")
  case None
  then have "members_of s name = {}" by (simp add: members_of_def)
  with None assms index_okD [of s] show ?thesis
    by (auto simp: remove_team_members_def sb_ok_def fun_eq_iff)
next
  case (Some t)
  note s' = assms(2) [unfolded remove_team_members_def Some option.case Let_def, THEN arg_cong, of snd, simplified, symmetric]
  have b: "bounds_ok s" and i: "index_ok s" using assms(1) by (simp_all add: sb_ok_def)
  have idx: "bt_get (sb_member_teams s') = (\<lambda>m. if bt_get (sb_member_teams s) m = Some name then None else bt_get (sb_member_teams s) m)"
    using Some by (auto simp: s' bt_get_remove_members fun_eq_iff index_okD [OF i] members_of_def)
  have mem: "members_of s' n = (if n = name then {} else members_of s n)" for n
    by (auto simp: s' members_of_def bts_elems_def split: option.splits)
  have "bounds_ok s'"
    using b bt_ok_remove_members [of "sb_member_teams s" name "bts_elems (te_members t)"]
    by (simp add: s' bounds_ok_def)
  moreover have "refs_ok s'" using assms(1) by (simp add: sb_ok_def s')
  moreover have "index_ok s'"
  proof -
    have "bt_get (sb_member_teams s') m = Some n \<longleftrightarrow> m \<in> members_of s' n" for m n
      using index_okD [OF i, of m n] by (auto simp: idx mem)
    moreover have "te_name t' = n \<and> bt_ok (te_members t')" if "bt_get (sb_teams s') n = Some t'" for n t'
      using i that by (auto simp: s' index_ok_def split: if_splits)
    ultimately show ?thesis by (simp add: index_ok_def)
  qed
  moreover have "same_teams s s'"
    by (auto simp: same_teams_def s' option.map_comp comp_def split: option.splits)
  ultimately show ?thesis using idx mem by (simp add: sb_ok_def)
qed

lemma drop_member_ok:
  assumes "sb_ok s" "bt_get (sb_member_teams s) m = Some name"
  defines "s1 \<equiv> s\<lparr>sb_member_teams := bt_remove m (sb_member_teams s), sb_teams := bt_modify name (remove_member m) (sb_teams s)\<rparr>"
  shows "sb_ok s1 \<and> same_teams s s1"
proof -
  have b: "bounds_ok s" and i: "index_ok s" using assms(1) by (simp_all add: sb_ok_def)
  have idx: "bt_get (sb_member_teams s1) x = (if x = m then None else bt_get (sb_member_teams s) x)" for x
    by (simp add: s1_def)
  have mem: "members_of s1 n = (if n = name then members_of s n - {m} else members_of s n)" for n
    by (auto simp: s1_def members_of_def split: option.splits)
  have "bounds_ok s1" using b
    by (auto simp: s1_def bounds_ok_def bt_remove_ok intro: order_trans [OF bt_remove_length])
  moreover have "refs_ok s1" using assms(1) by (simp add: sb_ok_def s1_def)
  moreover have "index_ok s1"
  proof -
    have "bt_get (sb_member_teams s1) x = Some n \<longleftrightarrow> x \<in> members_of s1 n" for x n
      using index_okD [OF i, of x n] assms(2) by (auto simp: mem idx split: if_splits)
    moreover have "te_name t' = n \<and> bt_ok (te_members t')" if "bt_get (sb_teams s1) n = Some t'" for n t'
      using i that by (auto simp: s1_def index_ok_def bt_remove_ok split: if_splits)
    ultimately show ?thesis by (simp add: index_ok_def)
  qed
  moreover have "same_teams s s1"
    by (auto simp: same_teams_def s1_def option.map_comp comp_def split: option.splits)
  ultimately show ?thesis by (simp add: sb_ok_def)
qed

lemma remove_named_ok:
  assumes "sb_ok s" "remove_named_team_members s name ms = (a, s')"
  shows "sb_ok s' \<and> same_teams s s' \<and>
    bt_get (sb_member_teams s') =
      (\<lambda>m. if m \<in> set ms \<and> bt_get (sb_member_teams s) m = Some name then None else bt_get (sb_member_teams s) m)"
  using assms
proof (induction ms arbitrary: s a s')
  case (Cons m ms)
  show ?case
  proof (cases "bt_get (sb_member_teams s) m = Some name")
    case True
    let ?s1 = "s\<lparr>sb_member_teams := bt_remove m (sb_member_teams s), sb_teams := bt_modify name (remove_member m) (sb_teams s)\<rparr>"
    obtain a1 s2 where run: "remove_named_team_members ?s1 name ms = (a1, s2)" by fastforce
    with True Cons.prems(2) have "s' = s2" by (simp add: Let_def)
    moreover have "sb_ok ?s1" "same_teams s ?s1" using drop_member_ok [OF Cons.prems(1) True] by auto
    moreover note Cons.IH [OF \<open>sb_ok ?s1\<close> run]
    moreover have "bt_get (sb_member_teams ?s1) = (bt_get (sb_member_teams s))(m := None)" by simp
    moreover have "same_teams s s2" using calculation same_teams_trans by blast
    ultimately show ?thesis using True 
      by (simp only: fun_eq_iff fun_upd_apply list.set insert_iff) auto
  next
    case False
    with Cons.prems have "remove_named_team_members s name ms = (a, s')" by simp
    with Cons.IH [OF Cons.prems(1)] False show ?thesis by (simp add: fun_eq_iff)
  qed
qed simp

lemma remove_team_members_length: "remove_team_members s name = (a, s') \<Longrightarrow> length (sb_teams s') = length (sb_teams s)"
  by (auto simp: remove_team_members_def Let_def split: option.splits)

lemma put_team_ok:
  assumes "sb_ok s" "members_of s name = {}" "bt_contains (sb_teams s) name \<or> length (sb_teams s) < MAX_TEAMS"
    "te_name t = name" "te_members t = []"
  shows "sb_ok (s\<lparr>sb_teams := bt_insert name t (sb_teams s)\<rparr>)"
proof -
  let ?s = "s\<lparr>sb_teams := bt_insert name t (sb_teams s)\<rparr>"
  have mem: "members_of ?s n = members_of s n" for n using assms(2,5) by (auto simp: members_of_def bts_elems_def)
  have "bounds_ok ?s" using assms(1,3) by (auto simp: sb_ok_def bounds_ok_def bt_insert_ok bt_insert_length)
  moreover have "index_ok ?s" using assms(1,4,5) unfolding sb_ok_def index_ok_def mem by (auto split: if_splits)
  ultimately show ?thesis using assms(1) by (simp add: sb_ok_def)
qed

lemma drop_team_ok:
  assumes "sb_ok s" "members_of s name = {}"
  shows "sb_ok (s\<lparr>sb_teams := bt_remove name (sb_teams s)\<rparr>)"
proof -
  let ?s = "s\<lparr>sb_teams := bt_remove name (sb_teams s)\<rparr>"
  have mem: "members_of ?s n = members_of s n" for n using assms(2) by (auto simp: members_of_def)
  have "bounds_ok ?s" using assms(1)
    by (auto simp: sb_ok_def bounds_ok_def bt_remove_ok intro: order_trans [OF bt_remove_length])
  moreover have "index_ok ?s" using assms(1) unfolding sb_ok_def index_ok_def mem by (auto split: if_splits)
  ultimately show ?thesis using assms(1) by (simp add: sb_ok_def)
qed

lemma edit_team_ok:
  assumes "sb_ok s" "\<And>t. te_name (f t) = name" "\<And>t. te_members (f t) = te_members t"
  shows "sb_ok (s\<lparr>sb_teams := bt_modify name f (sb_teams s)\<rparr>)"
proof -
  let ?s = "s\<lparr>sb_teams := bt_modify name f (sb_teams s)\<rparr>"
  have mem: "members_of ?s n = members_of s n" for n using assms(3) by (auto simp: members_of_def split: option.splits)
  have "bounds_ok ?s" using assms(1) by (simp add: sb_ok_def bounds_ok_def)
  moreover have "index_ok ?s" using assms unfolding sb_ok_def index_ok_def mem by (auto split: if_splits)
  ultimately show ?thesis using assms(1) by (simp add: sb_ok_def)
qed

text \<open>What an update of a team does to the membership relation, when no member is rejected for space.\<close>

fun spec_membership :: "team_update \<Rightarrow> (string \<Rightarrow> string option) \<Rightarrow> string \<Rightarrow> string option" where
  "spec_membership (TeamCreate name def ms) mem m =
     (if m \<in> set ms then Some name else if mem m = Some name then None else mem m)"
| "spec_membership (TeamRemove name) mem m = (if mem m = Some name then None else mem m)"
| "spec_membership (TeamAddMembers name ms) mem m = (if m \<in> set ms then Some name else mem m)"
| "spec_membership (TeamRemoveMembers name ms) mem m = (if m \<in> set ms \<and> mem m = Some name then None else mem m)"
| "spec_membership (TeamUpdate name def) mem m = mem m"
| "spec_membership (TeamUnknown name mode) mem m = mem m"

definition rejected_of :: "scoreboard_event \<Rightarrow> nat" where
  "rejected_of ev = (case ev of TeamChanged _ _ _ _ rejected _ \<Rightarrow> rejected | _ \<Rightarrow> 0)"

lemma unknown_team_empty: "sb_ok s \<Longrightarrow> \<not> bt_contains (sb_teams s) name \<Longrightarrow> bt_get (sb_member_teams s) m \<noteq> Some name"
  using index_okD [of s m name] by (auto simp: sb_ok_def members_of_def bt_contains_def)

lemma apply_team_ok:
  assumes "sb_ok s" "apply_team s u = (ev, s')"
  shows "sb_ok s' \<and>
    (rejected_of ev = 0 \<longrightarrow> team_for_member s' = spec_membership u (team_for_member s))"
proof (cases u)
  case (TeamCreate name def ms)
  show ?thesis
  proof (cases "\<not> bt_contains (sb_teams s) name \<and> length (sb_teams s) \<ge> MAX_TEAMS")
    case True
    with assms TeamCreate unknown_team_empty [OF assms(1), of name] show ?thesis
      by (auto simp: apply_team_def team_event_def rejected_of_def fun_eq_iff team_for_member_def)
  next
    case False
    obtain a1 s1 where 1: "remove_team_members s name = (a1, s1)" by fastforce
    let ?s2 = "s1\<lparr>sb_teams := bt_insert name (into_team def name) (sb_teams s1)\<rparr>"
    obtain a r s3 where 3: "add_team_members ?s2 name ms = ((a, r), s3)" by (cases "add_team_members ?s2 name ms") auto
    have ev: "s' = s3" "rejected_of ev = r"
      using assms(2) TeamCreate False 1 3 by (auto simp: apply_team_def team_event_def rejected_of_def)
    note ok1 = remove_team_members_ok [OF assms(1) 1]
    have "bt_contains (sb_teams s1) name \<or> length (sb_teams s1) < MAX_TEAMS"
      using False remove_team_members_length [OF 1] ok1 same_teams_contains [of s s1 name] by auto
    then have "sb_ok ?s2" using put_team_ok [of s1 name "into_team def name"] ok1 by (simp add: into_team_def)
    from add_team_members_ok [OF this _ 3] ok1 TeamCreate ev show ?thesis
      by (auto simp: team_for_member_def)
  qed
next
  case (TeamRemove name)
  obtain a1 s1 where 1: "remove_team_members s name = (a1, s1)" by fastforce
  note ok1 = remove_team_members_ok [OF assms(1) 1]
  from assms(2) TeamRemove 1 have "s' = s1\<lparr>sb_teams := bt_remove name (sb_teams s1)\<rparr>"
    by (auto simp: apply_team_def)
  with ok1 drop_team_ok [of s1 name] TeamRemove show ?thesis by (auto simp: team_for_member_def)
next
  case (TeamUpdate name def)
  have "sb_ok (s\<lparr>sb_teams := bt_modify name (\<lambda>t. (into_team def name)\<lparr>te_members := te_members t\<rparr>) (sb_teams s)\<rparr>)"
    by (rule edit_team_ok [OF assms(1)]) (simp_all add: into_team_def)
  with assms TeamUpdate show ?thesis
    by (auto simp: apply_team_def team_for_member_def split: if_splits)
next
  case (TeamAddMembers name ms)
  show ?thesis
  proof (cases "bt_contains (sb_teams s) name")
    case True
    obtain a r s1 where 1: "add_team_members s name ms = ((a, r), s1)" by (cases "add_team_members s name ms") auto
    from assms(2) TeamAddMembers True 1 have "s' = s1" "rejected_of ev = r"
      by (auto simp: apply_team_def team_event_def rejected_of_def)
    with add_team_members_ok [OF assms(1) True 1] TeamAddMembers show ?thesis
      by (auto simp: team_for_member_def)
  next
    case False
    with assms TeamAddMembers show ?thesis
      by (auto simp: apply_team_def team_event_def rejected_of_def fun_eq_iff)
  qed
next
  case (TeamRemoveMembers name ms)
  show ?thesis
  proof (cases "bt_contains (sb_teams s) name")
    case True
    obtain a s1 where 1: "remove_named_team_members s name ms = (a, s1)" by fastforce
    from assms(2) TeamRemoveMembers True 1 have "s' = s1" by (auto simp: apply_team_def)
    with remove_named_ok [OF assms(1) 1] TeamRemoveMembers show ?thesis by (auto simp: team_for_member_def)
  next
    case False
    with assms TeamRemoveMembers unknown_team_empty [OF assms(1) False] show ?thesis
      by (auto simp: apply_team_def fun_eq_iff team_for_member_def)
  qed
next
  case (TeamUnknown name mode)
  with assms show ?thesis by (auto simp: apply_team_def fun_eq_iff)
qed

lemma sb_apply_ok: "sb_ok s \<Longrightarrow> sb_apply s u = (ev, s') \<Longrightarrow> sb_ok s'"
  by (cases u)
     (auto simp: sb_apply_def dest: apply_objective_ok apply_display_slot_ok apply_score_ok apply_score_reset_ok
       apply_team_ok)

definition sb_run :: "scoreboard_update list \<Rightarrow> scoreboard_state" where
  "sb_run us = foldl (\<lambda>s u. snd (sb_apply s u)) default_scoreboard us"

lemma sb_run_ok: "sb_ok (sb_run us)"
proof -
  have "sb_ok s \<Longrightarrow> sb_ok (foldl (\<lambda>s u. snd (sb_apply s u)) s us)" for s
  proof (induction us arbitrary: s)
    case (Cons u us)
    have "sb_ok (snd (sb_apply s u))" using sb_apply_ok [OF Cons.prems] by (metis prod.collapse)
    with Cons.IH show ?case by simp
  qed simp
  then show ?thesis by (simp add: sb_run_def default_scoreboard_ok)
qed

lemma bt_retain_count:
  assumes "bt_ok m"
  shows "length m - length (bt_retain P m) = card {k. \<exists>v. bt_get m k = Some v \<and> \<not> P k v}"
proof -
  have d: "distinct (map fst m)" by (rule bt_ok_distinct [OF assms])
  have "length m = length (filter (\<lambda>(k, v). P k v) m) + length (filter (\<lambda>e. \<not> (case e of (k, v) \<Rightarrow> P k v)) m)"
    by (rule sum_length_filter_compl [symmetric])
  moreover have "length (filter (\<lambda>e. \<not> (case e of (k, v) \<Rightarrow> P k v)) m) =
      card (set (map fst (filter (\<lambda>e. \<not> (case e of (k, v) \<Rightarrow> P k v)) m)))"
    using distinct_card [OF distinct_map_filter [OF d, of "\<lambda>e. \<not> (case e of (k, v) \<Rightarrow> P k v)"]] by simp
  moreover have "set (map fst (filter (\<lambda>e. \<not> (case e of (k, v) \<Rightarrow> P k v)) m)) = {k. \<exists>v. bt_get m k = Some v \<and> \<not> P k v}"
    using d by (auto simp: image_iff)
  ultimately show ?thesis by (simp add: bt_retain_def)
qed

section \<open>Properties\<close>

text \<open>
  C19: whatever updates the server sends, the scoreboard stays within its limits, no display slot or
  score outlives its objective, and a member is listed by exactly the team that \<open>team_for_member\<close>
  returns for it, so by at most one.
\<close>

theorem scoreboard_consistent:
  "bounds_ok (sb_run us) \<and> refs_ok (sb_run us) \<and>
   (team_for_member (sb_run us) m = Some n) = (m \<in> members_of (sb_run us) n)"
  using sb_run_ok [of us] index_okD [of "sb_run us" m n] by (simp add: sb_ok_def team_for_member_def)

text \<open>
  C20: team updates refine the membership relation they stand for. As long as none of its members is
  rejected for lack of space, an update moves, adds and removes exactly the members it names: creating
  a team takes over its name and dismisses its former members, removing one dismisses all, adding moves
  a member out of its old team, and removing touches only members of that team.
\<close>

theorem team_update_refines:
  assumes "sb_ok s" "apply_team s u = (ev, s')" "rejected_of ev = 0"
  shows "sb_ok s' \<and> team_for_member s' = spec_membership u (team_for_member s)"
  using apply_team_ok [OF assms(1,2)] assms(3) by simp

definition sample_team :: team_definition where
  "sample_team = \<lparr>td_display_name = literal ''r'', td_friendly_fire = \<lparr>ff_raw = 3\<rparr>, td_name_tag_visibility = TagAlways,
     td_collision_rule = PushNever, td_color = Red, td_prefix = literal '''', td_suffix = literal ''''\<rparr>"

theorem team_update_refines_witness:
  "team_for_member (snd (apply_team default_scoreboard (TeamCreate ''red'' sample_team [''a'', ''b'']))) ''b'' = Some ''red''"
proof -
  let ?r = "apply_team default_scoreboard (TeamCreate ''red'' sample_team [''a'', ''b''])"
  have r: "?r = (fst ?r, snd ?r)" and z: "rejected_of (fst ?r) = 0"
    by (simp_all add: apply_team_def default_scoreboard_def bt_contains_def MAX_TEAMS_def MAX_TEAM_MEMBERS_def
        remove_team_members_def team_event_def rejected_of_def Let_def)
  show ?thesis using team_update_refines [OF default_scoreboard_ok r z] by simp
qed

text \<open>
  removing an objective takes its display slots and scores with it and nothing else, and the event
  reports exactly how many of each were dropped and whether there was an objective of that name.
\<close>

theorem removing_objective_cascades:
  assumes "sb_ok s"
  shows "\<exists>s'. apply_objective s name ObjRemove def =
      (ObjectiveChanged name ObjRemove None
         (card {slot. bt_get (sb_display_slots s) slot = Some name})
         (card {key. sk_objective key = name \<and> bt_contains (sb_scores s) key})
         (bt_contains (sb_objectives s) name), s') \<and>
    bt_get (sb_objectives s') = (bt_get (sb_objectives s))(name := None) \<and>
    bt_get (sb_display_slots s') =
      (\<lambda>slot. if bt_get (sb_display_slots s) slot = Some name then None else bt_get (sb_display_slots s) slot) \<and>
    bt_get (sb_scores s') = (\<lambda>key. if sk_objective key = name then None else bt_get (sb_scores s) key) \<and>
    sb_teams s' = sb_teams s \<and> sb_member_teams s' = sb_member_teams s"
proof -
  let ?slots = "bt_retain (\<lambda>_ objective. objective \<noteq> name) (sb_display_slots s)"
  let ?scores = "bt_retain (\<lambda>key _. sk_objective key \<noteq> name) (sb_scores s)"
  have b: "bt_ok (sb_display_slots s)" "bt_ok (sb_scores s)" and refs: "refs_ok s"
    using assms by (simp_all add: sb_ok_def bounds_ok_def)
  have c1: "length (sb_display_slots s) - length ?slots = card {slot. bt_get (sb_display_slots s) slot = Some name}"
    unfolding bt_retain_count [OF b(1)] by (rule arg_cong [of _ _ card]) auto
  have c2: "length (sb_scores s) - length ?scores = card {key. sk_objective key = name \<and> bt_contains (sb_scores s) key}"
    unfolding bt_retain_count [OF b(2)] by (rule arg_cong [of _ _ card]) (auto simp: bt_contains_def)
  have "bt_contains (sb_objectives s) name" if "bt_get (sb_display_slots s) slot = Some name" for slot
    using refs that by (auto simp: refs_ok_def)
  moreover have "bt_contains (sb_objectives s) name" if "sk_objective key = name" "bt_contains (sb_scores s) key" for key
    using refs that by (auto simp: refs_ok_def bt_contains_def)
  ultimately have a: "(bt_contains (sb_objectives s) name \<or>
      card {slot. bt_get (sb_display_slots s) slot = Some name} \<noteq> 0 \<or>
      card {key. sk_objective key = name \<and> bt_contains (sb_scores s) key} \<noteq> 0) = bt_contains (sb_objectives s) name"
    by (metis (mono_tags, lifting) Collect_empty_eq card.empty)
  show ?thesis
    unfolding apply_objective_def objective_action.case Let_def c1 c2 prod.case a
    using bt_get_retain [OF b(1)] bt_get_retain [OF b(2)]
    by (auto simp: fun_eq_iff split: option.splits)
qed

theorem removing_objective_cascades_witness:
  "bt_get (sb_objectives (snd (apply_objective default_scoreboard ''x'' ObjRemove None))) ''x'' = None"
  using removing_objective_cascades [OF default_scoreboard_ok, of "''x''" None] by auto

lemma packet_reads:
  assumes "trait_codec enc dec bytes ok" "ok p"
  shows "\<exists>w r. enc new_writer p = Ok w \<and> dec (new_reader (wr_buf w)) = Ok (p, r)"
  using trait_codec.roundtrip [OF assms] by blast

lemmas packet_ids = CLIENTBOUND_RESET_SCORE_ID_def CLIENTBOUND_SCOREBOARD_DISPLAY_OBJECTIVE_ID_def
  CLIENTBOUND_SCOREBOARD_OBJECTIVE_ID_def CLIENTBOUND_TEAMS_ID_def CLIENTBOUND_SCOREBOARD_SCORE_ID_def

lemma present_switch: "switch02_ok ok d s \<Longrightarrow> (present s = None) = (d \<noteq> 0 \<and> d \<noteq> 2)"
  by (auto simp: switch02_ok_def present_def split: switch02.splits)

lemma teams_ok_definition:
  assumes "teams_ok p"
  shows "(team_definition_of p = None) = (tm_mode p \<noteq> 0 \<and> tm_mode p \<noteq> 2)"
proof -
  have "(team_definition_of p = None) =
      (present (tm_name p) = None \<or> present (tm_friendly_fire p) = None \<or> present (tm_name_tag_visibility p) = None \<or>
       present (tm_collision_rule p) = None \<or> present (tm_formatting p) = None \<or> present (tm_prefix p) = None \<or>
       present (tm_suffix p) = None)"
    by (auto simp: team_definition_of_def split: option.splits)
  moreover have "switch02_ok nbt_ok (tm_mode p) (tm_name p)" "switch02_ok (\<lambda>_. True) (tm_mode p) (tm_friendly_fire p)"
    "switch02_ok str_ok (tm_mode p) (tm_name_tag_visibility p)" "switch02_ok str_ok (tm_mode p) (tm_collision_rule p)"
    "switch02_ok (\<lambda>_. True) (tm_mode p) (tm_formatting p)" "switch02_ok nbt_ok (tm_mode p) (tm_prefix p)"
    "switch02_ok nbt_ok (tm_mode p) (tm_suffix p)"
    using assms by (simp_all add: teams_ok_def Let_def)
  note this [THEN present_switch]
  ultimately show ?thesis by blast
qed

lemma teams_ok_players:
  assumes "teams_ok p"
  shows "(team_players (tm_players p) = None) = (tm_mode p \<noteq> 0 \<and> tm_mode p \<noteq> 3 \<and> tm_mode p \<noteq> 4)"
  using assms by (auto simp: teams_ok_def players_ok_def team_players_def Let_def split: teams_players.splits)

text \<open>
  Every well-formed scoreboard packet is encoded to bytes that are decoded to the update it stands
  for, and a well-formed team packet is an unknown update only when its mode is none of the five.
\<close>

theorem scoreboard_packets_decode:
  assumes "objective_ok p1" "str_ok (do_name p2)" "score_ok p3" "reset_score_ok p4" "teams_ok p5"
  shows "(\<exists>w. encode_objective new_writer p1 = Ok w \<and>
      sb_decode_update CLIENTBOUND_SCOREBOARD_OBJECTIVE_ID (wr_buf w) =
        Ok (Some (UpObjective (so_name p1) (objective_action_from (so_action p1)) (objective_definition_of p1)))) \<and>
    (\<exists>w. encode_display_objective new_writer p2 = Ok w \<and>
      sb_decode_update CLIENTBOUND_SCOREBOARD_DISPLAY_OBJECTIVE_ID (wr_buf w) =
        Ok (Some (UpDisplaySlot (display_slot_from (do_position p2)) (if do_name p2 = '''' then None else Some (do_name p2))))) \<and>
    (\<exists>w. encode_score new_writer p3 = Ok w \<and>
      sb_decode_update CLIENTBOUND_SCOREBOARD_SCORE_ID (wr_buf w) =
        Ok (Some (UpSetScore \<lparr>sr_owner = sc_item_name p3, sr_objective = sc_score_name p3, sr_value = sc_value p3,
          sr_display_name = map_option from_nbt (sc_display_name p3),
          sr_number_format = number_format_of (sc_number_format p3) (score_styling_of (sc_styling p3))\<rparr>))) \<and>
    (\<exists>w. encode_reset_score new_writer p4 = Ok w \<and>
      sb_decode_update CLIENTBOUND_RESET_SCORE_ID (wr_buf w) =
        Ok (Some (UpResetScore (rs_entity_name p4) (rs_objective_name p4)))) \<and>
    (\<exists>w. encode_teams new_writer p5 = Ok w \<and>
      sb_decode_update CLIENTBOUND_TEAMS_ID (wr_buf w) = Ok (Some (UpTeam (team_update_of p5)))) \<and>
    ((\<exists>name mode. team_update_of p5 = TeamUnknown name mode) = (tm_mode p5 \<notin> {0, 1, 2, 3, 4}))"
proof (intro conjI)
  show "(\<exists>name mode. team_update_of p5 = TeamUnknown name mode) = (tm_mode p5 \<notin> {0, 1, 2, 3, 4})"
    using teams_ok_definition [OF assms(5)] teams_ok_players [OF assms(5)]
    by (auto simp: team_update_of_def Let_def split: option.splits)
qed (use packet_reads [OF objective_packet.trait_codec_axioms assms(1)]
        packet_reads [OF display_objective_packet.trait_codec_axioms assms(2)]
        packet_reads [OF score_packet.trait_codec_axioms assms(3)]
        packet_reads [OF reset_score_packet.trait_codec_axioms assms(4)]
        packet_reads [OF teams_packet.trait_codec_axioms assms(5)] in
     \<open>auto simp: sb_decode_update_def packet_ids\<close>)

theorem scoreboard_packets_decode_witness:
  "\<exists>w. encode_teams new_writer \<lparr>tm_team = ''red'', tm_mode = 3, tm_name = SwitchDefault, tm_friendly_fire = SwitchDefault,
       tm_name_tag_visibility = SwitchDefault, tm_collision_rule = SwitchDefault, tm_formatting = SwitchDefault,
       tm_prefix = SwitchDefault, tm_suffix = SwitchDefault, tm_players = PlayersV3 [''a'']\<rparr> = Ok w \<and>
     sb_decode_update CLIENTBOUND_TEAMS_ID (wr_buf w) = Ok (Some (UpTeam (TeamAddMembers ''red'' [''a''])))"
proof -
  let ?p5 = "\<lparr>tm_team = ''red'', tm_mode = 3, tm_name = SwitchDefault, tm_friendly_fire = SwitchDefault,
       tm_name_tag_visibility = SwitchDefault, tm_collision_rule = SwitchDefault, tm_formatting = SwitchDefault,
       tm_prefix = SwitchDefault, tm_suffix = SwitchDefault, tm_players = PlayersV3 [''a'']\<rparr> :: packet_teams"
  have 1: "objective_ok \<lparr>so_name = ''o'', so_action = 1, so_display_text = SwitchDefault, so_type = SwitchDefault,
      so_number_format = SwitchDefault, so_styling = SwitchDefault\<rparr>" by code_simp
  have 2: "str_ok (do_name \<lparr>do_position = 1, do_name = ''o''\<rparr>)" by code_simp
  have 3: "score_ok \<lparr>sc_item_name = ''a'', sc_score_name = ''o'', sc_value = 3, sc_display_name = None,
      sc_number_format = None, sc_styling = SwitchNone\<rparr>" by code_simp
  have 4: "reset_score_ok \<lparr>rs_entity_name = ''a'', rs_objective_name = None\<rparr>" by code_simp
  have 5: "teams_ok ?p5" by code_simp
  have u: "team_update_of ?p5 = TeamAddMembers ''red'' [''a'']" by code_simp
  show ?thesis using scoreboard_packets_decode [OF 1 2 3 4 5] unfolding u by blast
qed

end
