(* ===== verification/Supervisor.thy ===== *)
theory Supervisor
  imports Reconnect_Policy "HOL-Library.Multiset"
begin

text \<open>
  The supervised connection lifecycle, src/src/core/supervisor.rs.

  \<^item> \<open>ClientSupervisor::run\<close> as a state machine. One \<open>poll\<close> is the code from one suspension
    point of the task to the next; the top of the loop and the end of \<open>run\<close> are two more
    points at which callers may come in between. The \<open>select!\<close> blocks are biased, and \<open>poll\<close>
    tries their branches in the same order; what the awaited futures have ready is the
    argument \<open>poll_env\<close>.
  \<^item> \<open>SupervisorHandle::send_command\<close> as three steps that interleave with the task and with
    other callers: check the status, read the generation, push into the bounded channel. A
    call is identified by the number of its one-shot reply channel.
  \<^item> \<open>sv_events\<close>, \<open>sv_replies\<close> and \<open>sv_delivered\<close> record what was broadcast, answered and
    handed to a session.
\<close>

section \<open>The supervisor's state\<close>

definition COMMAND_CHANNEL_CAPACITY :: nat where "COMMAND_CHANNEL_CAPACITY = 64"

datatype supervisor_status =
    StatusDisconnected
  | StatusConnecting
  | StatusConnected
  | StatusReconnectScheduled u32
  | StatusStopped

datatype supervisor_outcome =
    Cancelled
  | RetriesExhausted mine_rider_error
  | NotRetried mine_rider_error

datatype control_error =
    InvalidAction action_validation_error
  | CommandQueueFull
  | NotConnected
  | SessionReplaced
  | CommandDisconnected
  | SupervisorStopped

text \<open>
  The events of the supervisor itself, and those relayed from the session. The text of a
  disconnect is rendered from the error the event carries here.
\<close>

datatype 'e supervisor_event =
    EvConnecting
  | EvConnected
  | EvDisconnected mine_rider_error
  | EvReconnectScheduled u32 duration
  | EvRetryAttemptStarted u32
  | EvStoppedByCancellation
  | EvSession 'e

record queued_command =
  qc_command :: bot_command
  qc_generation :: u64
  qc_respond :: nat

text \<open>
  Where \<open>run\<close> is suspended. \<open>Returning\<close>: the loop has broken out with its outcome and the
  queue was drained; \<open>Returned\<close>: the supervisor and its channel ends are dropped.
\<close>

datatype run_phase =
    LoopTop
  | AwaitConnect
  | AwaitSession
  | AwaitBackoff
  | Returning supervisor_outcome
  | Returned supervisor_outcome

record ('e, 's) supervisor =
  sv_policy :: reconnect_policy
  sv_phase :: run_phase
  sv_attempt :: u32
  sv_generation :: u64
  sv_status :: supervisor_status
  sv_snapshot :: 's
  sv_default_snapshot :: 's
  sv_cancelled :: bool
  sv_events :: "'e supervisor_event list"
  sv_queue :: "queued_command list"
  sv_checked :: "(nat \<times> bot_command) list"
  sv_ready :: "queued_command list"
  sv_next_call :: nat
  sv_replies :: "(nat \<times> (control_error + unit)) list"
  sv_delivered :: "(u64 \<times> queued_command) list"

definition new_supervisor :: "reconnect_policy \<Rightarrow> 's \<Rightarrow> ('e, 's) supervisor" where
  "new_supervisor policy snapshot = \<lparr>sv_policy = policy, sv_phase = LoopTop, sv_attempt = 0,
     sv_generation = 0, sv_status = StatusDisconnected, sv_snapshot = snapshot,
     sv_default_snapshot = snapshot, sv_cancelled = False, sv_events = [], sv_queue = [],
     sv_checked = [], sv_ready = [], sv_next_call = 0, sv_replies = [], sv_delivered = []\<rparr>"

definition emit :: "'e supervisor_event \<Rightarrow> ('e, 's) supervisor \<Rightarrow> ('e, 's) supervisor" where
  "emit event s = s\<lparr>sv_events := sv_events s @ [event]\<rparr>"

definition set_status :: "supervisor_status \<Rightarrow> ('e, 's) supervisor \<Rightarrow> ('e, 's) supervisor" where
  "set_status status s = s\<lparr>sv_status := status\<rparr>"

definition respond :: "nat \<Rightarrow> control_error + unit \<Rightarrow> ('e, 's) supervisor \<Rightarrow> ('e, 's) supervisor" where
  "respond call result s = s\<lparr>sv_replies := sv_replies s @ [(call, result)]\<rparr>"

definition reject_command :: "queued_command \<Rightarrow> control_error \<Rightarrow> ('e, 's) supervisor \<Rightarrow> ('e, 's) supervisor" where
  "reject_command cmd error s = respond (qc_respond cmd) (Err error) s"

fun reject_all :: "control_error \<Rightarrow> queued_command list \<Rightarrow> ('e, 's) supervisor \<Rightarrow> ('e, 's) supervisor" where
  "reject_all error [] s = s"
| "reject_all error (cmd # cmds) s = reject_all error cmds (reject_command cmd error s)"

definition reject_queued_commands :: "control_error \<Rightarrow> ('e, 's) supervisor \<Rightarrow> ('e, 's) supervisor" where
  "reject_queued_commands error s = reject_all error (sv_queue s) (s\<lparr>sv_queue := []\<rparr>)"

section \<open>The run loop\<close>

text \<open>Breaking out of the loop: the queue is drained once more before \<open>run\<close> returns.\<close>

definition break_with :: "supervisor_outcome \<Rightarrow> ('e, 's) supervisor \<Rightarrow> ('e, 's) supervisor" where
  "break_with outcome s = (reject_queued_commands SupervisorStopped s)\<lparr>sv_phase := Returning outcome\<rparr>"

definition stop_cancelled :: "('e, 's) supervisor \<Rightarrow> ('e, 's) supervisor" where
  "stop_cancelled s = break_with Cancelled (emit EvStoppedByCancellation (set_status StatusStopped s))"

definition handle_failure :: "mine_rider_error \<Rightarrow> ('e, 's) supervisor \<Rightarrow> ('e, 's) supervisor" where
  "handle_failure error s =
    (if decision_for (sv_policy s) (error_retry_class error) = StopRetrying
     then break_with (NotRetried error) (set_status StatusStopped s)
     else if retries_exhausted (sv_policy s) (sv_attempt s)
     then break_with (RetriesExhausted error) (set_status StatusStopped s)
     else let attempt = sv_attempt s + 1; delay = backoff_delay (sv_policy s) attempt in
       (emit (EvReconnectScheduled attempt delay) (set_status (StatusReconnectScheduled attempt)
          (s\<lparr>sv_attempt := attempt\<rparr>)))\<lparr>sv_phase := AwaitBackoff\<rparr>)"

definition loop_top :: "('e, 's) supervisor \<Rightarrow> ('e, 's) supervisor" where
  "loop_top s =
    (if sv_cancelled s then stop_cancelled s
     else (emit EvConnecting (set_status StatusConnecting (reject_queued_commands NotConnected s)))
            \<lparr>sv_phase := AwaitConnect\<rparr>)"

definition session_started :: "('e, 's) supervisor \<Rightarrow> ('e, 's) supervisor" where
  "session_started s =
    (emit EvConnected (set_status StatusConnected (s\<lparr>sv_generation := sv_generation s + 1\<rparr>)))
      \<lparr>sv_phase := AwaitSession\<rparr>"

text \<open>What the loop does with a session that ended, up to \<open>handle_failure\<close>.\<close>

definition session_closed :: "mine_rider_error \<Rightarrow> duration \<Rightarrow> ('e, 's) supervisor \<Rightarrow> ('e, 's) supervisor" where
  "session_closed error elapsed s =
    (let s1 = (if rp_stable_session_reset (sv_policy s) \<le> elapsed then s\<lparr>sv_attempt := 0\<rparr> else s);
         s2 = (set_status StatusDisconnected s1)\<lparr>sv_snapshot := sv_default_snapshot s\<rparr>;
         s3 = emit (EvDisconnected error) s2
     in reject_queued_commands SessionReplaced s3)"

definition session_ended :: "mine_rider_error \<Rightarrow> duration \<Rightarrow> ('e, 's) supervisor \<Rightarrow> ('e, 's) supervisor" where
  "session_ended error elapsed s = handle_failure error (session_closed error elapsed s)"

text \<open>What the futures of a \<open>select!\<close> have ready when the task is polled.\<close>

record ('e, 's) poll_env =
  pe_connect :: "(mine_rider_error + unit) option"
  pe_session_end :: "(mine_rider_error \<times> duration) option"
  pe_control_open :: bool
  pe_event :: "'e option"
  pe_snapshot :: "'s option"
  pe_sleep_done :: bool

definition poll_connect :: "('e, 's) poll_env \<Rightarrow> ('e, 's) supervisor \<Rightarrow> ('e, 's) supervisor" where
  "poll_connect env s =
    (if sv_cancelled s then stop_cancelled s
     else case sv_queue s of
       cmd # later \<Rightarrow> reject_command cmd NotConnected (s\<lparr>sv_queue := later\<rparr>)
     | [] \<Rightarrow> (case pe_connect env of
         None \<Rightarrow> s
       | Some (Ok _) \<Rightarrow> session_started s
       | Some (Err e) \<Rightarrow> handle_failure e s))"

definition forward_command :: "bool \<Rightarrow> queued_command \<Rightarrow> ('e, 's) supervisor \<Rightarrow> ('e, 's) supervisor" where
  "forward_command control_open cmd s =
    (if qc_generation cmd \<noteq> sv_generation s then respond (qc_respond cmd) (Err SessionReplaced) s
     else if control_open
     then respond (qc_respond cmd) (Ok ()) (s\<lparr>sv_delivered := sv_delivered s @ [(sv_generation s, cmd)]\<rparr>)
     else respond (qc_respond cmd) (Err CommandDisconnected) s)"

definition poll_session :: "('e, 's) poll_env \<Rightarrow> ('e, 's) supervisor \<Rightarrow> ('e, 's) supervisor" where
  "poll_session env s =
    (if sv_cancelled s then stop_cancelled s
     else case pe_session_end env of
       Some (e, elapsed) \<Rightarrow> session_ended e elapsed s
     | None \<Rightarrow> (case sv_queue s of
         cmd # later \<Rightarrow> forward_command (pe_control_open env) cmd (s\<lparr>sv_queue := later\<rparr>)
       | [] \<Rightarrow> (case pe_event env of
           Some event \<Rightarrow> emit (EvSession event) s
         | None \<Rightarrow> (case pe_snapshot env of
             Some snapshot \<Rightarrow> s\<lparr>sv_snapshot := snapshot\<rparr>
           | None \<Rightarrow> s))))"

definition poll_backoff :: "('e, 's) poll_env \<Rightarrow> ('e, 's) supervisor \<Rightarrow> ('e, 's) supervisor" where
  "poll_backoff env s =
    (if sv_cancelled s then stop_cancelled s
     else case sv_queue s of
       cmd # later \<Rightarrow> reject_command cmd NotConnected (s\<lparr>sv_queue := later\<rparr>)
     | [] \<Rightarrow> if pe_sleep_done env
             then (emit (EvRetryAttemptStarted (sv_attempt s)) s)\<lparr>sv_phase := LoopTop\<rparr> else s)"

text \<open>
  Dropping the supervisor drops the receiver: a command that slipped in after the last drain
  is dropped with its reply channel, which its caller sees as \<open>SupervisorStopped\<close>.
\<close>

definition drop_supervisor :: "supervisor_outcome \<Rightarrow> ('e, 's) supervisor \<Rightarrow> ('e, 's) supervisor" where
  "drop_supervisor outcome s = (reject_queued_commands SupervisorStopped s)\<lparr>sv_phase := Returned outcome\<rparr>"

definition poll :: "('e, 's) poll_env \<Rightarrow> ('e, 's) supervisor \<Rightarrow> ('e, 's) supervisor" where
  "poll env s = (case sv_phase s of
     LoopTop \<Rightarrow> loop_top s
   | AwaitConnect \<Rightarrow> poll_connect env s
   | AwaitSession \<Rightarrow> poll_session env s
   | AwaitBackoff \<Rightarrow> poll_backoff env s
   | Returning outcome \<Rightarrow> drop_supervisor outcome s
   | Returned _ \<Rightarrow> s)"

section \<open>The handle\<close>

definition stop :: "('e, 's) supervisor \<Rightarrow> ('e, 's) supervisor" where
  "stop s = s\<lparr>sv_cancelled := True\<rparr>"

definition send_check :: "bot_command \<Rightarrow> ('e, 's) supervisor \<Rightarrow> ('e, 's) supervisor" where
  "send_check command s0 =
    (let call = sv_next_call s0; s = s0\<lparr>sv_next_call := call + 1\<rparr> in
     case validate command of
       Err e \<Rightarrow> respond call (Err (InvalidAction e)) s
     | Ok _ \<Rightarrow> (case sv_status s of
         StatusConnected \<Rightarrow> s\<lparr>sv_checked := sv_checked s @ [(call, command)]\<rparr>
       | StatusStopped \<Rightarrow> respond call (Err SupervisorStopped) s
       | _ \<Rightarrow> respond call (Err NotConnected) s))"

fun stale_click :: "bot_command \<Rightarrow> u64 \<Rightarrow> bool" where
  "stale_click (InventoryClick request) generation = (rq_generation request \<noteq> generation)"
| "stale_click _ generation = False"

definition send_generation :: "nat \<Rightarrow> ('e, 's) supervisor \<Rightarrow> ('e, 's) supervisor" where
  "send_generation i s =
    (if length (sv_checked s) \<le> i then s
     else let (call, command) = sv_checked s ! i; generation = sv_generation s;
              s = s\<lparr>sv_checked := take i (sv_checked s) @ drop (Suc i) (sv_checked s)\<rparr> in
       if stale_click command generation then respond call (Err SessionReplaced) s
       else s\<lparr>sv_ready := sv_ready s @ [\<lparr>qc_command = command, qc_generation = generation, qc_respond = call\<rparr>]\<rparr>)"

fun is_returned :: "run_phase \<Rightarrow> bool" where
  "is_returned (Returned _) = True"
| "is_returned _ = False"

definition send_enqueue :: "nat \<Rightarrow> ('e, 's) supervisor \<Rightarrow> ('e, 's) supervisor" where
  "send_enqueue i s =
    (if length (sv_ready s) \<le> i then s
     else let cmd = sv_ready s ! i;
              s = s\<lparr>sv_ready := take i (sv_ready s) @ drop (Suc i) (sv_ready s)\<rparr> in
       if is_returned (sv_phase s) then respond (qc_respond cmd) (Err SupervisorStopped) s
       else if COMMAND_CHANNEL_CAPACITY \<le> length (sv_queue s)
       then respond (qc_respond cmd) (Err CommandQueueFull) s
       else s\<lparr>sv_queue := sv_queue s @ [cmd]\<rparr>)"

section \<open>Runs\<close>

datatype ('e, 's) action =
    Poll "('e, 's) poll_env"
  | Stop
  | SendCheck bot_command
  | SendGeneration nat
  | SendEnqueue nat

fun act :: "('e, 's) action \<Rightarrow> ('e, 's) supervisor \<Rightarrow> ('e, 's) supervisor" where
  "act (Poll env) s = poll env s"
| "act Stop s = stop s"
| "act (SendCheck command) s = send_check command s"
| "act (SendGeneration i) s = send_generation i s"
| "act (SendEnqueue i) s = send_enqueue i s"

inductive reachable :: "reconnect_policy \<Rightarrow> 's \<Rightarrow> ('e, 's) supervisor \<Rightarrow> bool" for policy snapshot where
  start: "reachable policy snapshot (new_supervisor policy snapshot)"
| step: "reachable policy snapshot s \<Longrightarrow> reachable policy snapshot (act a s)"

section \<open>Every step at a glance\<close>

named_theorems sup_defs \<open>definitions of the supervisor's operations\<close>

lemmas supervisor_operations [sup_defs] =
  emit_def set_status_def respond_def reject_command_def reject_queued_commands_def break_with_def
  stop_cancelled_def handle_failure_def loop_top_def session_started_def session_closed_def session_ended_def
  poll_connect_def forward_command_def poll_session_def poll_backoff_def drop_supervisor_def
  poll_def stop_def

lemmas handle_operations [sup_defs] = send_check_def send_generation_def send_enqueue_def

lemma reject_all_eq [simp]:
  "reject_all error cmds s =
     s\<lparr>sv_replies := sv_replies s @ map (\<lambda>cmd. (qc_respond cmd, Err error)) cmds\<rparr>"
  by (induction cmds arbitrary: s) (simp_all add: sup_defs)

text \<open>The ways a poll can go, one per branch of the source.\<close>

fun is_running :: "run_phase \<Rightarrow> bool" where
  "is_running (Returning _) = False"
| "is_running (Returned _) = False"
| "is_running _ = True"

lemma poll_cases:
  obtains (stopped) "sv_cancelled s" "is_running (sv_phase s)" "poll env s = stop_cancelled s"
  | (connecting) "\<not> sv_cancelled s" "sv_phase s = LoopTop"
      "poll env s = (emit EvConnecting (set_status StatusConnecting
        (reject_queued_commands NotConnected s)))\<lparr>sv_phase := AwaitConnect\<rparr>"
  | (rejected) cmd later where "\<not> sv_cancelled s" "sv_phase s = AwaitConnect \<or> sv_phase s = AwaitBackoff"
      "sv_queue s = cmd # later" "poll env s = reject_command cmd NotConnected (s\<lparr>sv_queue := later\<rparr>)"
  | (started) "\<not> sv_cancelled s" "sv_phase s = AwaitConnect" "sv_queue s = []" "poll env s = session_started s"
  | (failed) e where "\<not> sv_cancelled s" "sv_phase s = AwaitConnect" "poll env s = handle_failure e s"
  | (ended) e elapsed where "\<not> sv_cancelled s" "sv_phase s = AwaitSession"
      "pe_session_end env = Some (e, elapsed)" "poll env s = session_ended e elapsed s"
  | (forwarded) cmd later where "\<not> sv_cancelled s" "sv_phase s = AwaitSession" "sv_queue s = cmd # later"
      "poll env s = forward_command (pe_control_open env) cmd (s\<lparr>sv_queue := later\<rparr>)"
  | (relayed) event where "sv_phase s = AwaitSession" "poll env s = emit (EvSession event) s"
  | (snapshot) snapshot where "sv_phase s = AwaitSession" "poll env s = s\<lparr>sv_snapshot := snapshot\<rparr>"
  | (retrying) "\<not> sv_cancelled s" "sv_phase s = AwaitBackoff"
      "poll env s = (emit (EvRetryAttemptStarted (sv_attempt s)) s)\<lparr>sv_phase := LoopTop\<rparr>"
  | (dropped) outcome where "sv_phase s = Returning outcome" "poll env s = drop_supervisor outcome s"
  | (idle) "poll env s = s"

proof (cases "sv_phase s")
  case LoopTop
  then have p: "poll env s = loop_top s"
    by (simp add: poll_def)
  show thesis
  proof (cases "sv_cancelled s")
    case True
    show thesis
      by (rule stopped) (simp_all add: True LoopTop p loop_top_def)
  next
    case False
    show thesis
      by (rule connecting) (simp_all add: False LoopTop p loop_top_def)
  qed
next
  case AwaitConnect
  then have p: "poll env s = poll_connect env s"
    by (simp add: poll_def)
  show thesis
  proof (cases "sv_cancelled s")
    case True
    show thesis
      by (rule stopped) (simp_all add: True AwaitConnect p poll_connect_def)
  next
    case not_cancelled: False
    show thesis
    proof (cases "sv_queue s")
      case queue: Nil
      show thesis
      proof (cases "pe_connect env")
        case None
        show thesis
          by (rule idle) (simp add: None queue not_cancelled p poll_connect_def)
      next
        case (Some r)
        show thesis
        proof (cases r)
          case (Inl e)
          show thesis
            by (rule failed) (simp_all add: Inl Some queue not_cancelled AwaitConnect p poll_connect_def)
        next
          case (Inr u)
          show thesis
            by (rule started) (simp_all add: Inr Some queue not_cancelled AwaitConnect p poll_connect_def)
        qed
      qed
    next
      case (Cons cmd later)
      show thesis
        by (rule rejected [OF not_cancelled _ Cons]) (simp_all add: Cons not_cancelled AwaitConnect p poll_connect_def)
    qed
  qed
next
  case AwaitSession
  then have p: "poll env s = poll_session env s"
    by (simp add: poll_def)
  show thesis
  proof (cases "sv_cancelled s")
    case True
    show thesis
      by (rule stopped) (simp_all add: True AwaitSession p poll_session_def)
  next
    case not_cancelled: False
    show thesis
    proof (cases "pe_session_end env")
      case running: None
      show thesis
      proof (cases "sv_queue s")
        case queue: Nil
        show thesis
        proof (cases "pe_event env")
          case None
          then show thesis
            using idle snapshot [OF AwaitSession]
            by (cases "pe_snapshot env") (simp_all only: p poll_session_def not_cancelled queue running
                if_False option.case list.case)
        next
          case (Some event)
          show thesis
            by (rule relayed) (simp_all add: Some queue running not_cancelled AwaitSession p poll_session_def)
        qed
      next
        case (Cons cmd later)
        show thesis
          by (rule forwarded [OF not_cancelled AwaitSession Cons])
            (simp add: Cons running not_cancelled p poll_session_def)
      qed
    next
      case (Some r)
      then show thesis
        by (cases r, intro ended [OF not_cancelled AwaitSession])
          (simp_all add: not_cancelled p poll_session_def)
    qed
  qed
next
  case AwaitBackoff
  then have p: "poll env s = poll_backoff env s"
    by (simp add: poll_def)
  show thesis
  proof (cases "sv_cancelled s")
    case True
    show thesis
      by (rule stopped) (simp_all add: True AwaitBackoff p poll_backoff_def)
  next
    case not_cancelled: False
    show thesis
    proof (cases "sv_queue s")
      case queue: Nil
      show thesis
      proof (cases "pe_sleep_done env")
        case True
        show thesis
          by (rule retrying [OF not_cancelled AwaitBackoff])
            (simp add: True queue not_cancelled p poll_backoff_def)
      next
        case False
        show thesis
          by (rule idle) (simp add: False queue not_cancelled p poll_backoff_def)
      qed
    next
      case (Cons cmd later)
      show thesis
        by (rule rejected [OF not_cancelled _ Cons]) (simp_all add: Cons not_cancelled AwaitBackoff p poll_backoff_def)
    qed
  qed
next
  case (Returning outcome)
  show thesis
    by (rule dropped [OF Returning]) (simp add: Returning poll_def)
next
  case (Returned outcome)
  show thesis
    by (rule idle) (simp add: Returned poll_def)
qed

lemma handle_failure_cases:
  obtains (not_retried) "decision_for (sv_policy s) (error_retry_class e) = StopRetrying"
      "handle_failure e s = break_with (NotRetried e) (set_status StatusStopped s)"
  | (exhausted) "retries_exhausted (sv_policy s) (sv_attempt s)"
      "handle_failure e s = break_with (RetriesExhausted e) (set_status StatusStopped s)"
  | (scheduled) "decision_for (sv_policy s) (error_retry_class e) \<noteq> StopRetrying"
      "\<not> retries_exhausted (sv_policy s) (sv_attempt s)"
      "handle_failure e s = (emit (EvReconnectScheduled (sv_attempt s + 1)
          (backoff_delay (sv_policy s) (sv_attempt s + 1)))
        (set_status (StatusReconnectScheduled (sv_attempt s + 1)) (s\<lparr>sv_attempt := sv_attempt s + 1\<rparr>)))
        \<lparr>sv_phase := AwaitBackoff\<rparr>"
proof (cases "decision_for (sv_policy s) (error_retry_class e) = StopRetrying")
  case True
  show thesis
    by (rule not_retried [OF True]) (simp only: handle_failure_def True if_True simp_thms)
next
  case retry: False
  show thesis
  proof (cases "retries_exhausted (sv_policy s) (sv_attempt s)")
    case True
    show thesis
      by (rule exhausted [OF True]) (simp only: handle_failure_def True retry if_True if_False)
  next
    case False
    show thesis
      by (rule scheduled [OF retry False]) (simp only: handle_failure_def False retry if_False Let_def)
  qed
qed

lemma send_check_cases:
  obtains (replied) error where "send_check command s =
      respond (sv_next_call s) (Err error) (s\<lparr>sv_next_call := sv_next_call s + 1\<rparr>)"
  | (checked) "validate command = Ok ()" "sv_status s = StatusConnected"
      "send_check command s = s\<lparr>sv_next_call := sv_next_call s + 1,
         sv_checked := sv_checked s @ [(sv_next_call s, command)]\<rparr>"
proof (cases "validate command")
  case (Inl e)
  show thesis
    by (rule replied) (simp add: send_check_def Let_def Inl)
next
  case valid: (Inr u)
  show thesis
  proof (cases "sv_status s = StatusConnected")
    case True
    show thesis
      by (rule checked) (simp_all add: send_check_def Let_def valid True)
  next
    case False
    show thesis
      by (rule replied [of "if sv_status s = StatusStopped then SupervisorStopped else NotConnected"])
        (use False in \<open>cases "sv_status s"; simp add: send_check_def Let_def valid\<close>)
  qed
qed

lemma send_generation_cases:
  obtains (idle) "send_generation i s = s"
  | (stale) call command before after where "sv_checked s = before @ (call, command) # after"
      "send_generation i s = respond call (Err SessionReplaced) (s\<lparr>sv_checked := before @ after\<rparr>)"
  | (ready) call command before after where "sv_checked s = before @ (call, command) # after"
      "\<not> stale_click command (sv_generation s)"
      "send_generation i s = s\<lparr>sv_checked := before @ after, sv_ready := sv_ready s @
         [\<lparr>qc_command = command, qc_generation = sv_generation s, qc_respond = call\<rparr>]\<rparr>"
proof (cases "i < length (sv_checked s)")
  case True
  obtain call command where c: "sv_checked s ! i = (call, command)"
    by fastforce
  have split: "sv_checked s = take i (sv_checked s) @ (call, command) # drop (Suc i) (sv_checked s)"
    using id_take_nth_drop [OF True] c by simp
  show thesis
  proof (cases "stale_click command (sv_generation s)")
    case stale_command: True
    show thesis
      by (rule stale [OF split]) (use True in \<open>simp add: send_generation_def c stale_command\<close>)
  next
    case False
    show thesis
      by (rule ready [OF split False]) (use True in \<open>simp add: send_generation_def c False\<close>)
  qed
next
  case False
  show thesis
    by (rule idle) (use False in \<open>simp add: send_generation_def\<close>)
qed

lemma send_enqueue_cases:
  obtains (idle) "send_enqueue i s = s"
  | (replied) cmd error before after where "sv_ready s = before @ cmd # after"
      "send_enqueue i s = respond (qc_respond cmd) (Err error) (s\<lparr>sv_ready := before @ after\<rparr>)"
  | (queued) cmd before after where "sv_ready s = before @ cmd # after" "\<not> is_returned (sv_phase s)"
      "length (sv_queue s) < COMMAND_CHANNEL_CAPACITY"
      "send_enqueue i s = s\<lparr>sv_ready := before @ after, sv_queue := sv_queue s @ [cmd]\<rparr>"
proof (cases "i < length (sv_ready s)")
  case True
  have split: "sv_ready s = take i (sv_ready s) @ sv_ready s ! i # drop (Suc i) (sv_ready s)"
    using id_take_nth_drop [OF True] by simp
  show thesis
  proof (cases "is_returned (sv_phase s) \<or> COMMAND_CHANNEL_CAPACITY \<le> length (sv_queue s)")
    case refused: True
    show thesis
      by (rule replied [OF split, of "if is_returned (sv_phase s) then SupervisorStopped else CommandQueueFull"])
        (use True refused in \<open>auto simp: send_enqueue_def Let_def\<close>)
  next
    case False
    show thesis
      by (rule queued [OF split]) (use True False in \<open>simp_all add: send_enqueue_def Let_def\<close>)
  qed
next
  case False
  show thesis
    by (rule idle) (use False in \<open>simp add: send_enqueue_def\<close>)
qed

section \<open>Invariants\<close>

text \<open>A command on its way to a session: validated, and no click for another session.\<close>

definition command_ok :: "queued_command \<Rightarrow> bool" where
  "command_ok cmd \<longleftrightarrow> validate (qc_command cmd) = Ok () \<and> \<not> stale_click (qc_command cmd) (qc_generation cmd)"

definition commands_ok :: "('e, 's) supervisor \<Rightarrow> bool" where
  "commands_ok s \<longleftrightarrow>
     (\<forall>(call, command) \<in> set (sv_checked s). validate command = Ok ()) \<and>
     (\<forall>cmd \<in> set (sv_ready s) \<union> set (sv_queue s). command_ok cmd) \<and>
     (\<forall>(generation, cmd) \<in> set (sv_delivered s). command_ok cmd \<and> qc_generation cmd = generation)"

definition calls_in_flight :: "('e, 's) supervisor \<Rightarrow> nat multiset" where
  "calls_in_flight s = mset (map fst (sv_checked s)) + mset (map qc_respond (sv_ready s))
     + mset (map qc_respond (sv_queue s))"

definition calls_answered :: "('e, 's) supervisor \<Rightarrow> nat multiset" where
  "calls_answered s = mset (map fst (sv_replies s))"

definition calls_accounted :: "('e, 's) supervisor \<Rightarrow> bool" where
  "calls_accounted s \<longleftrightarrow> calls_in_flight s + calls_answered s = mset [0..<sv_next_call s]"

text \<open>
  Phase, published status and published snapshot agree: a supervisor that runs has not
  announced that it stopped, it is connected exactly in a session, and outside a session the
  snapshot is the default one.
\<close>

definition lifecycle_ok :: "('e, 's) supervisor \<Rightarrow> bool" where
  "lifecycle_ok s \<longleftrightarrow>
     (is_running (sv_phase s) \<longleftrightarrow> sv_status s \<noteq> StatusStopped) \<and>
     (sv_phase s = AwaitSession \<longleftrightarrow> sv_status s = StatusConnected) \<and>
     (is_running (sv_phase s) \<and> sv_phase s \<noteq> AwaitSession \<longrightarrow> sv_snapshot s = sv_default_snapshot s)"

lemmas invariant_defs = commands_ok_def calls_accounted_def calls_in_flight_def calls_answered_def

text \<open>
  The basic updates seen through each invariant. A drain answers what it takes from the
  queue, so the accounts do not change.
\<close>

lemma emit_invariants [simp]:
  "commands_ok (emit event s) = commands_ok s"
  "calls_accounted (emit event s) = calls_accounted s"
  by (simp_all add: invariant_defs emit_def)

lemma set_status_invariants [simp]:
  "commands_ok (set_status status s) = commands_ok s"
  "calls_accounted (set_status status s) = calls_accounted s"
  by (simp_all add: invariant_defs set_status_def)

lemma reject_queued_commands_invariants [simp]:
  "commands_ok s \<Longrightarrow> commands_ok (reject_queued_commands error s)"
  "calls_accounted (reject_queued_commands error s) = calls_accounted s"
  by (auto simp: invariant_defs reject_queued_commands_def comp_def ac_simps)

lemma unrelated_fields [simp]:
  "commands_ok (s\<lparr>sv_phase := p\<rparr>) = commands_ok s"
  "calls_accounted (s\<lparr>sv_phase := p\<rparr>) = calls_accounted s"
  "commands_ok (s\<lparr>sv_attempt := n\<rparr>) = commands_ok s"
  "calls_accounted (s\<lparr>sv_attempt := n\<rparr>) = calls_accounted s"
  "commands_ok (s\<lparr>sv_generation := g\<rparr>) = commands_ok s"
  "calls_accounted (s\<lparr>sv_generation := g\<rparr>) = calls_accounted s"
  "commands_ok (s\<lparr>sv_snapshot := x\<rparr>) = commands_ok s"
  "calls_accounted (s\<lparr>sv_snapshot := x\<rparr>) = calls_accounted s"
  by (simp_all add: invariant_defs)

lemma break_with_invariants [simp]:
  "commands_ok s \<Longrightarrow> commands_ok (break_with outcome s)"
  "calls_accounted (break_with outcome s) = calls_accounted s"
  by (simp_all add: break_with_def)

lemma stop_cancelled_invariants [simp]:
  "commands_ok s \<Longrightarrow> commands_ok (stop_cancelled s)"
  "calls_accounted (stop_cancelled s) = calls_accounted s"
  by (simp_all add: stop_cancelled_def)

lemma handle_failure_invariants [simp]:
  "commands_ok s \<Longrightarrow> commands_ok (handle_failure e s)"
  "calls_accounted (handle_failure e s) = calls_accounted s"
  by (cases e s rule: handle_failure_cases; simp)+

lemma session_ended_invariants [simp]:
  "commands_ok s \<Longrightarrow> commands_ok (session_ended e elapsed s)"
  "calls_accounted (session_ended e elapsed s) = calls_accounted s"
  by (simp_all add: session_ended_def session_closed_def Let_def)

lemma take_command_invariants:
  assumes "sv_queue s = cmd # later"
  shows "commands_ok s \<Longrightarrow> commands_ok (respond (qc_respond cmd) result (s\<lparr>sv_queue := later\<rparr>))"
    and "calls_accounted (respond (qc_respond cmd) result (s\<lparr>sv_queue := later\<rparr>)) = calls_accounted s"
  using assms by (auto simp: invariant_defs respond_def ac_simps)

lemma forward_command_invariants:
  assumes "sv_queue s = cmd # later"
  shows "commands_ok s \<Longrightarrow> commands_ok (forward_command control_open cmd (s\<lparr>sv_queue := later\<rparr>))"
    and "calls_accounted (forward_command control_open cmd (s\<lparr>sv_queue := later\<rparr>)) = calls_accounted s"
  using assms by (auto simp: invariant_defs forward_command_def respond_def ac_simps)

lemma poll_commands_ok: "commands_ok s \<Longrightarrow> commands_ok (poll env s)"
  by (cases rule: poll_cases [where s = s and env = env])
    (simp_all add: reject_command_def take_command_invariants forward_command_invariants
      session_started_def drop_supervisor_def)

lemma poll_calls_accounted: "calls_accounted (poll env s) = calls_accounted s"
  by (cases rule: poll_cases [where s = s and env = env])
    (simp_all add: reject_command_def take_command_invariants forward_command_invariants
      session_started_def drop_supervisor_def)

lemma act_commands_ok: "commands_ok s \<Longrightarrow> commands_ok (act a s)"
proof (cases a)
  case (SendCheck command)
  then show "commands_ok s \<Longrightarrow> ?thesis"
    by (cases command s rule: send_check_cases) (auto simp: commands_ok_def respond_def)
next
  case (SendGeneration i)
  then show "commands_ok s \<Longrightarrow> ?thesis"
    by (cases i s rule: send_generation_cases) (auto simp: commands_ok_def respond_def command_ok_def)
next
  case (SendEnqueue i)
  then show "commands_ok s \<Longrightarrow> ?thesis"
    by (cases i s rule: send_enqueue_cases) (auto simp: commands_ok_def respond_def)
qed (simp_all add: poll_commands_ok, simp add: stop_def commands_ok_def)

lemma act_calls_accounted: "calls_accounted s \<Longrightarrow> calls_accounted (act a s)"
proof (cases a)
  case (SendCheck command)
  then show "calls_accounted s \<Longrightarrow> ?thesis"
    by (cases command s rule: send_check_cases) (simp_all add: invariant_defs respond_def)
next
  case (SendGeneration i)
  then show "calls_accounted s \<Longrightarrow> ?thesis"
    by (cases i s rule: send_generation_cases) (simp_all add: invariant_defs respond_def ac_simps)
next
  case (SendEnqueue i)
  then show "calls_accounted s \<Longrightarrow> ?thesis"
    by (cases i s rule: send_enqueue_cases) (simp_all add: invariant_defs respond_def ac_simps)
qed (simp_all add: poll_calls_accounted, simp add: stop_def invariant_defs)

lemma session_closed_fields [simp]:
  "sv_snapshot (session_closed e elapsed s) = sv_default_snapshot s"
  "sv_default_snapshot (session_closed e elapsed s) = sv_default_snapshot s"
  "sv_policy (session_closed e elapsed s) = sv_policy s"
  "sv_phase (session_closed e elapsed s) = sv_phase s"
  "sv_queue (session_closed e elapsed s) = []"
  "sv_attempt (session_closed e elapsed s) =
     (if rp_stable_session_reset (sv_policy s) \<le> elapsed then 0 else sv_attempt s)"
  by (simp_all add: sup_defs Let_def)

lemma handle_failure_lifecycle_ok [intro]:
  "sv_snapshot s = sv_default_snapshot s \<Longrightarrow> lifecycle_ok (handle_failure e s)"
  by (cases e s rule: handle_failure_cases) (simp_all add: lifecycle_ok_def sup_defs)

lemma poll_lifecycle_ok: "lifecycle_ok s \<Longrightarrow> lifecycle_ok (poll env s)"
proof (cases rule: poll_cases [where s = s and env = env])
  case (failed e)
  moreover assume "lifecycle_ok s"
  ultimately show ?thesis
    by (auto simp: lifecycle_ok_def [of s])
next
  case (ended e elapsed)
  then show ?thesis
    by (auto simp: session_ended_def)
qed (simp_all add: lifecycle_ok_def emit_def set_status_def respond_def reject_command_def
    reject_queued_commands_def break_with_def stop_cancelled_def session_started_def
    drop_supervisor_def forward_command_def)

text \<open>What a call through the handle does not touch.\<close>

fun is_poll :: "('e, 's) action \<Rightarrow> bool" where
  "is_poll (Poll _) = True"
| "is_poll _ = False"

definition same_run :: "('e, 's) supervisor \<Rightarrow> ('e, 's) supervisor \<Rightarrow> bool" where
  "same_run s t \<longleftrightarrow> sv_phase t = sv_phase s \<and> sv_status t = sv_status s \<and> sv_snapshot t = sv_snapshot s \<and>
     sv_default_snapshot t = sv_default_snapshot s \<and> sv_policy t = sv_policy s \<and>
     sv_attempt t = sv_attempt s \<and> sv_events t = sv_events s \<and> (sv_cancelled s \<longrightarrow> sv_cancelled t)"

lemma call_same_run: "\<not> is_poll a \<Longrightarrow> same_run s (act a s)"
proof (cases a)
  case (SendCheck command)
  then show ?thesis
    by (cases command s rule: send_check_cases) (simp_all add: same_run_def respond_def)
next
  case (SendGeneration i)
  then show ?thesis
    by (cases i s rule: send_generation_cases) (simp_all add: same_run_def respond_def)
next
  case (SendEnqueue i)
  then show ?thesis
    by (cases i s rule: send_enqueue_cases) (simp_all add: same_run_def respond_def)
qed (simp_all add: same_run_def stop_def)

lemma same_run_lifecycle_ok: "same_run s t \<Longrightarrow> lifecycle_ok t = lifecycle_ok s"
  by (simp add: same_run_def lifecycle_ok_def)

lemma act_lifecycle_ok: "lifecycle_ok s \<Longrightarrow> lifecycle_ok (act a s)"
  by (cases a) (simp_all add: poll_lifecycle_ok same_run_lifecycle_ok [OF call_same_run] del: act.simps(2-5))

lemma handle_failure_fixed [simp]:
  "sv_policy (handle_failure e s) = sv_policy s"
  "sv_default_snapshot (handle_failure e s) = sv_default_snapshot s"
  by (cases e s rule: handle_failure_cases; simp add: sup_defs)+

lemma poll_fixed [simp]:
  "sv_policy (poll env s) = sv_policy s"
  "sv_default_snapshot (poll env s) = sv_default_snapshot s"
  by (cases rule: poll_cases [where s = s and env = env];
      simp add: session_ended_def emit_def set_status_def respond_def reject_command_def
        reject_queued_commands_def break_with_def stop_cancelled_def session_started_def
        drop_supervisor_def forward_command_def)+

lemma act_fixed [simp]:
  "sv_policy (act a s) = sv_policy s"
  "sv_default_snapshot (act a s) = sv_default_snapshot s"
  using call_same_run [of a s] by (cases a; simp add: same_run_def)+

text \<open>The command channel: within its capacity, and empty once the supervisor is dropped.\<close>

definition channel_ok :: "('e, 's) supervisor \<Rightarrow> bool" where
  "channel_ok s \<longleftrightarrow> length (sv_queue s) \<le> COMMAND_CHANNEL_CAPACITY \<and>
     (is_returned (sv_phase s) \<longrightarrow> sv_queue s = [])"

lemma handle_failure_channel_ok:
  "length (sv_queue s) \<le> COMMAND_CHANNEL_CAPACITY \<Longrightarrow> channel_ok (handle_failure e s)"
  by (cases e s rule: handle_failure_cases) (simp_all add: channel_ok_def sup_defs)

lemma poll_channel_ok: "channel_ok s \<Longrightarrow> channel_ok (poll env s)"
proof (cases rule: poll_cases [where s = s and env = env])
  case (failed e)
  moreover assume "channel_ok s"
  ultimately show ?thesis
    by (simp add: handle_failure_channel_ok channel_ok_def [of s])
next
  case (ended e elapsed)
  then show ?thesis
    by (simp add: session_ended_def handle_failure_channel_ok)
qed (auto simp: channel_ok_def emit_def set_status_def respond_def reject_command_def
    reject_queued_commands_def break_with_def stop_cancelled_def session_started_def
    drop_supervisor_def forward_command_def)

lemma act_channel_ok: "channel_ok s \<Longrightarrow> channel_ok (act a s)"
proof (cases a)
  case (SendCheck command)
  then show "channel_ok s \<Longrightarrow> ?thesis"
    by (cases command s rule: send_check_cases) (simp_all add: channel_ok_def respond_def)
next
  case (SendGeneration i)
  then show "channel_ok s \<Longrightarrow> ?thesis"
    by (cases i s rule: send_generation_cases) (simp_all add: channel_ok_def respond_def)
next
  case (SendEnqueue i)
  then show "channel_ok s \<Longrightarrow> ?thesis"
    by (cases i s rule: send_enqueue_cases) (auto simp: channel_ok_def respond_def)
qed (simp_all add: poll_channel_ok, simp add: channel_ok_def stop_def)

lemma reachable_invariants:
  assumes "reachable policy snapshot s"
  shows "commands_ok s" and "calls_accounted s" and "lifecycle_ok s" and "channel_ok s"
  using assms
proof (induction rule: reachable.induct)
  case start
  show "commands_ok (new_supervisor policy snapshot)" "calls_accounted (new_supervisor policy snapshot)"
    "lifecycle_ok (new_supervisor policy snapshot)" "channel_ok (new_supervisor policy snapshot)"
    by (simp_all add: new_supervisor_def invariant_defs lifecycle_ok_def channel_ok_def)
next
  case (step s a)
  then show "commands_ok (act a s)" "calls_accounted (act a s)" "lifecycle_ok (act a s)" "channel_ok (act a s)"
    by (simp_all add: act_commands_ok act_calls_accounted act_lifecycle_ok act_channel_ok)
qed

lemma reachable_runs: "reachable policy snapshot (fold act as (new_supervisor policy snapshot))"
  by (induction as rule: rev_induct) (auto intro: reachable.intros)

section \<open>Commands and their sessions\<close>

text \<open>A run used by the witnesses: connect, send two commands, deliver one.\<close>

definition quiet :: "('e, 's) poll_env" where
  "quiet = \<lparr>pe_connect = None, pe_session_end = None, pe_control_open = True, pe_event = None,
     pe_snapshot = None, pe_sleep_done = False\<rparr>"

definition connects_now :: "('e, 's) poll_env" where
  "connects_now = quiet\<lparr>pe_connect := Some (Ok ())\<rparr>"

definition sample_actions :: "(unit, nat) action list" where
  "sample_actions = [Poll quiet, Poll connects_now, SendCheck (Sprint True), SendCheck (Chat []),
     SendGeneration 0, SendEnqueue 0, Poll quiet]"

definition sample_run :: "(unit, nat) supervisor" where
  "sample_run = fold act sample_actions (new_supervisor enabled_policy 0)"

lemma sample_run_reachable: "reachable enabled_policy 0 sample_run"
  unfolding sample_run_def by (rule reachable_runs)

text \<open>C13: A command never crosses a reconnect. Whatever callers, the session and cancellation
  do, in every interleaving, a command handed to a session was validated, was queued while
  that very session was the current one, and, when it is an inventory click, was prepared
  for that session.\<close>

theorem commands_reach_their_session:
  assumes "reachable policy snapshot s" and "(generation, cmd) \<in> set (sv_delivered s)"
  shows "qc_generation cmd = generation \<and> validate (qc_command cmd) = Ok () \<and>
    (\<forall>request. qc_command cmd = InventoryClick request \<longrightarrow> rq_generation request = generation)"
  using reachable_invariants(1) [OF assms(1)] assms(2)
  by (auto simp: commands_ok_def command_ok_def)

theorem commands_reach_their_session_witness:
  "reachable enabled_policy 0 sample_run \<and>
   (1, \<lparr>qc_command = Sprint True, qc_generation = 1, qc_respond = 0\<rparr>) \<in> set (sv_delivered sample_run) \<and>
   validate (Sprint True) = Ok ()"
proof -
  have "(1, \<lparr>qc_command = Sprint True, qc_generation = 1, qc_respond = 0\<rparr>) \<in> set (sv_delivered sample_run)"
    by code_simp
  then show ?thesis
    using commands_reach_their_session [OF sample_run_reachable] sample_run_reachable by fastforce
qed

text \<open>C14: Every call is answered exactly once. In every reachable state the calls made so far
  are split between those still on their way and those answered, none twice; the queue stays
  within its capacity; and once the supervisor is gone nothing is left in it.\<close>

theorem calls_answered_once:
  assumes "reachable policy snapshot s"
  shows "calls_in_flight s + calls_answered s = mset [0..<sv_next_call s] \<and>
    distinct (map fst (sv_replies s)) \<and> length (sv_queue s) \<le> COMMAND_CHANNEL_CAPACITY \<and>
    (is_returned (sv_phase s) \<longrightarrow> sv_queue s = [])"
proof -
  have accounts: "calls_in_flight s + calls_answered s = mset [0..<sv_next_call s]"
    using reachable_invariants(2) [OF assms] by (simp add: calls_accounted_def)
  then have "mset (map fst (sv_checked s) @ map qc_respond (sv_ready s) @ map qc_respond (sv_queue s)
      @ map fst (sv_replies s)) = mset [0..<sv_next_call s]"
    by (simp add: calls_in_flight_def calls_answered_def ac_simps)
  then have "distinct (map fst (sv_replies s))"
    using mset_eq_imp_distinct_iff by fastforce
  then show ?thesis
    using accounts reachable_invariants(4) [OF assms] by (simp add: channel_ok_def)
qed

theorem calls_answered_once_witness:
  "reachable enabled_policy 0 sample_run \<and> sv_next_call sample_run = 2 \<and>
   sv_replies sample_run = [(1, Err (InvalidAction EmptyChat)), (0, Ok ())] \<and>
   calls_in_flight sample_run = {#}"
proof -
  have "sv_next_call sample_run = 2" "sv_replies sample_run = [(1, Err (InvalidAction EmptyChat)), (0, Ok ())]"
    by code_simp+
  then show ?thesis
    using calls_answered_once [OF sample_run_reachable] sample_run_reachable
    by (simp add: calls_answered_def numeral_2_eq_2)
qed

section \<open>How often the supervisor reconnects\<close>

definition connects :: "('e, 's) supervisor \<Rightarrow> nat" where
  "connects s = length (filter (\<lambda>e. e = EvConnecting) (sv_events s))"

text \<open>One more connect is coming before the first attempt, and while a retry is scheduled.\<close>

fun connect_pending :: "run_phase \<Rightarrow> nat" where
  "connect_pending LoopTop = 1"
| "connect_pending AwaitBackoff = 1"
| "connect_pending _ = 0"

fun stable_end :: "reconnect_policy \<Rightarrow> ('e, 's) action \<Rightarrow> bool" where
  "stable_end p (Poll env) = (case pe_session_end env of None \<Rightarrow> False
     | Some (e, elapsed) \<Rightarrow> rp_stable_session_reset p \<le> elapsed)"
| "stable_end p _ = False"

definition stable_ends :: "reconnect_policy \<Rightarrow> ('e, 's) action list \<Rightarrow> nat" where
  "stable_ends p as = length (filter (stable_end p) as)"

definition retries_within :: "nat \<Rightarrow> nat \<Rightarrow> ('e, 's) supervisor \<Rightarrow> bool" where
  "retries_within n k s \<longleftrightarrow>
     connects s + connect_pending (sv_phase s) \<le> 1 + n * k + unat (sv_attempt s) \<and> unat (sv_attempt s) \<le> n"

lemma attempt_below_limit:
  fixes attempt :: u32
  assumes "\<not> retries_exhausted p attempt" and "rp_max_retries p = Count limit"
  shows "unat (attempt + 1) = unat attempt + 1" and "unat attempt + 1 \<le> unat limit"
proof -
  have "attempt < limit"
    using assms by (simp add: retries_exhausted_def)
  then show "unat (attempt + 1) = unat attempt + 1"
    using unsigned_less [of limit, where ?'a = nat] by (simp add: unat_word_ariths word_less_nat_alt)
  show "unat attempt + 1 \<le> unat limit"
    using \<open>attempt < limit\<close> by (simp add: Suc_leI unat_mono)
qed

lemma handle_failure_retries_within:
  assumes "rp_max_retries (sv_policy s) = Count limit" "n = unat limit"
    and "connects s \<le> 1 + n * k + unat (sv_attempt s)" "unat (sv_attempt s) \<le> n"
  shows "retries_within n k (handle_failure e s)"
proof (cases e s rule: handle_failure_cases)
  case scheduled
  then show ?thesis
    using attempt_below_limit [OF scheduled(2) assms(1)] assms(2-)
    by (simp add: retries_within_def connects_def sup_defs)
qed (use assms in \<open>simp_all add: retries_within_def connects_def sup_defs\<close>)

lemma poll_retries_within:
  assumes "rp_max_retries (sv_policy s) = Count limit" "n = unat limit" "retries_within n k s"
  shows "retries_within n (if stable_end (sv_policy s) (Poll env) then Suc k else k) (poll env s)"
proof -
  have more: "retries_within n k t \<Longrightarrow> retries_within n (if b then Suc k else k) t" for b and t :: "('a, 'b) supervisor"
    by (auto simp: retries_within_def)
  show ?thesis
  proof (cases rule: poll_cases [where s = s and env = env])
    case (failed e)
    have "retries_within n k (handle_failure e s)"
      using assms by (intro handle_failure_retries_within) (auto simp: retries_within_def)
    then show ?thesis
      using failed more by simp
  next
    case (ended e elapsed)
    have "connects (session_closed e elapsed s) = connects s"
      by (simp add: connects_def sup_defs Let_def)
    then show ?thesis
      using ended assms
      by (auto simp: session_ended_def retries_within_def [of _ _ s] intro!: handle_failure_retries_within)
  qed (use assms(3) in \<open>auto intro!: more simp: retries_within_def connects_def emit_def set_status_def
      respond_def reject_command_def reject_queued_commands_def break_with_def stop_cancelled_def
      session_started_def drop_supervisor_def forward_command_def\<close>)
qed

lemma act_retries_within:
  assumes "rp_max_retries (sv_policy s) = Count limit" "n = unat limit" "retries_within n k s"
  shows "retries_within n (if stable_end (sv_policy s) a then Suc k else k) (act a s)"
proof (cases "is_poll a")
  case True
  then show ?thesis
    using poll_retries_within [OF assms] by (cases a) simp_all
next
  case False
  then show ?thesis
    using call_same_run [OF False, of s] assms(3)
    by (cases a) (simp_all add: retries_within_def same_run_def connects_def)
qed

lemma run_policy [simp]: "sv_policy (fold act as s) = sv_policy s"
  by (induction as arbitrary: s) simp_all

lemma run_retries_within:
  assumes "rp_max_retries policy = Count limit"
  shows "retries_within (unat limit) (stable_ends policy as) (fold act as (new_supervisor policy snapshot))"
proof (induction as rule: rev_induct)
  case Nil
  show ?case
    by (simp add: retries_within_def new_supervisor_def connects_def)
next
  case (snoc a as)
  then show ?case
    using act_retries_within [OF _ refl snoc, of a] assms
    by (auto simp: stable_ends_def new_supervisor_def split: if_splits)
qed

text \<open>With reconnection disabled the first failure is final.\<close>

definition first_attempt_only :: "('e, 's) supervisor \<Rightarrow> bool" where
  "first_attempt_only s \<longleftrightarrow> connects s + connect_pending (sv_phase s) \<le> 1 \<and> \<not> rp_enabled (sv_policy s)"

lemma handle_failure_first_attempt_only:
  "connects s \<le> 1 \<Longrightarrow> \<not> rp_enabled (sv_policy s) \<Longrightarrow> first_attempt_only (handle_failure e s)"
  by (simp add: handle_failure_def decision_for_def first_attempt_only_def connects_def break_with_def
      set_status_def reject_queued_commands_def)

lemma poll_first_attempt_only: "first_attempt_only s \<Longrightarrow> first_attempt_only (poll env s)"
proof (cases rule: poll_cases [where s = s and env = env])
  case (failed e)
  moreover assume "first_attempt_only s"
  ultimately show ?thesis
    by (simp add: handle_failure_first_attempt_only first_attempt_only_def [of s])
next
  case (ended e elapsed)
  moreover assume "first_attempt_only s"
  moreover have "connects (session_closed e elapsed s) = connects s"
    by (simp add: connects_def sup_defs Let_def)
  ultimately show ?thesis
    by (simp add: session_ended_def handle_failure_first_attempt_only first_attempt_only_def [of s])
qed (auto simp: first_attempt_only_def connects_def emit_def set_status_def respond_def reject_command_def
    reject_queued_commands_def break_with_def stop_cancelled_def session_started_def drop_supervisor_def
    forward_command_def)

lemma act_first_attempt_only: "first_attempt_only s \<Longrightarrow> first_attempt_only (act a s)"
  using call_same_run [of a s] poll_first_attempt_only
  by (cases "is_poll a"; cases a) (auto simp: first_attempt_only_def same_run_def connects_def)

lemma run_first_attempt_only:
  "\<not> rp_enabled policy \<Longrightarrow> first_attempt_only (fold act as (new_supervisor policy snapshot))"
  by (induction as rule: rev_induct)
    (simp_all add: act_first_attempt_only, simp add: first_attempt_only_def new_supervisor_def connects_def)

text \<open>C17: The number of connection attempts is bounded. Under a limit of \<open>limit\<close> retries, in every
  run, the supervisor starts at most one attempt plus \<open>limit\<close> more, and \<open>limit\<close> more again for
  every session that ended after it had been up for the stable time. With reconnection
  disabled it starts at most one.\<close>

theorem reconnects_bounded:
  "(\<forall>limit. rp_max_retries policy = Count limit \<longrightarrow>
      connects (fold act as (new_supervisor policy snapshot)) \<le> 1 + unat limit * (stable_ends policy as + 1)) \<and>
   (\<not> rp_enabled policy \<longrightarrow> connects (fold act as (new_supervisor policy snapshot)) \<le> 1)"
proof (intro conjI allI impI)
  fix limit
  assume "rp_max_retries policy = Count limit"
  then show "connects (fold act as (new_supervisor policy snapshot)) \<le> 1 + unat limit * (stable_ends policy as + 1)"
    using run_retries_within [of policy limit as snapshot] by (simp add: retries_within_def)
next
  assume "\<not> rp_enabled policy"
  then show "connects (fold act as (new_supervisor policy snapshot)) \<le> 1"
    using run_first_attempt_only [of policy as snapshot] by (simp add: first_attempt_only_def)
qed

theorem reconnects_bounded_witness:
  "rp_max_retries enabled_policy = Count 5 \<and> \<not> rp_enabled default_policy \<and>
   connects sample_run \<le> 1 + unat (5 :: u32) * (stable_ends enabled_policy sample_actions + 1) \<and>
   connects (fold act sample_actions (new_supervisor default_policy (0::nat))) \<le> 1"
  using reconnects_bounded [of enabled_policy sample_actions 0] reconnects_bounded [of default_policy sample_actions 0]
  by (simp add: sample_run_def enabled_policy_def default_policy_def)

section \<open>Giving up\<close>

text \<open>A server that refuses every attempt the same way, and sleeps that end.\<close>

definition refusing :: "mine_rider_error \<Rightarrow> ('e, 's) poll_env" where
  "refusing e = quiet\<lparr>pe_connect := Some (Err e), pe_sleep_done := True\<rparr>"

definition scheduled_delays :: "('e, 's) supervisor \<Rightarrow> duration list" where
  "scheduled_delays s = concat (map (\<lambda>e. case e of EvReconnectScheduled _ delay \<Rightarrow> [delay] | _ \<Rightarrow> []) (sv_events s))"

definition retried :: "reconnect_policy \<Rightarrow> nat \<Rightarrow> ('e, 's) supervisor \<Rightarrow> bool" where
  "retried policy k s \<longleftrightarrow> sv_policy s = policy \<and> sv_phase s = LoopTop \<and> \<not> sv_cancelled s \<and> sv_queue s = [] \<and>
     unat (sv_attempt s) = k \<and> connects s = k \<and>
     scheduled_delays s = map (\<lambda>i. backoff_delay policy (of_nat i)) [1..<k + 1]"

lemma retry_round:
  assumes "retried policy k s" "rp_max_retries policy = Count limit" "k < unat limit"
    and "decision_for policy (error_retry_class e) = Retry"
  shows "retried policy (Suc k) ((poll (refusing e) ^^ 3) s)"
proof -
  have attempt: "\<not> retries_exhausted policy (sv_attempt s)" "of_nat k = sv_attempt s"
    using assms(1-3) by (auto simp: retried_def retries_exhausted_def word_le_nat_alt)
  moreover have "unat (sv_attempt s + 1) = Suc k"
    using attempt_below_limit [OF attempt(1) assms(2)] assms(1) by (simp add: retried_def)
  ultimately show ?thesis
    using assms
    by (simp add: retried_def refusing_def quiet_def numeral_3_eq_3 sup_defs Let_def connects_def
        scheduled_delays_def add.commute)
qed

lemma retry_rounds:
  assumes "rp_max_retries policy = Count limit" "decision_for policy (error_retry_class e) = Retry"
  shows "k \<le> unat limit \<Longrightarrow> retried policy k ((poll (refusing e) ^^ (3 * k)) (new_supervisor policy snapshot))"
proof (induction k)
  case 0
  show ?case
    by (simp add: retried_def new_supervisor_def connects_def scheduled_delays_def)
next
  case (Suc k)
  then show ?case
    using retry_round [OF _ assms(1) _ assms(2), of k] by (simp add: funpow_add [of 3 "3 * k"])
qed

text \<open>C15: The supervisor gives up. Against a server that refuses every attempt with an error the
  policy retries, under a limit of \<open>limit\<close> retries, it returns \<open>RetriesExhausted\<close> after
  \<open>3 * limit + 3\<close> polls, having connected \<open>limit + 1\<close> times and slept the backoff delay of
  attempt 1, 2, ... in between.\<close>

theorem failing_server_gives_up:
  assumes "rp_max_retries policy = Count limit" and "decision_for policy (error_retry_class e) = Retry"
  shows "let s = (poll (refusing e) ^^ (3 * unat limit + 3)) (new_supervisor policy snapshot :: ('e, 's) supervisor) in
    sv_phase s = Returned (RetriesExhausted e) \<and> sv_status s = StatusStopped \<and> connects s = unat limit + 1 \<and>
    scheduled_delays s = map (\<lambda>i. backoff_delay policy (of_nat i)) [1..<unat limit + 1]"
proof -
  define s where "s = (poll (refusing e) ^^ (3 * unat limit)) (new_supervisor policy snapshot :: ('e, 's) supervisor)"
  have last: "(poll (refusing e) ^^ (3 * unat limit + 3)) (new_supervisor policy snapshot) = (poll (refusing e) ^^ 3) s"
    by (simp add: s_def funpow_add add.commute [of _ 3])
  have r: "retried policy (unat limit) s"
    unfolding s_def using retry_rounds [OF assms order_refl] .
  then have "retries_exhausted policy (sv_attempt s)"
    using assms(1) by (simp add: retried_def retries_exhausted_def word_le_nat_alt)
  then have "let t = (poll (refusing e) ^^ 3) s in
    sv_phase t = Returned (RetriesExhausted e) \<and> sv_status t = StatusStopped \<and> connects t = unat limit + 1 \<and>
    scheduled_delays t = map (\<lambda>i. backoff_delay policy (of_nat i)) [1..<unat limit + 1]"
    using r assms(2)
    by (simp add: retried_def refusing_def quiet_def numeral_3_eq_3 sup_defs Let_def connects_def scheduled_delays_def)
  then show ?thesis
    unfolding last .
qed

theorem failing_server_gives_up_witness:
  "let s = (poll (refusing Timeout) ^^ 9)
        (new_supervisor (enabled_policy\<lparr>rp_max_retries := Count 2\<rparr>) () :: (unit, unit) supervisor) in
   sv_phase s = Returned (RetriesExhausted Timeout) \<and> connects s = 3"
  using failing_server_gives_up [where policy = "enabled_policy\<lparr>rp_max_retries := Count 2\<rparr>" and limit = 2
    and e = Timeout and snapshot = "()" and ?'e = unit]
  by (simp add: enabled_policy_def default_policy_def decision_for_def Let_def)

section \<open>Stopping\<close>

definition polls :: "('e, 's) action list \<Rightarrow> nat" where
  "polls as = length (filter is_poll as)"

text \<open>The stages of a requested stop: still running, loop left, supervisor gone.\<close>

fun stopping :: "nat \<Rightarrow> ('e, 's) supervisor \<Rightarrow> bool" where
  "stopping 0 s = (sv_cancelled s \<and> is_running (sv_phase s))"
| "stopping (Suc 0) s = (sv_phase s = Returning Cancelled \<and> sv_status s = StatusStopped)"
| "stopping (Suc (Suc k)) s = (sv_phase s = Returned Cancelled \<and> sv_status s = StatusStopped)"

lemma poll_cancelled: "sv_cancelled s \<Longrightarrow> is_running (sv_phase s) \<Longrightarrow> poll env s = stop_cancelled s"
  by (cases "sv_phase s") (simp_all add: poll_def loop_top_def poll_connect_def poll_session_def poll_backoff_def)

lemma poll_stopping: "stopping k s \<Longrightarrow> stopping (Suc k) (poll env s)"
proof (cases "(k, s)" rule: stopping.cases)
  case (1 t)
  then show "stopping k s \<Longrightarrow> ?thesis"
    using poll_cancelled [of s env]
    by (simp add: stop_cancelled_def break_with_def emit_def set_status_def reject_queued_commands_def)
qed (simp_all add: poll_def drop_supervisor_def reject_queued_commands_def)

lemma act_stopping: "stopping k s \<Longrightarrow> stopping (if is_poll a then Suc k else k) (act a s)"
proof (cases "is_poll a")
  case True
  then show "stopping k s \<Longrightarrow> ?thesis"
    using poll_stopping by (cases a) simp_all
next
  case False
  then show "stopping k s \<Longrightarrow> ?thesis"
    using call_same_run [OF False, of s] by (cases "(k, s)" rule: stopping.cases) (auto simp: same_run_def)
qed

lemma run_stopping: "stopping k s \<Longrightarrow> stopping (k + polls as) (fold act as s)"
proof (induction as arbitrary: k s)
  case (Cons a as)
  then show ?case
    using act_stopping [OF Cons.prems, of a] Cons.IH by (fastforce simp: polls_def)
qed (simp add: polls_def)

lemma reachable_run: "reachable policy snapshot s \<Longrightarrow> reachable policy snapshot (fold act as s)"
  by (induction as arbitrary: s) (auto intro: reachable.step)

text \<open>C16: A stop takes effect at once. After \<open>stop\<close> in any reachable running state (connecting, in
  a session, or sleeping between attempts), whatever the futures have ready and however many
  calls come in between, two polls of the task end it: the outcome is \<open>Cancelled\<close>, the status
  is stopped, and no command is left unanswered in the queue.\<close>

theorem stop_takes_effect:
  assumes "reachable policy snapshot s" and "is_running (sv_phase s)" and "2 \<le> polls as"
  shows "let t = fold act as (stop s) in
    sv_phase t = Returned Cancelled \<and> sv_status t = StatusStopped \<and> sv_queue t = []"
proof -
  obtain k where k: "polls as = Suc (Suc k)"
    using assms(3) by (metis Suc_1 add_2_eq_Suc le_Suc_ex)
  have "stopping 0 (stop s)"
    using assms(2) by (simp add: stop_def)
  then have finished: "stopping (Suc (Suc k)) (fold act as (stop s))"
    using run_stopping [of 0 "stop s" as] k by simp
  have "reachable policy snapshot (act Stop s)"
    using assms(1) by (rule reachable.step)
  then have "channel_ok (fold act as (stop s))"
    using reachable_invariants(4) [OF reachable_run, of policy snapshot "stop s" as] by simp
  then show ?thesis
    using finished by (simp add: channel_ok_def Let_def)
qed

theorem stop_takes_effect_witness:
  "is_running (sv_phase sample_run) \<and>
   sv_phase (fold act [Poll quiet, SendCheck SwapHands, Poll quiet] (stop sample_run)) = Returned Cancelled"
proof -
  have running: "is_running (sv_phase sample_run)"
    by code_simp
  have "2 \<le> polls [Poll quiet, SendCheck SwapHands, Poll quiet :: (unit, nat) action]"
    by (simp add: polls_def)
  then show ?thesis
    using stop_takes_effect [OF sample_run_reachable running] running by (metis (full_types))
qed

section \<open>What observers see\<close>


definition sample_snapshot_run :: "(unit, nat) supervisor" where
  "sample_snapshot_run = fold act (sample_actions @ [Poll (quiet\<lparr>pe_snapshot := Some 7\<rparr>)]) (new_supervisor enabled_policy 0)"


end
