(* ===== verification/Supervisor_Clicks.thy ===== *)
theory Supervisor_Clicks
  imports Supervisor
begin

text \<open>
  The inventory calls of \<open>SupervisorHandle\<close> (src/src/core/supervisor.rs): submit one click in
  the current session, then wait for the outcome the inventory records for it.
\<close>

section \<open>Inventory transactions through the handle\<close>

datatype inventory_action_error =
    ActionControl control_error
  | ActionInvalid inventory_error
  | ActionTimedOut
  | ActionDisconnected
  | StaleGeneration u64 u64

datatype gui_action_error =
    NoGuiOpen
  | GuiInvalidSlot nat
  | GuiAction inventory_action_error

text \<open>
  What the waiting loop reads each time it wakes up, and how the wait can end: every sender
  of the watched channels is gone, or the timeout elapses.
\<close>

record 'c watch_view =
  wv_inventory :: "'c inventory"
  wv_generation :: u64
  wv_status :: supervisor_status

datatype wait_end = SendersDropped | TimeoutElapsed

fun wait_for_inventory_outcome ::
  "u64 \<Rightarrow> u64 \<Rightarrow> 'c watch_view list \<Rightarrow> wait_end \<Rightarrow> inventory_action_error + inventory_outcome" where
  "wait_for_inventory_outcome transaction_id expected [] wait_end =
    (case wait_end of SendersDropped \<Rightarrow> Err ActionDisconnected | TimeoutElapsed \<Rightarrow> Err ActionTimedOut)"
| "wait_for_inventory_outcome transaction_id expected (view # views) wait_end =
    (case map_of (iv_completed (wv_inventory view)) transaction_id of
       Some outcome \<Rightarrow> (case outcome of Rejected error \<Rightarrow> Err (ActionInvalid error) | _ \<Rightarrow> Ok outcome)
     | None \<Rightarrow>
         if wv_generation view \<noteq> expected then Err (StaleGeneration expected (wv_generation view))
         else if wv_status view \<noteq> StatusConnected then Err ActionDisconnected
         else wait_for_inventory_outcome transaction_id expected views wait_end)"

text \<open>
  The call reads the current generation and inventory, draws the next transaction id, sends
  (\<open>send\<close> is \<open>send_command\<close>), and waits. The id counter is returned in every case.
\<close>

definition inventory_click_in_generation ::
  "(bot_command \<Rightarrow> control_error + unit) \<Rightarrow> 'c watch_view \<Rightarrow> u64 \<Rightarrow> u64 \<Rightarrow> i32 \<Rightarrow> inventory_click \<Rightarrow>
   'c watch_view list \<Rightarrow> wait_end \<Rightarrow> (inventory_action_error + inventory_outcome) \<times> u64" where
  "inventory_click_in_generation send now next_id expected window_id click views wait_end =
    (if wv_generation now \<noteq> expected then (Err (StaleGeneration expected (wv_generation now)), next_id)
     else case lookup_window (wv_inventory now) window_id of
       None \<Rightarrow> (Err (ActionInvalid (UnknownWindow window_id)), next_id)
     | Some window \<Rightarrow>
         let request = \<lparr>rq_transaction_id = next_id, rq_generation = expected, rq_window_id = window_id,
               rq_state_id = wi_state_id window, rq_click = click\<rparr> in
         (case send (InventoryClick request) of
            Err error \<Rightarrow> Err (ActionControl error)
          | Ok _ \<Rightarrow> wait_for_inventory_outcome next_id expected views wait_end, next_id + 1))"

definition handle_inventory_click ::
  "(bot_command \<Rightarrow> control_error + unit) \<Rightarrow> 'c watch_view \<Rightarrow> u64 \<Rightarrow> i32 \<Rightarrow> inventory_click \<Rightarrow>
   'c watch_view list \<Rightarrow> wait_end \<Rightarrow> (inventory_action_error + inventory_outcome) \<times> u64" where
  "handle_inventory_click send now next_id window_id click views wait_end =
    inventory_click_in_generation send now next_id (wv_generation now) window_id click views wait_end"

definition i16_try_from :: "nat \<Rightarrow> i16 option" where
  "i16_try_from n = (if n < 2 ^ 15 then Some (of_nat n) else None)"

definition gui_result :: "(inventory_action_error + inventory_outcome) \<times> u64 \<Rightarrow> (gui_action_error + inventory_outcome) \<times> u64" where
  "gui_result = (\<lambda>(r, next_id). (case r of Err e \<Rightarrow> Err (GuiAction e) | Ok outcome \<Rightarrow> Ok outcome, next_id))"

definition click_open_gui_slot ::
  "(bot_command \<Rightarrow> control_error + unit) \<Rightarrow> 'c watch_view \<Rightarrow> u64 \<Rightarrow> nat \<Rightarrow> gui_click \<Rightarrow>
   'c watch_view list \<Rightarrow> wait_end \<Rightarrow> (gui_action_error + inventory_outcome) \<times> u64" where
  "click_open_gui_slot send now next_id slot click views wait_end =
    (case iv_open_window (wv_inventory now) of
       None \<Rightarrow> (Err NoGuiOpen, next_id)
     | Some window \<Rightarrow> (case i16_try_from slot of
         None \<Rightarrow> (Err (GuiInvalidSlot slot), next_id)
       | Some slot \<Rightarrow> gui_result (handle_inventory_click send now next_id (wi_id window)
                       (into_inventory_click click slot) views wait_end)))"

definition click_inventory_slot ::
  "(bot_command \<Rightarrow> control_error + unit) \<Rightarrow> 'c watch_view \<Rightarrow> u64 \<Rightarrow> nat \<Rightarrow> gui_click \<Rightarrow>
   'c watch_view list \<Rightarrow> wait_end \<Rightarrow> (gui_action_error + inventory_outcome) \<times> u64" where
  "click_inventory_slot send now next_id slot click views wait_end =
    (case i16_try_from slot of
       None \<Rightarrow> (Err (GuiInvalidSlot slot), next_id)
     | Some slot \<Rightarrow> gui_result (handle_inventory_click send now next_id PLAYER_INVENTORY_WINDOW_ID
                     (into_inventory_click click slot) views wait_end))"

lemma wait_for_inventory_outcome_Ok:
  "wait_for_inventory_outcome transaction_id expected views wait_end = Ok outcome \<Longrightarrow>
    \<exists>before view after. views = before @ view # after \<and>
      map_of (iv_completed (wv_inventory view)) transaction_id = Some outcome \<and>
      (\<forall>error. outcome \<noteq> Rejected error) \<and>
      (\<forall>v \<in> set before. wv_generation v = expected \<and> wv_status v = StatusConnected \<and>
         map_of (iv_completed (wv_inventory v)) transaction_id = None)"
proof (induction transaction_id expected views wait_end rule: wait_for_inventory_outcome.induct)
  case (1 transaction_id expected wait_end)
  then show ?case
    by (simp split: wait_end.splits)
next
  case (2 transaction_id expected view views wait_end)
  show ?case
  proof (cases "map_of (iv_completed (wv_inventory view)) transaction_id")
    case None
    then obtain before v after where "views = before @ v # after"
      "map_of (iv_completed (wv_inventory v)) transaction_id = Some outcome" "\<forall>error. outcome \<noteq> Rejected error"
      "\<forall>v \<in> set before. wv_generation v = expected \<and> wv_status v = StatusConnected \<and>
         map_of (iv_completed (wv_inventory v)) transaction_id = None"
      "wv_generation view = expected" "wv_status view = StatusConnected"
      using 2 by (auto split: if_splits)
    then show ?thesis
      using None by (intro exI [of _ "view # before"]) auto
  next
    case (Some found)
    then show ?thesis
      using 2(2) by (intro exI [of _ "[]"]) (auto split: inventory_outcome.splits)
  qed
qed

lemma inventory_click_in_generation_Ok:
  assumes "fst (inventory_click_in_generation send now next_id expected window_id click views wait_end) = Ok outcome"
  obtains window where "wv_generation now = expected" "lookup_window (wv_inventory now) window_id = Some window"
    "send (InventoryClick \<lparr>rq_transaction_id = next_id, rq_generation = expected, rq_window_id = window_id,
        rq_state_id = wi_state_id window, rq_click = click\<rparr>) = Ok ()"
    "wait_for_inventory_outcome next_id expected views wait_end = Ok outcome"
  using assms that
  by (auto simp: inventory_click_in_generation_def Let_def split: if_splits option.splits sum.splits)


definition sample_view :: "nat \<Rightarrow> (u64 \<times> inventory_outcome) list \<Rightarrow> unit watch_view" where
  "sample_view generation completed = \<lparr>wv_inventory = new_inventory
     \<lparr>iv_open_window := Some (from_open 3 2 (NbtString [])), iv_completed := completed\<rparr>,
     wv_generation = of_nat generation, wv_status = StatusConnected\<rparr>"


end
