(* ===== verification/Palette.thy ===== *)
theory Palette
  imports Connection
begin

text \<open>
  Paletted containers, the storage of block states and biomes in a chunk section
  (src/src/minecraft/world.rs): decoding from a chunk packet, reading one entry, and the
  repacking that writes one entry.

  Entries are packed into 64-bit words without crossing a word boundary. The proofs follow
  single bits: entry \<open>i\<close> with \<open>bits\<close> bits owns the bits from \<open>(i mod vpl) * bits\<close> of word
  \<open>i div vpl\<close>, where \<open>vpl\<close> is \<open>64 div bits\<close>.
\<close>

section \<open>Containers\<close>

definition BLOCKS_PER_SECTION :: nat where "BLOCKS_PER_SECTION = 16 * 16 * 16"
definition BIOMES_PER_SECTION :: nat where "BIOMES_PER_SECTION = 4 * 4 * 4"
definition MAX_PALETTE_BITS :: u8 where "MAX_PALETTE_BITS = 32"

datatype paletted_container =
    Single u32
  | Indirect u8 "u32 list" "u64 list"
  | Direct u8 "u64 list"

definition wire :: "'a reading \<Rightarrow> mine_rider_error + ('a \<times> packet_reader)" where
  "wire m = (case m of Err e \<Rightarrow> Err (Wire e) | Ok v \<Rightarrow> Ok v)"

definition nonnegative_varint :: "packet_reader \<Rightarrow> mine_rider_error + (u32 \<times> packet_reader)" where
  "nonnegative_varint input = and_then (wire (get_varint input)) (\<lambda>(value, input).
     if sint value < 0 then Err Protocol else Ok (value, input))"

fun read_palette :: "nat \<Rightarrow> packet_reader \<Rightarrow> mine_rider_error + (u32 list \<times> packet_reader)" where
  "read_palette 0 input = Ok ([], input)"
| "read_palette (Suc count) input = and_then (nonnegative_varint input) (\<lambda>(value, input).
     and_then (read_palette count input) (\<lambda>(palette, input). Ok (value # palette, input)))"

definition div_ceil :: "nat \<Rightarrow> nat \<Rightarrow> nat" where
  "div_ceil n d = n div d + (if n mod d = 0 then 0 else 1)"

text \<open>The packed longs that follow the palette, whose number is fixed by the bit width.\<close>

definition decode_longs :: "nat \<Rightarrow> u8 \<Rightarrow> packet_reader \<Rightarrow> mine_rider_error + (u64 list \<times> packet_reader)" where
  "decode_longs entries bits input =
    (let values_per_long = 64 div unat bits in
     if values_per_long = 0 then Err Protocol
     else let expected_longs = div_ceil entries values_per_long in
       and_then (nonnegative_varint input) (\<lambda>(long_count, input).
         if unat long_count \<noteq> expected_longs then Err Protocol
         else wire (read_n get_u64 (unat long_count) input)))"

definition decode_container ::
  "nat \<Rightarrow> u8 \<Rightarrow> u8 \<Rightarrow> packet_reader \<Rightarrow> mine_rider_error + (paletted_container \<times> packet_reader)" where
  "decode_container entries min_indirect_bits max_indirect_bits input =
    and_then (wire (get_u8 input)) (\<lambda>(wire_bits, input).
      if wire_bits = 0 then
        and_then (nonnegative_varint input) (\<lambda>(value, input).
          and_then (nonnegative_varint input) (\<lambda>(long_count, input).
            if long_count \<noteq> 0 then Err Protocol else Ok (Single value, input)))
      else if MAX_PALETTE_BITS < wire_bits then Err Protocol
      else if wire_bits \<le> max_indirect_bits then
        let bits = max wire_bits min_indirect_bits in
        and_then (nonnegative_varint input) (\<lambda>(count, input).
          let capacity = 2 ^ unat bits in
          if count = 0 \<or> capacity < unat count then Err Protocol
          else and_then (read_palette (unat count) input) (\<lambda>(palette, input).
            and_then (decode_longs entries bits input) (\<lambda>(data, input).
              Ok (Indirect bits palette data, input))))
      else
        and_then (decode_longs entries wire_bits input) (\<lambda>(data, input).
          Ok (Direct wire_bits data, input)))"

definition packed_value :: "u8 \<Rightarrow> u64 list \<Rightarrow> nat \<Rightarrow> u32 option" where
  "packed_value bits data index =
    (let values_per_long = 64 div unat bits in
     if index div values_per_long < length data then
       let long = data ! (index div values_per_long);
           shift = (index mod values_per_long) * unat bits;
           mask = (if bits = 32 then 0xFFFFFFFF else push_bit (unat bits) 1 - 1)
       in Some (ucast (drop_bit shift long AND mask))
     else None)"

fun container_get :: "paletted_container \<Rightarrow> nat \<Rightarrow> u32 option" where
  "container_get (Single value) index = Some value"
| "container_get (Indirect bits palette data) index =
    (case packed_value bits data index of
       None \<Rightarrow> None
     | Some i \<Rightarrow> if unat i < length palette then Some (palette ! unat i) else None)"
| "container_get (Direct bits data) index = packed_value bits data index"

section \<open>Writing one entry\<close>

text \<open>\<open>32 - leading_zeros\<close>: the number of bits a value needs.\<close>

fun bit_length :: "nat \<Rightarrow> nat" where
  "bit_length n = (if n = 0 then 0 else Suc (bit_length (n div 2)))"

declare bit_length.simps [simp del]

fun collect_values :: "(nat \<Rightarrow> u32 option) \<Rightarrow> nat list \<Rightarrow> mine_rider_error + u32 list" where
  "collect_values get [] = Ok []"
| "collect_values get (i # is) = (case get i of
     None \<Rightarrow> Err Protocol
   | Some v \<Rightarrow> and_then (collect_values get is) (\<lambda>vs. Ok (v # vs)))"

fun max_value :: "u32 list \<Rightarrow> u32" where
  "max_value [] = 0"
| "max_value (v # vs) = max v (max_value vs)"

text \<open>The loop that packs the values from index \<open>i\<close> on into \<open>data\<close>.\<close>

fun pack_from :: "nat \<Rightarrow> nat \<Rightarrow> u32 list \<Rightarrow> u64 list \<Rightarrow> u64 list" where
  "pack_from bits i [] data = data"
| "pack_from bits i (value # values) data =
    (let values_per_long = 64 div bits;
         long = i div values_per_long;
         shift = (i mod values_per_long) * bits;
         mask = push_bit bits 1 - 1 :: u64
     in pack_from bits (Suc i) values
          (data[long := (data ! long) OR push_bit shift (ucast value AND mask)]))"

definition materialize_and_set ::
  "paletted_container \<Rightarrow> nat \<Rightarrow> nat \<Rightarrow> u32 \<Rightarrow> mine_rider_error + paletted_container" where
  "materialize_and_set container entries index state =
    (if entries \<le> index then Err Protocol
     else and_then (collect_values (container_get container) [0..<entries]) (\<lambda>values0.
       let values = values0[index := state];
           bits = max (bit_length (unat (max_value values))) 1;
           values_per_long = 64 div bits;
           data = replicate (div_ceil entries values_per_long) 0
       in Ok (Direct (of_nat bits) (pack_from bits 0 values data))))"

section \<open>Bit lengths\<close>

lemma bit_length_0 [simp]: "bit_length 0 = 0"
  by (simp add: bit_length.simps)

lemma less_two_power_bit_length: "n < 2 ^ bit_length n"
proof (induction n rule: bit_length.induct)
  case (1 n)
  show ?case
  proof (cases "n = 0")
    case False
    then have "n div 2 < 2 ^ bit_length (n div 2)"
      using 1 by simp
    then show ?thesis
      using False by (simp add: bit_length.simps [of n])
  qed (simp add: bit_length.simps)
qed

lemma bit_length_le: "n < 2 ^ k \<Longrightarrow> bit_length n \<le> k"
proof (induction k arbitrary: n)
  case (Suc k)
  then have "bit_length (n div 2) \<le> k"
    by simp
  then show ?case
    by (simp add: bit_length.simps [of n])
qed (simp add: bit_length.simps)

lemma max_value_ge: "v \<in> set vs \<Longrightarrow> v \<le> max_value vs"
  by (induction vs) (auto simp: le_max_iff_disj)

definition value_bits :: "u32 list \<Rightarrow> nat" where
  "value_bits vs = max (bit_length (unat (max_value vs))) 1"

lemma value_bits_bounds: "1 \<le> value_bits vs" "value_bits vs \<le> 32"
  using bit_length_le [of "unat (max_value vs)" 32] unsigned_less [of "max_value vs", where ?'a = nat]
  by (simp_all add: value_bits_def)

lemma value_fits: "v \<in> set vs \<Longrightarrow> unat v < 2 ^ value_bits vs"
proof -
  assume "v \<in> set vs"
  then have "unat v \<le> unat (max_value vs)"
    by (simp add: max_value_ge word_le_nat_alt [symmetric])
  also have "\<dots> < 2 ^ bit_length (unat (max_value vs))"
    by (rule less_two_power_bit_length)
  also have "\<dots> \<le> 2 ^ value_bits vs"
    by (simp add: value_bits_def power_increasing)
  finally show ?thesis .
qed

lemma bit_above_width:
  fixes v :: u32
  assumes "unat v < 2 ^ k" "k \<le> n"
  shows "\<not> bit v n"
proof -
  have "unat v < 2 ^ n"
    using assms by (meson less_le_trans one_le_numeral power_increasing)
  then have "\<not> bit (unat v) n"
    by (simp add: bit_iff_odd)
  then show ?thesis
    by (simp add: bit_unsigned_iff)
qed

section \<open>Packing, bit by bit\<close>

lemma length_pack_from [simp]: "length (pack_from bits i vs data) = length data"
  by (induction vs arbitrary: i data) (simp_all add: Let_def)

text \<open>The entry that owns bit \<open>b\<close> of word \<open>l\<close>.\<close>

definition owner :: "nat \<Rightarrow> nat \<Rightarrow> nat \<Rightarrow> nat" where
  "owner bits l b = l * (64 div bits) + b div bits"

lemma owner_eq_iff:
  assumes "0 < bits" "b div bits < 64 div bits"
  shows "owner bits l b = i \<longleftrightarrow> l = i div (64 div bits) \<and> b div bits = i mod (64 div bits)"
proof -
  have "owner bits l b div (64 div bits) = l" "owner bits l b mod (64 div bits) = b div bits"
    using assms by (auto simp: owner_def)
  moreover have "i div (64 div bits) * (64 div bits) + i mod (64 div bits) = i"
    by (rule div_mult_mod_eq)
  ultimately show ?thesis
    unfolding owner_def by auto
qed

lemma slot_iff:
  fixes bits :: nat
  assumes "0 < bits"
  shows "j * bits \<le> b \<and> b - j * bits < bits \<longleftrightarrow> b div bits = j" and "b div bits = j \<Longrightarrow> b - j * bits = b mod bits"
proof -
  show "j * bits \<le> b \<and> b - j * bits < bits \<longleftrightarrow> b div bits = j"
  proof
    assume "j * bits \<le> b \<and> b - j * bits < bits"
    then have "bits * j \<le> b" "b < bits * Suc j"
      by (auto simp: mult.commute)
    then show "b div bits = j"
      by (rule div_nat_eqI)
  next
    assume "b div bits = j"
    then show "j * bits \<le> b \<and> b - j * bits < bits"
      using assms by (metis div_times_less_eq_dividend minus_div_mult_eq_mod mod_less_divisor)
  qed
  show "b div bits = j \<Longrightarrow> b - j * bits = b mod bits"
    using minus_div_mult_eq_mod [of b bits] by simp
qed

lemma bit_packed_entry:
  fixes v :: u32
  assumes "0 < bits" "bits \<le> 32" "b < 64" "j < 64 div bits"
  shows "bit (push_bit (j * bits) (ucast v AND (push_bit bits 1 - 1)) :: u64) b
    \<longleftrightarrow> b div bits = j \<and> bit v (b mod bits)"
proof -
  have mask: "push_bit bits 1 - 1 = (mask bits :: u64)"
    by (simp add: push_bit_of_1 mask_eq_exp_minus_1)
  have "bit (ucast v AND mask bits :: u64) n \<longleftrightarrow> n < bits \<and> bit v n" for n
    using assms(2) by (auto simp: bit_and_iff bit_mask_iff bit_unsigned_iff)
  then have "bit (push_bit (j * bits) (ucast v AND mask bits) :: u64) b \<longleftrightarrow>
      j * bits \<le> b \<and> b - j * bits < bits \<and> bit v (b - j * bits)"
    using assms(3) unfolding bit_push_bit_iff by auto
  then show ?thesis
    unfolding mask using slot_iff(1) [OF assms(1), of j b] slot_iff(2) [OF assms(1), of b j] by auto
qed

lemma bit_pack_from:
  assumes "0 < bits" "bits \<le> 32" "l < length data" "b < 64"
  shows "bit (pack_from bits i vs data ! l) b \<longleftrightarrow>
    bit (data ! l) b \<or> (b div bits < 64 div bits \<and> i \<le> owner bits l b \<and> owner bits l b < i + length vs \<and>
      bit (vs ! (owner bits l b - i)) (b mod bits))"
  using assms(3)
proof (induction vs arbitrary: i data)
  case (Cons v vs)
  let ?j = "i mod (64 div bits)" and ?long = "i div (64 div bits)"
  define entry :: u64 where "entry = push_bit (?j * bits) (ucast v AND (push_bit bits 1 - 1))"
  let ?data = "data[?long := (data ! ?long) OR entry]"
  have "64 div bits \<noteq> 0"
    using assms(1,2) by (simp add: div_eq_0_iff)
  then have j: "?j < 64 div bits"
    by simp
  have "bit entry b \<longleftrightarrow> b div bits = ?j \<and> bit v (b mod bits)"
    unfolding entry_def using bit_packed_entry [OF assms(1,2,4) j] .
  then have step: "bit (?data ! l) b \<longleftrightarrow> bit (data ! l) b \<or>
      (b div bits < 64 div bits \<and> owner bits l b = i \<and> bit v (b mod bits))"
    using Cons.prems owner_eq_iff [OF assms(1), of b l i] j
    by (cases "l = ?long") (auto simp: bit_or_iff)
  have "bit (pack_from bits i (v # vs) data ! l) b \<longleftrightarrow> bit (?data ! l) b \<or>
      (b div bits < 64 div bits \<and> Suc i \<le> owner bits l b \<and> owner bits l b < Suc i + length vs \<and>
        bit (vs ! (owner bits l b - Suc i)) (b mod bits))"
    using Cons.IH [of ?data "Suc i"] Cons.prems unfolding pack_from.simps Let_def entry_def by simp
  then show ?case
    unfolding step by (cases "owner bits l b" i rule: linorder_cases) (auto simp: nth_Cons' not_less_eq_eq)
qed auto

text \<open>Reading an entry of a packed list gives back the value, for every entry.\<close>

lemma packed_value_pack:
  assumes "0 < bits" "bits \<le> 32" "index < length vs"
    and "\<And>v. v \<in> set vs \<Longrightarrow> unat v < 2 ^ bits"
    and "length vs \<le> n * (64 div bits)"
  shows "packed_value (of_nat bits) (pack_from bits 0 vs (replicate n 0)) index = Some (vs ! index)"
proof -
  let ?vpl = "64 div bits" and ?data = "pack_from bits 0 vs (replicate n 0)"
  have bits: "unat (of_nat bits :: u8) = bits"
    using assms(2) by (simp add: unat_of_nat)
  have "?vpl \<noteq> 0"
    using assms(1,2) by (simp add: div_eq_0_iff)
  then have j: "index mod ?vpl < ?vpl" and long: "index div ?vpl < n"
    using assms(3,5) by (auto simp: less_mult_imp_div_less)
  have fits: "(index mod ?vpl) * bits + k < 64" if "k < bits" for k
  proof -
    have "(index mod ?vpl) * bits + k < (index mod ?vpl + 1) * bits"
      using that by simp
    also have "\<dots> \<le> ?vpl * bits"
      using j by (intro mult_right_mono) auto
    also have "\<dots> \<le> 64"
      by simp
    finally show ?thesis .
  qed
  have mask: "(if (of_nat bits :: u8) = 32 then 0xFFFFFFFF else push_bit bits 1 - 1 :: u64) = mask bits"
  proof (cases "bits = 32")
    case True
    then show ?thesis
      by (simp add: mask_eq_exp_minus_1)
  next
    case False
    moreover have "unat (32 :: u8) = 32"
      by simp
    ultimately have "(of_nat bits :: u8) \<noteq> 32"
      using bits by metis
    then show ?thesis
      by (simp add: push_bit_of_1 mask_eq_exp_minus_1)
  qed
  have "bit (ucast (drop_bit (index mod ?vpl * bits) (?data ! (index div ?vpl)) AND mask bits) :: u32) k
      \<longleftrightarrow> bit (vs ! index) k" if "k < 32" for k
  proof (cases "k < bits")
    case True
    let ?b = "index mod ?vpl * bits + k"
    have "?b div bits = index mod ?vpl" "?b mod bits = k"
      using True assms(1) by auto
    moreover from this have "owner bits (index div ?vpl) ?b = index"
      unfolding owner_def by (simp only: div_mult_mod_eq)
    ultimately have "bit (?data ! (index div ?vpl)) ?b \<longleftrightarrow> bit (vs ! index) k"
      using bit_pack_from [OF assms(1,2) _ fits [OF True], of "index div ?vpl" "replicate n 0" 0 vs]
        long j assms(3) by simp
    then show ?thesis
      using True that fits [OF True] by (simp add: bit_simps add.commute)
  next
    case False
    then have "\<not> bit (vs ! index) k"
      using bit_above_width [OF assms(4)] assms(3) by simp
    then show ?thesis
      using False by (simp add: bit_simps)
  qed
  then have "ucast (drop_bit (index mod ?vpl * bits) (?data ! (index div ?vpl)) AND mask bits) = vs ! index"
    by (intro bit_word_eqI) simp
  then show ?thesis
    unfolding packed_value_def Let_def bits mask using long by simp
qed

section \<open>Well-formed containers\<close>

definition longs_ok :: "nat \<Rightarrow> u8 \<Rightarrow> u64 list \<Rightarrow> bool" where
  "longs_ok entries bits data \<longleftrightarrow>
     1 \<le> bits \<and> bits \<le> MAX_PALETTE_BITS \<and> length data = div_ceil entries (64 div unat bits)"

fun container_ok :: "nat \<Rightarrow> paletted_container \<Rightarrow> bool" where
  "container_ok entries (Single value) = True"
| "container_ok entries (Indirect bits palette data) =
    (longs_ok entries bits data \<and> palette \<noteq> [] \<and> length palette \<le> 2 ^ unat bits)"
| "container_ok entries (Direct bits data) = longs_ok entries bits data"

lemma div_ceil_covers: "0 < d \<Longrightarrow> n \<le> div_ceil n d * d"
  using dividend_less_div_times [of d n] by (auto simp: div_ceil_def)

lemma longs_ok_index:
  assumes "longs_ok entries bits data" "index < entries"
  shows "index div (64 div unat bits) < length data"
proof -
  have "unat bits \<noteq> 0" "unat bits \<le> 32"
    using assms(1) by (auto simp: longs_ok_def MAX_PALETTE_BITS_def word_le_nat_alt)
  then have "0 < 64 div unat bits"
    by (simp add: div_greater_zero_iff)
  then have "entries \<le> length data * (64 div unat bits)"
    using assms(1) div_ceil_covers by (simp add: longs_ok_def)
  then show ?thesis
    using assms(2) by (intro less_mult_imp_div_less) simp
qed

text \<open>A well-formed container has a value at every entry, or names a missing palette entry.\<close>

lemma container_ok_get:
  assumes "container_ok entries c" "index < entries"
  shows "container_get c index \<noteq> None \<or>
    (\<exists>bits palette data i. c = Indirect bits palette data \<and> packed_value bits data index = Some i \<and> length palette \<le> unat i)"
  using assms longs_ok_index
  by (cases c) (auto simp: packed_value_def Let_def split: option.splits)

lemma wire_Ok [simp]: "wire m = Ok v \<longleftrightarrow> m = Ok v"
  by (cases m) (auto simp: wire_def)

lemma read_palette_length: "read_palette n input = Ok (palette, input') \<Longrightarrow> length palette = n"
  by (induction n arbitrary: input palette input') auto

lemma read_n_length: "read_n get n r = Ok (xs, r') \<Longrightarrow> length xs = n"
  by (induction n arbitrary: r xs r') auto

lemma decode_longs_ok:
  "1 \<le> bits \<Longrightarrow> bits \<le> MAX_PALETTE_BITS \<Longrightarrow> decode_longs entries bits input = Ok (data, input') \<Longrightarrow>
    longs_ok entries bits data"
  by (auto simp: decode_longs_def longs_ok_def Let_def dest: read_n_length split: if_splits)

lemma decode_container_ok:
  assumes "decode_container entries lo hi input = Ok (c, input')" and "lo \<le> MAX_PALETTE_BITS"
  shows "container_ok entries c"
proof -
  have one: "1 \<le> bits" if "bits \<noteq> 0" for bits :: u8
    using that by (simp add: word_le_nat_alt unat_gt_0 Suc_le_eq)
  have "1 \<le> max bits lo" if "bits \<noteq> 0" for bits :: u8
    using one [OF that] by (simp add: le_max_iff_disj)
  then show ?thesis
    using assms one
    by (auto simp: decode_container_def Let_def unat_eq_0 not_less dest!: read_palette_length
        intro!: decode_longs_ok split: if_splits)
qed

section \<open>Writing one entry, seen through reading\<close>

lemma collect_values_Ok:
  "collect_values get is = Ok vs \<longleftrightarrow> map get is = map Some vs"
  by (induction "is" arbitrary: vs) (auto split: option.splits)

lemma collect_values_total:
  "(\<exists>vs. collect_values get is = Ok vs) \<longleftrightarrow> (\<forall>i \<in> set is. get i \<noteq> None)"
  by (induction "is") (auto split: option.splits)

lemma collected_nth:
  assumes "collect_values get [0..<n] = Ok vs"
  shows "length vs = n" and "i < n \<Longrightarrow> get i = Some (vs ! i)"
proof -
  have eq: "map get [0..<n] = map Some vs"
    using assms by (simp only: collect_values_Ok)
  then show "length vs = n"
    by (metis length_map length_upt diff_zero)
  then show "get i = Some (vs ! i)" if "i < n"
    using arg_cong [OF eq, of "\<lambda>xs. xs ! i"] that by simp
qed

text \<open>
  After a successful write every entry reads as before, except the one written; the result is
  well-formed. The write succeeds exactly when the index is in range and every entry of the
  container has a value.
\<close>

lemma materialize_and_set_Ok:
  assumes "materialize_and_set c entries index state = Ok c'"
  shows "index < entries" and "container_ok entries c'"
    and "i < entries \<Longrightarrow> container_get c' i = (if i = index then Some state else container_get c i)"
proof -
  obtain old where old: "collect_values (container_get c) [0..<entries] = Ok old" and index: "index < entries"
    using assms by (auto simp: materialize_and_set_def split: if_splits)
  define vs where "vs = old[index := state]"
  define bits where "bits = value_bits vs"
  have bits: "1 \<le> bits" "bits \<le> 32" "unat (of_nat bits :: u8) = bits"
    using value_bits_bounds [of vs] by (auto simp: bits_def unat_of_nat)
  have c': "c' = Direct (of_nat bits) (pack_from bits 0 vs (replicate (div_ceil entries (64 div bits)) 0))"
    using assms old index by (simp add: materialize_and_set_def Let_def vs_def bits_def value_bits_def)
  have length: "length vs = entries"
    using collected_nth(1) [OF old] by (simp add: vs_def)
  show "index < entries"
    by (rule index)
  show "container_ok entries c'"
    using bits by (simp add: c' longs_ok_def MAX_PALETTE_BITS_def word_le_nat_alt)
  have "0 < 64 div bits"
    using bits by (simp add: div_greater_zero_iff)
  then have "length vs \<le> div_ceil entries (64 div bits) * (64 div bits)"
    unfolding length by (rule div_ceil_covers)
  then have "container_get c' i = Some (vs ! i)" if "i < entries" for i
    unfolding c' using that length bits
    by (simp add: packed_value_pack value_fits bits_def)
  then show "container_get c' i = (if i = index then Some state else container_get c i)" if "i < entries"
    using that collected_nth [OF old] by (simp add: vs_def nth_list_update)
qed

lemma materialize_and_set_total:
  "(\<exists>c'. materialize_and_set c entries index state = Ok c') \<longleftrightarrow>
    index < entries \<and> (\<forall>i < entries. container_get c i \<noteq> None)"
  using collect_values_total [of "container_get c" "[0..<entries]"]
  by (auto simp: materialize_and_set_def Let_def)

end
