(* ===== verification/Dimension.thy ===== *)
theory Dimension
  imports Connection Wire_Nbt
begin

text \<open>
  The dimension types a server announces during configuration
  (src/src/minecraft/configuration.rs): reading them from the registry packet and the checks
  the chunk decoder relies on. Floats are their bit patterns.
\<close>

record dimension_type =
  dim_key :: string
  dim_min_y :: i32
  dim_height :: i32
  dim_logical_height :: i32
  dim_coordinate_scale :: u64
  dim_ultrawarm :: bool
  dim_has_ceiling :: bool

text \<open>Division of an \<open>i32\<close> truncates; the cast to \<open>usize\<close> sign-extends.\<close>

definition section_count :: "dimension_type \<Rightarrow> nat" where
  "section_count d = (let h = sint (dim_height d) in
     unat (word_of_int (if 0 \<le> h then h div 16 else - ((- h) div 16)) :: u64))"

definition min_section_y :: "dimension_type \<Rightarrow> i32" where
  "min_section_y d = word_of_int (sint (dim_min_y d) div 16)"

definition nbt_i32 :: "nbt \<Rightarrow> string \<Rightarrow> mine_rider_error + i32" where
  "nbt_i32 v key = (case nbt_get v key of Some (NbtInt i) \<Rightarrow> Ok i | _ \<Rightarrow> Err Protocol)"

definition nbt_f64 :: "nbt \<Rightarrow> string \<Rightarrow> mine_rider_error + u64" where
  "nbt_f64 v key = (case nbt_get v key of Some (NbtDouble d) \<Rightarrow> Ok d | _ \<Rightarrow> Err Protocol)"

definition nbt_bool :: "nbt \<Rightarrow> string \<Rightarrow> mine_rider_error + bool" where
  "nbt_bool v key = (case nbt_get v key of Some (NbtByte b) \<Rightarrow> Ok (b \<noteq> 0) | _ \<Rightarrow> Err Protocol)"

definition f64_one :: u64 where "f64_one = 0x3FF0000000000000"
definition f64_eight :: u64 where "f64_eight = 0x4020000000000000"

definition vanilla_dimension_type :: "string \<Rightarrow> dimension_type option" where
  "vanilla_dimension_type key =
    (if key = ''minecraft:overworld'' \<or> key = ''minecraft:overworld_caves'' then
       Some \<lparr>dim_key = key, dim_min_y = - 64, dim_height = 384, dim_logical_height = 384,
         dim_coordinate_scale = f64_one, dim_ultrawarm = False, dim_has_ceiling = False\<rparr>
     else if key = ''minecraft:the_nether'' then
       Some \<lparr>dim_key = key, dim_min_y = 0, dim_height = 256, dim_logical_height = 128,
         dim_coordinate_scale = f64_eight, dim_ultrawarm = True, dim_has_ceiling = True\<rparr>
     else if key = ''minecraft:the_end'' then
       Some \<lparr>dim_key = key, dim_min_y = 0, dim_height = 256, dim_logical_height = 256,
         dim_coordinate_scale = f64_one, dim_ultrawarm = False, dim_has_ceiling = False\<rparr>
     else None)"

record registry_entry =
  re_key :: string
  re_value :: "nbt option"

record registry_data =
  rg_id :: string
  rg_entries :: "registry_entry list"

definition registry_dimension :: "registry_entry \<Rightarrow> mine_rider_error + dimension_type" where
  "registry_dimension entry = (case re_value entry of
     Some v \<Rightarrow>
       and_then (nbt_i32 v ''min_y'') (\<lambda>min_y.
       and_then (nbt_i32 v ''height'') (\<lambda>height.
       and_then (nbt_i32 v ''logical_height'') (\<lambda>logical_height.
       and_then (nbt_f64 v ''coordinate_scale'') (\<lambda>coordinate_scale.
       and_then (nbt_bool v ''ultrawarm'') (\<lambda>ultrawarm.
       and_then (nbt_bool v ''has_ceiling'') (\<lambda>has_ceiling.
         Ok \<lparr>dim_key = re_key entry, dim_min_y = min_y, dim_height = height,
           dim_logical_height = logical_height, dim_coordinate_scale = coordinate_scale,
           dim_ultrawarm = ultrawarm, dim_has_ceiling = has_ceiling\<rparr>))))))
   | None \<Rightarrow> (case vanilla_dimension_type (re_key entry) of None \<Rightarrow> Err Protocol | Some d \<Rightarrow> Ok d))"

definition dimension_bounds_ok :: "dimension_type \<Rightarrow> bool" where
  "dimension_bounds_ok d \<longleftrightarrow> \<not> (sint (dim_height d) \<le> 0 \<or> sint (dim_height d) mod 16 \<noteq> 0 \<or>
     sint (dim_min_y d) mod 16 \<noteq> 0 \<or> \<not> (1 \<le> section_count d \<and> section_count d \<le> 256))"

text \<open>
  The loop over the entries. The dimensions read before a bad entry stay in the list, as in
  the source, where the list is cleared first and the error returned from inside the loop.
\<close>

fun store_entries ::
  "registry_entry list \<Rightarrow> dimension_type list \<Rightarrow> (mine_rider_error + unit) \<times> dimension_type list" where
  "store_entries [] dims = (Ok (), dims)"
| "store_entries (entry # entries) dims = (case registry_dimension entry of
     Err e \<Rightarrow> (Err e, dims)
   | Ok d \<Rightarrow> if \<not> dimension_bounds_ok d then (Err Protocol, dims) else store_entries entries (dims @ [d]))"

definition DIMENSION_TYPE_REGISTRY :: string where
  "DIMENSION_TYPE_REGISTRY = ''minecraft:dimension_type''"

definition store_registry ::
  "registry_data \<Rightarrow> dimension_type list \<Rightarrow> (mine_rider_error + unit) \<times> dimension_type list" where
  "store_registry packet dims =
    (if rg_id packet \<noteq> DIMENSION_TYPE_REGISTRY then (Ok (), dims) else store_entries (rg_entries packet) [])"

section \<open>What the checks give\<close>

lemma store_entries_ok:
  "\<forall>d \<in> set dims. dimension_bounds_ok d \<Longrightarrow> \<forall>d \<in> set (snd (store_entries entries dims)). dimension_bounds_ok d"
  by (induction entries dims rule: store_entries.induct) (auto split: sum.splits)

lemma store_registry_ok:
  "\<forall>d \<in> set dims. dimension_bounds_ok d \<Longrightarrow> \<forall>d \<in> set (snd (store_registry packet dims)). dimension_bounds_ok d"
  using store_entries_ok [of "[]"] by (simp add: store_registry_def)

text \<open>An accepted dimension consists of whole sections, at most 256 of them.\<close>

lemma dimension_height_sections:
  assumes "dimension_bounds_ok d"
  shows "sint (dim_height d) = 16 * int (section_count d)" and "section_count d \<le> 256"
proof -
  let ?h = "sint (dim_height d)"
  have h: "0 < ?h" "?h mod 16 = 0" "section_count d \<le> 256"
    using assms by (auto simp: dimension_bounds_ok_def)
  have "?h < 2 ^ 31"
    using sint_less [of "dim_height d"] by simp
  then have "0 \<le> ?h div 16" "?h div 16 < 2 ^ 64"
    using h(1) by auto
  then have "int (section_count d) = ?h div 16"
    using h(1) by (simp add: section_count_def Let_def uint_word_of_int flip: uint_nat)
  then show "sint (dim_height d) = 16 * int (section_count d)"
    using h(2) by auto
  show "section_count d \<le> 256"
    by (rule h(3))
qed

end
