(* ===== verification/World.thy ===== *)
theory World
  imports Palette Dimension
begin

text \<open>
  Chunk storage of one client, src/src/minecraft/world.rs: decoding chunk packets into
  sections, looking up a block, and the packets that change blocks, light and block entities.

  \<^item> Coordinates are \<open>i32\<close> words; \<open>div_euclid\<close> and \<open>rem_euclid\<close> by 16 are \<open>div\<close> and \<open>mod\<close> of the
    signed value. Additions and subtractions wrap.
  \<^item> Chunks are immutable and shared by \<open>Arc\<close> in the source; here they are values. Every changed
    chunk passes through \<open>intern\<close>, which may be the shared store with a state of its own, so
    \<open>intern\<close> is an argument of the operations and its state is threaded through them.
  \<^item> What the operations need of \<open>intern\<close> is the locale \<open>chunk_interner\<close>.
\<close>

section \<open>Chunks\<close>

record chunk_section =
  cs_non_air_blocks :: u16
  cs_block_states :: paletted_container
  cs_biomes :: paletted_container

record block_entity =
  be_local_x :: u8
  be_local_z :: u8
  be_y :: i16
  be_kind :: i32
  be_nbt :: "nbt option"

record chunk_light =
  cl_sky_mask :: "i64 list"
  cl_block_mask :: "i64 list"
  cl_empty_sky_mask :: "i64 list"
  cl_empty_block_mask :: "i64 list"
  cl_sky_arrays :: "u8 list list"
  cl_block_arrays :: "u8 list list"

record chunk_snapshot =
  ch_x :: i32
  ch_z :: i32
  ch_sections :: "chunk_section list"
  ch_heightmaps :: nbt
  ch_block_entities :: "block_entity list"
  ch_light :: chunk_light

text \<open>The chunk and light packets, as the generated decoders deliver them.\<close>

record chunk_block_entity =
  cbe_x :: u8
  cbe_z :: u8
  cbe_y :: i16
  cbe_type :: i32
  cbe_nbt_data :: "nbt option"

record packet_map_chunk =
  mc_x :: i32
  mc_z :: i32
  mc_heightmaps :: nbt
  mc_chunk_data :: "u8 list"
  mc_block_entities :: "chunk_block_entity list"
  mc_sky_light_mask :: "i64 list"
  mc_block_light_mask :: "i64 list"
  mc_empty_sky_light_mask :: "i64 list"
  mc_empty_block_light_mask :: "i64 list"
  mc_sky_light :: "u8 list list"
  mc_block_light :: "u8 list list"

record packet_update_light =
  ul_chunk_x :: i32
  ul_chunk_z :: i32
  ul_sky_light_mask :: "i64 list"
  ul_block_light_mask :: "i64 list"
  ul_empty_sky_light_mask :: "i64 list"
  ul_empty_block_light_mask :: "i64 list"
  ul_sky_light :: "u8 list list"
  ul_block_light :: "u8 list list"

definition from_map_chunk :: "packet_map_chunk \<Rightarrow> chunk_light" where
  "from_map_chunk packet = \<lparr>cl_sky_mask = mc_sky_light_mask packet, cl_block_mask = mc_block_light_mask packet,
     cl_empty_sky_mask = mc_empty_sky_light_mask packet, cl_empty_block_mask = mc_empty_block_light_mask packet,
     cl_sky_arrays = mc_sky_light packet, cl_block_arrays = mc_block_light packet\<rparr>"

definition snapshot_entity :: "chunk_block_entity \<Rightarrow> block_entity" where
  "snapshot_entity e = \<lparr>be_local_x = cbe_x e, be_local_z = cbe_z e, be_y = cbe_y e, be_kind = cbe_type e,
     be_nbt = cbe_nbt_data e\<rparr>"

definition decode_section :: "packet_reader \<Rightarrow> mine_rider_error + (chunk_section \<times> packet_reader)" where
  "decode_section input =
    and_then (wire (get_i16 input)) (\<lambda>(non_air_blocks, input).
      if sint non_air_blocks < 0 \<or> int BLOCKS_PER_SECTION < sint non_air_blocks then Err Protocol
      else and_then (decode_container BLOCKS_PER_SECTION 4 8 input) (\<lambda>(block_states, input).
        and_then (decode_container BIOMES_PER_SECTION 1 3 input) (\<lambda>(biomes, input).
          Ok (\<lparr>cs_non_air_blocks = non_air_blocks, cs_block_states = block_states, cs_biomes = biomes\<rparr>, input))))"

fun decode_sections :: "nat \<Rightarrow> packet_reader \<Rightarrow> mine_rider_error + (chunk_section list \<times> packet_reader)" where
  "decode_sections 0 input = Ok ([], input)"
| "decode_sections (Suc n) input = and_then (decode_section input) (\<lambda>(section, input).
     and_then (decode_sections n input) (\<lambda>(sections, input). Ok (section # sections, input)))"

definition decode_chunk :: "packet_map_chunk \<Rightarrow> nat \<Rightarrow> mine_rider_error + chunk_section list" where
  "decode_chunk packet count =
    and_then (decode_sections count (new_reader (mc_chunk_data packet))) (\<lambda>(sections, input).
      if \<not> is_empty input then Err Protocol else Ok sections)"

definition decode_snapshot :: "packet_map_chunk \<Rightarrow> nat \<Rightarrow> mine_rider_error + chunk_snapshot" where
  "decode_snapshot packet count =
    and_then (decode_chunk packet count) (\<lambda>sections.
      Ok \<lparr>ch_x = mc_x packet, ch_z = mc_z packet, ch_sections = sections,
        ch_heightmaps = mc_heightmaps packet, ch_block_entities = map snapshot_entity (mc_block_entities packet),
        ch_light = from_map_chunk packet\<rparr>)"

section \<open>The world\<close>

type_synonym chunk_position = "i32 \<times> i32"

record world =
  w_dimension :: dimension_type
  w_chunks :: "chunk_position \<rightharpoonup> chunk_snapshot"

definition new_world :: "dimension_type \<Rightarrow> world" where
  "new_world dimension = \<lparr>w_dimension = dimension, w_chunks = (\<lambda>_. None)\<rparr>"

type_synonym 'st interner = "chunk_snapshot \<Rightarrow> ('st, mine_rider_error, chunk_snapshot) fallible"
type_synonym 'st world_op = "(world \<times> 'st, mine_rider_error, unit) fallible"

text \<open>Intern a chunk and make it the one at the position.\<close>

definition store_chunk :: "'st interner \<Rightarrow> chunk_position \<Rightarrow> chunk_snapshot \<Rightarrow> 'st world_op" where
  "store_chunk intern position chunk = (\<lambda>(w, st). case intern chunk st of
     (Err e, st') \<Rightarrow> (Err e, (w, st'))
   | (Ok chunk', st') \<Rightarrow> (Ok (), (w\<lparr>w_chunks := (w_chunks w)(position \<mapsto> chunk')\<rparr>, st')))"

definition insert_chunk :: "'st interner \<Rightarrow> packet_map_chunk \<Rightarrow> 'st world_op" where
  "insert_chunk intern packet = (\<lambda>(w, st). case decode_snapshot packet (section_count (w_dimension w)) of
     Err e \<Rightarrow> (Err e, (w, st))
   | Ok chunk \<Rightarrow> store_chunk intern (ch_x chunk, ch_z chunk) chunk (w, st))"

definition unload_chunk :: "i32 \<Rightarrow> i32 \<Rightarrow> world \<Rightarrow> world" where
  "unload_chunk x z w = w\<lparr>w_chunks := (w_chunks w)((x, z) := None)\<rparr>"

definition has_chunk :: "world \<Rightarrow> i32 \<Rightarrow> i32 \<Rightarrow> bool" where
  "has_chunk w x z = (w_chunks w (x, z) \<noteq> None)"

definition div16 :: "i32 \<Rightarrow> i32" where
  "div16 x = word_of_int (sint x div 16)"

definition rem16 :: "i32 \<Rightarrow> nat" where
  "rem16 x = nat (sint x mod 16)"

definition block_index :: "i32 \<Rightarrow> i32 \<Rightarrow> i32 \<Rightarrow> nat" where
  "block_index x y z = (rem16 y * 16 + rem16 z) * 16 + rem16 x"

definition block_state :: "world \<Rightarrow> i32 \<Rightarrow> i32 \<Rightarrow> i32 \<Rightarrow> u32 option" where
  "block_state w x y z =
    (let d = w_dimension w in
     if sint y < sint (dim_min_y d) \<or> sint (dim_min_y d + dim_height d) \<le> sint y then None
     else case w_chunks w (div16 x, div16 z) of
       None \<Rightarrow> None
     | Some chunk \<Rightarrow>
         let section_index = nat (sint (y - dim_min_y d) div 16) in
         if section_index < length (ch_sections chunk)
         then container_get (cs_block_states (ch_sections chunk ! section_index)) (block_index x y z)
         else None)"

definition set_block_state :: "'st interner \<Rightarrow> i32 \<Rightarrow> i32 \<Rightarrow> i32 \<Rightarrow> u32 \<Rightarrow> 'st world_op" where
  "set_block_state intern x y z state = (\<lambda>(w, st).
    let position = (div16 x, div16 z) in
    case w_chunks w position of
      None \<Rightarrow> (Err Protocol, (w, st))
    | Some current \<Rightarrow>
        let section_index = sint (y - dim_min_y (w_dimension w)) div 16 in
        if section_index < 0 \<or> length (ch_sections current) \<le> nat section_index then (Err Protocol, (w, st))
        else let section = ch_sections current ! nat section_index in
          case materialize_and_set (cs_block_states section) BLOCKS_PER_SECTION (block_index x y z) state of
            Err e \<Rightarrow> (Err e, (w, st))
          | Ok states \<Rightarrow>
              store_chunk intern position
                (current\<lparr>ch_sections := (ch_sections current)[nat section_index := section\<lparr>cs_block_states := states\<rparr>]\<rparr>)
                (w, st))"

definition apply_block_change :: "'st interner \<Rightarrow> i32 \<Rightarrow> i16 \<Rightarrow> i32 \<Rightarrow> i32 \<Rightarrow> 'st world_op" where
  "apply_block_change intern x y z type = set_block_state intern x (scast y) z type"

text \<open>One record packs the new state and the position inside the section: \<open>x z y\<close>, four bits each.\<close>

definition record_update :: "i32 \<times> i32 \<times> i32 \<Rightarrow> i32 \<Rightarrow> (i32 \<times> i32 \<times> i32) \<times> u32" where
  "record_update chunk rec = (case chunk of (cx, cy, cz) \<Rightarrow>
     let state = drop_bit 12 rec; local = rec AND 0xFFF;
         x = cx * 16 + (drop_bit 8 local AND 0xF);
         z = cz * 16 + (drop_bit 4 local AND 0xF);
         y = cy * 16 + (local AND 0xF)
     in ((x, y, z), state))"

fun apply_records :: "'st interner \<Rightarrow> i32 \<times> i32 \<times> i32 \<Rightarrow> i32 list \<Rightarrow> 'st world_op" where
  "apply_records intern chunk [] = pure_st (Ok ())"
| "apply_records intern chunk (rec # records) =
    (if sint rec < 0 then pure_st (Err Protocol)
     else case record_update chunk rec of ((x, y, z), state) \<Rightarrow>
       bind_st (set_block_state intern x y z state) (\<lambda>_. apply_records intern chunk records))"

definition apply_multi_block_change :: "'st interner \<Rightarrow> i32 \<times> i32 \<times> i32 \<Rightarrow> i32 list \<Rightarrow> 'st world_op" where
  "apply_multi_block_change intern chunk_coordinates records = apply_records intern chunk_coordinates records"

definition from_update_light :: "packet_update_light \<Rightarrow> chunk_light" where
  "from_update_light packet = \<lparr>cl_sky_mask = ul_sky_light_mask packet, cl_block_mask = ul_block_light_mask packet,
     cl_empty_sky_mask = ul_empty_sky_light_mask packet, cl_empty_block_mask = ul_empty_block_light_mask packet,
     cl_sky_arrays = ul_sky_light packet, cl_block_arrays = ul_block_light packet\<rparr>"

definition apply_light_update :: "'st interner \<Rightarrow> packet_update_light \<Rightarrow> 'st world_op" where
  "apply_light_update intern packet = (\<lambda>(w, st).
    let position = (ul_chunk_x packet, ul_chunk_z packet) in
    case w_chunks w position of
      None \<Rightarrow> (Err Protocol, (w, st))
    | Some current \<Rightarrow> store_chunk intern position (current\<lparr>ch_light := from_update_light packet\<rparr>) (w, st))"

fun entity_position :: "(block_entity \<Rightarrow> bool) \<Rightarrow> block_entity list \<Rightarrow> nat option" where
  "entity_position P [] = None"
| "entity_position P (e # es) = (if P e then Some 0 else map_option Suc (entity_position P es))"

definition update_entities :: "u8 \<Rightarrow> u8 \<Rightarrow> i16 \<Rightarrow> i32 \<Rightarrow> nbt option \<Rightarrow> block_entity list \<Rightarrow> block_entity list" where
  "update_entities local_x local_z y kind nbt entities =
    (let existing = entity_position (\<lambda>e. be_local_x e = local_x \<and> be_local_z e = local_z \<and> be_y e = y) entities;
         entity = \<lparr>be_local_x = local_x, be_local_z = local_z, be_y = y, be_kind = kind, be_nbt = nbt\<rparr>
     in case (nbt, existing) of
          (Some _, Some i) \<Rightarrow> entities[i := entity]
        | (Some _, None) \<Rightarrow> entities @ [entity]
        | (None, Some i) \<Rightarrow> take i entities @ drop (Suc i) entities
        | (None, None) \<Rightarrow> entities)"

definition apply_block_entity_update ::
  "'st interner \<Rightarrow> i32 \<Rightarrow> i16 \<Rightarrow> i32 \<Rightarrow> i32 \<Rightarrow> nbt option \<Rightarrow> 'st world_op" where
  "apply_block_entity_update intern x y z kind nbt = (\<lambda>(w, st).
    let position = (div16 x, div16 z) in
    case w_chunks w position of
      None \<Rightarrow> (Err Protocol, (w, st))
    | Some current \<Rightarrow>
        store_chunk intern position (current\<lparr>ch_block_entities :=
          update_entities (of_nat (rem16 x)) (of_nat (rem16 z)) y kind nbt (ch_block_entities current)\<rparr>) (w, st))"

section \<open>Packets that reach the world\<close>

text \<open>
  The branches of \<open>handle_packet\<close> (src/src/minecraft/play.rs) that call the world; an error
  leaves the handler and ends the session.
\<close>

datatype world_packet =
    MapChunk packet_map_chunk
  | UnloadChunk i32 i32
  | BlockChange i32 i16 i32 i32
  | MultiBlockChange "i32 \<times> i32 \<times> i32" "i32 list"
  | UpdateLight packet_update_light
  | TileEntityData i32 i16 i32 i32 "nbt option"

fun apply_world_packet :: "'st interner \<Rightarrow> world_packet \<Rightarrow> 'st world_op" where
  "apply_world_packet intern (MapChunk packet) = insert_chunk intern packet"
| "apply_world_packet intern (UnloadChunk x z) = (\<lambda>(w, st). (Ok (), (unload_chunk x z w, st)))"
| "apply_world_packet intern (BlockChange x y z type) = apply_block_change intern x y z type"
| "apply_world_packet intern (MultiBlockChange chunk records) = apply_multi_block_change intern chunk records"
| "apply_world_packet intern (UpdateLight packet) = apply_light_update intern packet"
| "apply_world_packet intern (TileEntityData x y z kind nbt) = apply_block_entity_update intern x y z kind nbt"

fun apply_world_packets :: "'st interner \<Rightarrow> world_packet list \<Rightarrow> 'st world_op" where
  "apply_world_packets intern [] = pure_st (Ok ())"
| "apply_world_packets intern (p # ps) =
    bind_st (apply_world_packet intern p) (\<lambda>_. apply_world_packets intern ps)"

section \<open>Coordinates\<close>

lemma sint_word32_eq: "- (2 ^ 31) \<le> k \<Longrightarrow> k < 2 ^ 31 \<Longrightarrow> sint (word_of_int k :: i32) = k"
  by (simp add: sint_sbintrunc' signed_take_bit_int_eq_self)

lemma word_of_sint: "word_of_int (sint x) = (x :: i32)"
  by simp

lemma sint_inject: "sint x = sint y \<Longrightarrow> x = (y :: i32)"
  by (metis word_of_sint)

lemma sint_div16: "sint (div16 x) = sint x div 16"
proof -
  have "- (2 ^ 31) \<le> sint x" "sint x < 2 ^ 31"
    using sint_ge [of x] sint_less [of x] by simp_all
  then have "- (2 ^ 31) \<le> sint x div 16" "sint x div 16 < 2 ^ 31"
    by auto
  then show ?thesis
    unfolding div16_def by (rule sint_word32_eq)
qed

lemma rem16_less [simp]: "rem16 x < 16"
  by (simp add: rem16_def nat_less_iff)

lemma block_index_less: "block_index x y z < BLOCKS_PER_SECTION"
proof -
  have "rem16 y * 16 + rem16 z \<le> 255"
    using rem16_less [of y] rem16_less [of z] by linarith
  moreover have "a * 16 + b < 16 * 16 * 16" if "a \<le> 255" "b < 16" for a b :: nat
    using that by simp
  ultimately show ?thesis
    unfolding block_index_def BLOCKS_PER_SECTION_def using rem16_less by blast
qed

lemma split_coordinate: "div16 x = div16 x' \<Longrightarrow> rem16 x = rem16 x' \<Longrightarrow> x = x'"
proof -
  assume "div16 x = div16 x'" "rem16 x = rem16 x'"
  then have "sint x div 16 = sint x' div 16" "sint x mod 16 = sint x' mod 16"
    by (metis sint_div16, simp add: rem16_def eq_nat_nat_iff)
  then have "sint x = sint x'"
    by (metis div_mult_mod_eq)
  then show "x = x'"
    by (rule sint_inject)
qed

lemma block_index_inject:
  assumes "block_index x y z = block_index x' y' z'"
  shows "rem16 x = rem16 x'" and "rem16 y = rem16 y'" and "rem16 z = rem16 z'"
proof -
  have split: "(k * 16 + rem16 v) mod 16 = rem16 v" for k v
    by simp
  show x: "rem16 x = rem16 x'"
    using arg_cong [OF assms, of "\<lambda>n. n mod 16"] unfolding block_index_def split .
  have "rem16 y * 16 + rem16 z = rem16 y' * 16 + rem16 z'"
    using assms x by (simp add: block_index_def)
  from arg_cong [OF this, of "\<lambda>n. n mod 16"] arg_cong [OF this, of "\<lambda>n. n div 16"]
  show "rem16 z = rem16 z'" "rem16 y = rem16 y'"
    by simp_all
qed

text \<open>A dimension whose top lies within the range of \<open>i32\<close>.\<close>

definition dimension_fits :: "dimension_type \<Rightarrow> bool" where
  "dimension_fits d \<longleftrightarrow> dimension_bounds_ok d \<and> sint (dim_min_y d) + sint (dim_height d) < 2 ^ 31"

definition in_height :: "dimension_type \<Rightarrow> i32 \<Rightarrow> bool" where
  "in_height d y \<longleftrightarrow> sint (dim_min_y d) \<le> sint y \<and> sint y < sint (dim_min_y d) + sint (dim_height d)"

lemma sint_add_exact:
  fixes x y :: i32
  assumes "- (2 ^ 31) \<le> sint x + sint y" "sint x + sint y < 2 ^ 31"
  shows "sint (x + y) = sint x + sint y"
proof -
  have "x + y = word_of_int (sint x + sint y)"
    by (simp only: of_int_add word_of_sint)
  then show ?thesis
    using sint_word32_eq [OF assms] by (simp only:)
qed

lemma sint_diff_exact:
  fixes x y :: i32
  assumes "- (2 ^ 31) \<le> sint x - sint y" "sint x - sint y < 2 ^ 31"
  shows "sint (x - y) = sint x - sint y"
proof -
  have "x - y = word_of_int (sint x - sint y)"
    by (simp only: of_int_diff word_of_sint)
  then show ?thesis
    using sint_word32_eq [OF assms] by (simp only:)
qed

lemma sint_dimension_top:
  assumes "dimension_fits d"
  shows "sint (dim_min_y d + dim_height d) = sint (dim_min_y d) + sint (dim_height d)"
proof (rule sint_add_exact)
  show "- (2 ^ 31) \<le> sint (dim_min_y d) + sint (dim_height d)"
    using sint_ge [of "dim_min_y d"] assms by (simp add: dimension_fits_def dimension_bounds_ok_def)
  show "sint (dim_min_y d) + sint (dim_height d) < 2 ^ 31"
    using assms by (simp add: dimension_fits_def)
qed

text \<open>
  The height above the bottom. Because the top fits, a wrapped difference can not fall into
  the sections of the dimension, so a block update that finds a section is in height.
\<close>

lemma height_difference:
  assumes "dimension_fits d"
  shows "in_height d y \<longleftrightarrow> 0 \<le> sint (y - dim_min_y d) \<and> sint (y - dim_min_y d) < sint (dim_height d)"
    and "in_height d y \<Longrightarrow> sint (y - dim_min_y d) = sint y - sint (dim_min_y d)"
proof -
  have ok: "dimension_bounds_ok d" and top: "sint (dim_min_y d) + sint (dim_height d) < 2 ^ 31"
    using assms by (auto simp: dimension_fits_def)
  have h: "0 < sint (dim_height d)"
    using ok by (auto simp: dimension_bounds_ok_def)
  have small: "sint (dim_height d) \<le> 4096"
    using dimension_height_sections [OF ok] by linarith
  have exact: "sint (y - dim_min_y d) = sint y - sint (dim_min_y d)" if "in_height d y"
  proof (rule sint_diff_exact)
    show "- (2 ^ 31) \<le> sint y - sint (dim_min_y d)" "sint y - sint (dim_min_y d) < 2 ^ 31"
      using that small by (auto simp: in_height_def)
  qed
  show "in_height d y \<Longrightarrow> sint (y - dim_min_y d) = sint y - sint (dim_min_y d)"
    by (rule exact)
  have "in_height d y" if k: "0 \<le> sint (y - dim_min_y d)" "sint (y - dim_min_y d) < sint (dim_height d)"
  proof -
    let ?k = "sint (y - dim_min_y d)"
    have "sint (dim_min_y d + (y - dim_min_y d)) = sint (dim_min_y d) + ?k"
    proof (rule sint_add_exact)
      show "- (2 ^ 31) \<le> sint (dim_min_y d) + ?k" "sint (dim_min_y d) + ?k < 2 ^ 31"
        using k top sint_ge [of "dim_min_y d"] by simp_all
    qed
    moreover have "dim_min_y d + (y - dim_min_y d) = y"
      by simp
    ultimately have "sint y = sint (dim_min_y d) + ?k"
      by (simp only:)
    then show ?thesis
      using k by (simp add: in_height_def)
  qed
  moreover have "0 \<le> sint (y - dim_min_y d) \<and> sint (y - dim_min_y d) < sint (dim_height d)" if "in_height d y"
    using that unfolding exact [OF that] by (simp add: in_height_def)
  ultimately show "in_height d y \<longleftrightarrow> 0 \<le> sint (y - dim_min_y d) \<and> sint (y - dim_min_y d) < sint (dim_height d)"
    by blast
qed

lemma same_section_same_y:
  assumes "dimension_fits d" "in_height d y" "in_height d y'"
    and "sint (y - dim_min_y d) div 16 = sint (y' - dim_min_y d) div 16" "rem16 y = rem16 y'"
  shows "y = y'"
proof -
  let ?k = "sint y - sint (dim_min_y d)" and ?k' = "sint y' - sint (dim_min_y d)"
  have "sint (dim_min_y d) mod 16 = 0"
    using assms(1) by (simp add: dimension_fits_def dimension_bounds_ok_def)
  then have "?k mod 16 = sint y mod 16" "?k' mod 16 = sint y' mod 16"
    by (simp_all add: mod_diff_eq [symmetric])
  then have "?k mod 16 = ?k' mod 16"
    using assms(5) by (simp add: rem16_def eq_nat_nat_iff)
  moreover have "?k div 16 = ?k' div 16"
    using assms(1-4) by (simp add: height_difference(2))
  ultimately have "sint y = sint y'"
    by (metis div_mult_mod_eq diff_add_cancel)
  then show ?thesis
    by (rule sint_inject)
qed

section \<open>Well-formed worlds\<close>

definition section_ok :: "chunk_section \<Rightarrow> bool" where
  "section_ok s \<longleftrightarrow> container_ok BLOCKS_PER_SECTION (cs_block_states s) \<and>
     container_ok BIOMES_PER_SECTION (cs_biomes s) \<and> unat (cs_non_air_blocks s) \<le> BLOCKS_PER_SECTION"

definition chunk_ok :: "dimension_type \<Rightarrow> chunk_position \<Rightarrow> chunk_snapshot \<Rightarrow> bool" where
  "chunk_ok d position c \<longleftrightarrow> (ch_x c, ch_z c) = position \<and> length (ch_sections c) = section_count d \<and>
     (\<forall>s \<in> set (ch_sections c). section_ok s)"

definition world_ok :: "world \<Rightarrow> bool" where
  "world_ok w \<longleftrightarrow> dimension_fits (w_dimension w) \<and>
     (\<forall>position c. w_chunks w position = Some c \<longrightarrow> chunk_ok (w_dimension w) position c)"

lemma new_world_ok: "dimension_fits d \<Longrightarrow> world_ok (new_world d)"
  by (simp add: world_ok_def new_world_def)

lemma unload_chunk_ok: "world_ok w \<Longrightarrow> world_ok (unload_chunk x z w)"
  by (simp add: world_ok_def unload_chunk_def)

lemma decode_section_ok:
  assumes "decode_section input = Ok (s, input')"
  shows "section_ok s"
proof -
  have "unat n \<le> BLOCKS_PER_SECTION" if "\<not> sint n < 0" "\<not> int BLOCKS_PER_SECTION < sint n" for n :: i16
  proof -
    have "take_bit 16 (sint n) = sint n"
      using that(1) sint_less [of n] by (intro take_bit_int_eq_self) simp_all
    then have "uint n = sint n"
      using uint_sint [of n] by simp
    then show ?thesis
      using that(2) by (simp add: not_less flip: of_nat_le_iff [where ?'a = int])
  qed
  then show ?thesis
    using assms
    by (auto simp: decode_section_def section_ok_def MAX_PALETTE_BITS_def intro: decode_container_ok split: if_splits)
qed

lemma decode_sections_ok:
  "decode_sections n input = Ok (sections, input') \<Longrightarrow> length sections = n \<and> (\<forall>s \<in> set sections. section_ok s)"
  by (induction n arbitrary: input sections input') (auto dest!: decode_section_ok)

lemma decode_snapshot_ok:
  "decode_snapshot packet (section_count d) = Ok c \<Longrightarrow> chunk_ok d (mc_x packet, mc_z packet) c"
  by (auto simp: decode_snapshot_def decode_chunk_def chunk_ok_def dest!: decode_sections_ok split: if_splits)

section \<open>The contract of the interner\<close>

text \<open>
  Interning may fail and may change its own state, but the chunk that comes back has the
  position and the sections of the chunk that went in. \<open>st_ok\<close> is the invariant of the
  interner's state. The law does not ask for the very same chunk: the shared store compares
  block-entity data as Rust compares floats, for which \<open>0.0\<close> and \<open>-0.0\<close> are equal.
\<close>

definition same_terrain :: "chunk_snapshot \<Rightarrow> chunk_snapshot \<Rightarrow> bool" where
  "same_terrain c c' \<longleftrightarrow> ch_x c = ch_x c' \<and> ch_z c = ch_z c' \<and> ch_sections c = ch_sections c'"

lemma same_terrain_chunk_ok: "same_terrain c' c \<Longrightarrow> chunk_ok d position c' \<longleftrightarrow> chunk_ok d position c"
  by (simp add: same_terrain_def chunk_ok_def)

locale chunk_interner =
  fixes intern :: "'st interner" and st_ok :: "'st \<Rightarrow> bool"
  assumes intern_keeps: "st_ok st \<Longrightarrow> intern c st = (r, st') \<Longrightarrow> st_ok st'"
    and intern_same: "st_ok st \<Longrightarrow> intern c st = (Ok c', st') \<Longrightarrow> same_terrain c' c"
begin

lemma store_chunk_cases:
  assumes "store_chunk intern position c (w, st) = (r, (w', st'))" "st_ok st"
  obtains (failed) e where "r = Err e" "w' = w" "st_ok st'"
  | (stored) c' where "r = Ok ()" "w' = w\<lparr>w_chunks := (w_chunks w)(position \<mapsto> c')\<rparr>" "st_ok st'" "same_terrain c' c"
proof (cases "intern c st")
  case (Pair result st1)
  show thesis
  proof (cases result)
    case (Inl e)
    then show thesis
      using assms Pair intern_keeps [OF assms(2)] failed by (auto simp: store_chunk_def)
  next
    case (Inr c')
    then have "same_terrain c' c" "st_ok st1"
      using Pair intern_same [OF assms(2)] intern_keeps [OF assms(2)] by auto
    then show thesis
      using assms(1) Pair Inr stored [of c'] by (simp add: store_chunk_def)
  qed
qed

lemma store_chunk_ok:
  assumes "store_chunk intern position c (w, st) = (r, (w', st'))" "st_ok st" "world_ok w"
    and "chunk_ok (w_dimension w) position c"
  shows "world_ok w' \<and> st_ok st'"
  using assms(1,2)
  by (cases rule: store_chunk_cases) (use assms(3,4) in \<open>auto simp: world_ok_def same_terrain_chunk_ok\<close>)

lemma insert_chunk_ok:
  assumes "insert_chunk intern packet (w, st) = (r, (w', st'))" "st_ok st" "world_ok w"
  shows "world_ok w' \<and> st_ok st'"
proof (cases "decode_snapshot packet (section_count (w_dimension w))")
  case (Inl e)
  then show ?thesis
    using assms by (simp add: insert_chunk_def)
next
  case (Inr c)
  then have "chunk_ok (w_dimension w) (ch_x c, ch_z c) c"
    using decode_snapshot_ok [OF Inr] by (simp add: chunk_ok_def)
  then show ?thesis
    using assms Inr store_chunk_ok [of _ c w st r w' st'] by (simp add: insert_chunk_def)
qed

text \<open>A block update, taken apart: it leaves the world alone or replaces one section.\<close>

lemma set_block_state_cases:
  assumes "set_block_state intern x y z state (w, st) = (r, (w', st'))" "st_ok st"
  obtains (failed) e where "r = Err e" "w' = w" "st_ok st'"
  | (stored) c i states c' where "r = Ok ()" "st_ok st'" "w_chunks w (div16 x, div16 z) = Some c"
      "i < length (ch_sections c)" "int i = sint (y - dim_min_y (w_dimension w)) div 16"
      "materialize_and_set (cs_block_states (ch_sections c ! i)) BLOCKS_PER_SECTION (block_index x y z) state = Ok states"
      "w' = w\<lparr>w_chunks := (w_chunks w)((div16 x, div16 z) \<mapsto> c')\<rparr>"
      "same_terrain c' (c\<lparr>ch_sections := (ch_sections c)[i := (ch_sections c ! i)\<lparr>cs_block_states := states\<rparr>]\<rparr>)"
proof (cases "w_chunks w (div16 x, div16 z)")
  case None
  then show thesis
    using assms failed by (auto simp: set_block_state_def)
next
  case (Some c)
  let ?i = "sint (y - dim_min_y (w_dimension w)) div 16"
  show thesis
  proof (cases "?i < 0 \<or> length (ch_sections c) \<le> nat ?i")
    case True
    then show thesis
      using assms failed Some by (auto simp: set_block_state_def Let_def)
  next
    case in_range: False
    show thesis
    proof (cases "materialize_and_set (cs_block_states (ch_sections c ! nat ?i)) BLOCKS_PER_SECTION (block_index x y z) state")
      case (Inl e)
      then show thesis
        using assms failed Some in_range by (auto simp: set_block_state_def Let_def)
    next
      case (Inr states)
      let ?c = "c\<lparr>ch_sections := (ch_sections c)[nat ?i := (ch_sections c ! nat ?i)\<lparr>cs_block_states := states\<rparr>]\<rparr>"
      have "store_chunk intern (div16 x, div16 z) ?c (w, st) = (r, (w', st'))"
        using assms(1) Some in_range Inr by (simp add: set_block_state_def Let_def)
      then show thesis
        using assms(2)
      proof (cases rule: store_chunk_cases)
        case failed
        then show ?thesis
          by (rule that(1))
      next
        case (stored c')
        show ?thesis
          by (rule that(2) [OF stored(1,3) Some _ _ Inr stored(2,4)]) (use in_range in auto)
      qed
    qed
  qed
qed

lemma set_block_state_ok:
  assumes "set_block_state intern x y z state (w, st) = (r, (w', st'))" "st_ok st" "world_ok w"
  shows "world_ok w' \<and> st_ok st'"
  using assms(1,2)
proof (cases rule: set_block_state_cases)
  case (stored c i states c')
  have "chunk_ok (w_dimension w) (div16 x, div16 z) c"
    using assms(3) stored(3) by (simp add: world_ok_def)
  then have "chunk_ok (w_dimension w) (div16 x, div16 z)
      (c\<lparr>ch_sections := (ch_sections c)[i := (ch_sections c ! i)\<lparr>cs_block_states := states\<rparr>]\<rparr>)"
    using materialize_and_set_Ok(2) [OF stored(6)] nth_mem [OF stored(4)]
    by (auto simp: chunk_ok_def section_ok_def dest!: set_update_subset_insert [THEN subsetD])
  then show ?thesis
    using assms(3) stored(2,7,8) by (simp add: world_ok_def same_terrain_chunk_ok)
qed (use assms(3) in simp)

end

section \<open>Block updates as updates of a map\<close>

text \<open>The blocks a world shows, as a map from coordinates.\<close>

definition blocks :: "world \<Rightarrow> i32 \<times> i32 \<times> i32 \<rightharpoonup> u32" where
  "blocks w = (\<lambda>(x, y, z). block_state w x y z)"

text \<open>A list of block updates applied to a map.\<close>

definition update_blocks ::
  "((i32 \<times> i32 \<times> i32) \<times> u32) list \<Rightarrow> (i32 \<times> i32 \<times> i32 \<rightharpoonup> u32) \<Rightarrow> (i32 \<times> i32 \<times> i32 \<rightharpoonup> u32)" where
  "update_blocks updates m = fold (\<lambda>(p, state) m. m(p \<mapsto> state)) updates m"

lemma block_state_eq:
  assumes "dimension_fits (w_dimension w)"
  shows "block_state w x y z =
    (if in_height (w_dimension w) y then
       case w_chunks w (div16 x, div16 z) of
         None \<Rightarrow> None
       | Some c \<Rightarrow>
           let i = nat (sint (y - dim_min_y (w_dimension w)) div 16) in
           if i < length (ch_sections c)
           then container_get (cs_block_states (ch_sections c ! i)) (block_index x y z) else None
     else None)"
  by (auto simp: block_state_def Let_def in_height_def sint_dimension_top [OF assms])

context chunk_interner
begin

lemma set_block_state_refines:
  assumes "set_block_state intern x y z state (w, st) = (Ok (), (w', st'))" "st_ok st" "world_ok w"
  shows "block_state w' x' y' z' = (if (x', y', z') = (x, y, z) then Some state else block_state w x' y' z')"
  using assms(1,2)
proof (cases rule: set_block_state_cases)
  case (stored c i states c')
  let ?d = "w_dimension w"
  have fits: "dimension_fits ?d" and c: "chunk_ok ?d (div16 x, div16 z) c"
    using assms(3) stored(3) by (auto simp: world_ok_def)
  have "int i < int (section_count ?d)"
    using c stored(4) by (simp add: chunk_ok_def)
  moreover have "sint (dim_height ?d) = 16 * int (section_count ?d)"
    using fits dimension_height_sections(1) by (simp add: dimension_fits_def)
  ultimately have "0 \<le> sint (y - dim_min_y ?d)" "sint (y - dim_min_y ?d) < sint (dim_height ?d)"
    using stored(5) by auto
  then have y: "in_height ?d y"
    using height_difference(1) [OF fits] by blast
  have d': "w_dimension w' = ?d"
    by (simp add: stored(7))
  have c': "ch_sections c' = (ch_sections c)[i := (ch_sections c ! i)\<lparr>cs_block_states := states\<rparr>]"
    using stored(8) by (simp add: same_terrain_def)
  note get = materialize_and_set_Ok(3) [OF stored(6) block_index_less]
  show ?thesis
  proof (cases "in_height ?d y' \<and> (div16 x', div16 z') = (div16 x, div16 z) \<and>
      sint (y' - dim_min_y ?d) div 16 = int i")
    case True
    then have "(x', y', z') = (x, y, z)" if "block_index x' y' z' = block_index x y z"
      using block_index_inject [OF that] split_coordinate [of x' x] split_coordinate [of z' z]
        same_section_same_y [OF fits _ y, of y'] stored(5) by simp
    then have "block_index x' y' z' = block_index x y z \<longleftrightarrow> (x', y', z') = (x, y, z)"
      by auto
    moreover have "block_state w' x' y' z' = container_get states (block_index x' y' z')"
      using True stored(4) fits by (simp add: block_state_eq d' Let_def stored(7) c')
    moreover have "block_state w x' y' z' = container_get (cs_block_states (ch_sections c ! i)) (block_index x' y' z')"
      using True stored(3,4) fits by (simp add: block_state_eq Let_def)
    ultimately show ?thesis
      using get by simp
  next
    case False
    then have "(x', y', z') \<noteq> (x, y, z)"
      using y stored(5) by auto
    moreover have "block_state w' x' y' z' = block_state w x' y' z'"
    proof (cases "in_height ?d y' \<and> (div16 x', div16 z') = (div16 x, div16 z)")
      case True
      then have "0 \<le> sint (y' - dim_min_y ?d)"
        using height_difference(1) [OF fits] by blast
      then have "nat (sint (y' - dim_min_y ?d) div 16) \<noteq> i"
        using False True by auto
      then show ?thesis
        using True stored(3) fits by (simp add: block_state_eq d' Let_def stored(7) c')
    next
      case False
      then show ?thesis
        using fits by (auto simp: block_state_eq d' stored(7) Let_def split: option.split)
    qed
    ultimately show ?thesis
      by auto
  qed
qed simp

lemma apply_records_step:
  assumes "apply_records intern chunk (rec # records) (w, st) = (r, (w', st'))" "record_update chunk rec = ((x, y, z), state)"
  obtains (negative) "r = Err Protocol" "w' = w" "st' = st"
  | (failed) e where "set_block_state intern x y z state (w, st) = (Err e, (w', st'))" "r = Err e"
  | (updated) w1 st1 where "set_block_state intern x y z state (w, st) = (Ok (), (w1, st1))"
      "apply_records intern chunk records (w1, st1) = (r, (w', st'))"
proof (cases "sint rec < 0")
  case True
  then show thesis
    using assms negative by simp
next
  case False
  then have "bind_st (set_block_state intern x y z state) (\<lambda>_. apply_records intern chunk records) (w, st) = (r, (w', st'))"
    using assms by simp
  then show thesis
    by (cases rule: bind_st_cases) (use failed updated in auto)
qed

lemma apply_records_ok:
  assumes "apply_records intern chunk records (w, st) = (r, (w', st'))" "st_ok st" "world_ok w"
  shows "world_ok w' \<and> st_ok st'"
  using assms
proof (induction records arbitrary: w st)
  case (Cons rec records)
  obtain x y z state where u: "record_update chunk rec = ((x, y, z), state)"
    by (metis prod.exhaust)
  from Cons.prems(1) u show ?case
    using Cons.prems(2,3) Cons.IH set_block_state_ok by (cases rule: apply_records_step) blast+
qed simp

lemma apply_records_refines:
  assumes "apply_records intern chunk records (w, st) = (Ok (), (w', st'))" "st_ok st" "world_ok w"
  shows "blocks w' = update_blocks (map (record_update chunk) records) (blocks w)"
  using assms
proof (induction records arbitrary: w st)
  case Nil
  then show ?case
    by (simp add: update_blocks_def)
next
  case (Cons rec records)
  obtain x y z state where u: "record_update chunk rec = ((x, y, z), state)"
    by (metis prod.exhaust)
  from Cons.prems(1) u show ?case
  proof (cases rule: apply_records_step)
    case (updated w1 st1)
    have "world_ok w1" "st_ok st1"
      using set_block_state_ok [OF updated(1) Cons.prems(2,3)] by auto
    then have "blocks w' = update_blocks (map (record_update chunk) records) (blocks w1)"
      using Cons.IH updated(2) by blast
    moreover have "blocks w1 = (blocks w)((x, y, z) \<mapsto> state)"
      using set_block_state_refines [OF updated(1) Cons.prems(2,3)] by (auto simp: blocks_def fun_eq_iff)
    ultimately show ?thesis
      by (simp add: u update_blocks_def)
  qed auto
qed

end

text \<open>What a packet means for the blocks: the specification of the world.\<close>

definition forget_chunk :: "chunk_position \<Rightarrow> (i32 \<times> i32 \<times> i32 \<rightharpoonup> u32) \<Rightarrow> (i32 \<times> i32 \<times> i32 \<rightharpoonup> u32)" where
  "forget_chunk position m = (\<lambda>(x, y, z). if (div16 x, div16 z) = position then None else m (x, y, z))"

definition chunk_blocks :: "dimension_type \<Rightarrow> packet_map_chunk \<Rightarrow> i32 \<times> i32 \<times> i32 \<rightharpoonup> u32" where
  "chunk_blocks d packet = (case decode_snapshot packet (section_count d) of
     Err _ \<Rightarrow> (\<lambda>_. None)
   | Ok c \<Rightarrow> blocks \<lparr>w_dimension = d, w_chunks = [(mc_x packet, mc_z packet) \<mapsto> c]\<rparr>)"

fun packet_effect ::
  "dimension_type \<Rightarrow> world_packet \<Rightarrow> (i32 \<times> i32 \<times> i32 \<rightharpoonup> u32) \<Rightarrow> (i32 \<times> i32 \<times> i32 \<rightharpoonup> u32)" where
  "packet_effect d (MapChunk packet) m = forget_chunk (mc_x packet, mc_z packet) m ++ chunk_blocks d packet"
| "packet_effect d (UnloadChunk x z) m = forget_chunk (x, z) m"
| "packet_effect d (BlockChange x y z type) m = m((x, scast y, z) \<mapsto> type)"
| "packet_effect d (MultiBlockChange chunk records) m = update_blocks (map (record_update chunk) records) m"
| "packet_effect d (UpdateLight packet) m = m"
| "packet_effect d (TileEntityData x y z kind nbt) m = m"

lemma blocks_store:
  "blocks (w\<lparr>w_chunks := (w_chunks w)(position \<mapsto> c)\<rparr>) =
    forget_chunk position (blocks w) ++ blocks \<lparr>w_dimension = w_dimension w, w_chunks = [position \<mapsto> c]\<rparr>"
proof (rule ext, clarify)
  fix x y z
  show "blocks (w\<lparr>w_chunks := (w_chunks w)(position \<mapsto> c)\<rparr>) (x, y, z) =
    (forget_chunk position (blocks w) ++ blocks \<lparr>w_dimension = w_dimension w, w_chunks = [position \<mapsto> c]\<rparr>) (x, y, z)"
    by (cases "(div16 x, div16 z) = position")
      (auto simp: blocks_def forget_chunk_def map_add_def block_state_def Let_def split: option.split)
qed

lemma blocks_same_sections:
  assumes "w_chunks w position = Some c" "ch_sections c' = ch_sections c"
  shows "blocks (w\<lparr>w_chunks := (w_chunks w)(position \<mapsto> c')\<rparr>) = blocks w"
  using assms by (auto simp: blocks_def block_state_def Let_def fun_eq_iff split: option.split)

lemma blocks_unload: "blocks (unload_chunk x z w) = forget_chunk (x, z) (blocks w)"
  by (auto simp: blocks_def forget_chunk_def unload_chunk_def block_state_def Let_def fun_eq_iff)

context chunk_interner
begin

lemma chunk_update_cases:
  assumes "(case w_chunks w position of None \<Rightarrow> (Err Protocol, (w, st))
      | Some current \<Rightarrow> store_chunk intern position (f current) (w, st)) = (r, (w', st'))" "st_ok st"
  obtains (failed) e where "r = Err e" "w' = w" "st_ok st'"
  | (stored) c c' where "r = Ok ()" "w_chunks w position = Some c" "st_ok st'"
      "w' = w\<lparr>w_chunks := (w_chunks w)(position \<mapsto> c')\<rparr>" "same_terrain c' (f c)"
proof (cases "w_chunks w position")
  case None
  then show thesis
    using assms failed by auto
next
  case (Some c)
  then have "store_chunk intern position (f c) (w, st) = (r, (w', st'))"
    using assms(1) by simp
  then show thesis
    using assms(2)
  proof (cases rule: store_chunk_cases)
    case failed
    then show ?thesis
      by (rule that(1))
  next
    case (stored c')
    then show ?thesis
      using that(2) Some by blast
  qed
qed

lemma chunk_update_ok:
  assumes "(case w_chunks w position of None \<Rightarrow> (Err Protocol, (w, st))
      | Some current \<Rightarrow> store_chunk intern position (f current) (w, st)) = (r, (w', st'))" "st_ok st" "world_ok w"
    and "\<And>c. ch_sections (f c) = ch_sections c \<and> ch_x (f c) = ch_x c \<and> ch_z (f c) = ch_z c"
  shows "world_ok w' \<and> st_ok st'" and "r = Ok () \<Longrightarrow> blocks w' = blocks w"
proof -
  show "world_ok w' \<and> st_ok st'"
    using assms(1,2)
    by (cases rule: chunk_update_cases) (use assms(3,4) in \<open>auto simp: world_ok_def chunk_ok_def same_terrain_def\<close>)
  show "r = Ok () \<Longrightarrow> blocks w' = blocks w"
    using assms(1,2)
    by (cases rule: chunk_update_cases) (use assms(4) blocks_same_sections in \<open>auto simp: same_terrain_def\<close>)
qed

lemma apply_world_packet_ok:
  assumes "apply_world_packet intern p (w, st) = (r, (w', st'))" "st_ok st" "world_ok w"
  shows "world_ok w' \<and> st_ok st'"
proof (cases p)
  case (MapChunk packet)
  then show ?thesis
    using insert_chunk_ok assms by simp
next
  case (UnloadChunk x z)
  then show ?thesis
    using unload_chunk_ok assms by auto
next
  case (BlockChange x y z type)
  then show ?thesis
    using set_block_state_ok assms by (simp add: apply_block_change_def)
next
  case (MultiBlockChange chunk records)
  then show ?thesis
    using apply_records_ok assms by (simp add: apply_multi_block_change_def)
next
  case (UpdateLight packet)
  then show ?thesis
    using chunk_update_ok(1) [where position = "(ul_chunk_x packet, ul_chunk_z packet)"
        and f = "\<lambda>c. c\<lparr>ch_light := from_update_light packet\<rparr>"] assms
    by (simp add: apply_light_update_def Let_def)
next
  case (TileEntityData x y z kind nbt)
  then show ?thesis
    using chunk_update_ok(1) [where position = "(div16 x, div16 z)" and f = "\<lambda>c. c\<lparr>ch_block_entities :=
        update_entities (of_nat (rem16 x)) (of_nat (rem16 z)) y kind nbt (ch_block_entities c)\<rparr>"] assms
    by (simp add: apply_block_entity_update_def Let_def)
qed

lemma insert_chunk_effect:
  assumes "insert_chunk intern packet (w, st) = (Ok (), (w', st'))" "st_ok st"
  shows "blocks w' = packet_effect (w_dimension w) (MapChunk packet) (blocks w)"
proof -
  obtain c where c: "decode_snapshot packet (section_count (w_dimension w)) = Ok c"
    "store_chunk intern (ch_x c, ch_z c) c (w, st) = (Ok (), (w', st'))"
    using assms(1) by (auto simp: insert_chunk_def split: sum.splits)
  have pos: "(ch_x c, ch_z c) = (mc_x packet, mc_z packet)"
    using decode_snapshot_ok [OF c(1)] by (simp add: chunk_ok_def)
  from c(2) assms(2) obtain c' where
    w': "w' = w\<lparr>w_chunks := (w_chunks w)((mc_x packet, mc_z packet) \<mapsto> c')\<rparr>" and terrain: "same_terrain c' c"
    unfolding pos by (cases rule: store_chunk_cases) auto
  have "blocks \<lparr>w_dimension = d, w_chunks = [position \<mapsto> c']\<rparr> = blocks \<lparr>w_dimension = d, w_chunks = [position \<mapsto> c]\<rparr>" for d position
    using terrain blocks_same_sections [of "\<lparr>w_dimension = d, w_chunks = [position \<mapsto> c]\<rparr>" position c c']
    by (simp add: same_terrain_def)
  then show ?thesis
    by (simp add: w' blocks_store chunk_blocks_def c(1))
qed

lemma apply_world_packet_effect:
  assumes "apply_world_packet intern p (w, st) = (Ok (), (w', st'))" "st_ok st" "world_ok w"
  shows "blocks w' = packet_effect (w_dimension w) p (blocks w)"
proof (cases p)
  case (MapChunk packet)
  then show ?thesis
    using insert_chunk_effect assms by simp
next
  case (UnloadChunk x z)
  then show ?thesis
    using assms by (auto simp: blocks_unload)
next
  case (BlockChange x y z type)
  then show ?thesis
    using set_block_state_refines assms by (auto simp: apply_block_change_def blocks_def fun_eq_iff)
next
  case (MultiBlockChange chunk records)
  then show ?thesis
    using apply_records_refines assms by (simp add: apply_multi_block_change_def)
next
  case (UpdateLight packet)
  then show ?thesis
    using chunk_update_ok(2) [where position = "(ul_chunk_x packet, ul_chunk_z packet)"
        and f = "\<lambda>c. c\<lparr>ch_light := from_update_light packet\<rparr>"] assms
    by (simp add: apply_light_update_def Let_def)
next
  case (TileEntityData x y z kind nbt)
  then show ?thesis
    using chunk_update_ok(2) [where position = "(div16 x, div16 z)" and f = "\<lambda>c. c\<lparr>ch_block_entities :=
        update_entities (of_nat (rem16 x)) (of_nat (rem16 z)) y kind nbt (ch_block_entities c)\<rparr>"] assms
    by (simp add: apply_block_entity_update_def Let_def)
qed

lemma store_chunk_dimension:
  "w_dimension (fst (snd (store_chunk intern position c (w, st)))) = w_dimension w"
  by (simp add: store_chunk_def split: prod.split sum.split)

lemma set_block_state_dimension:
  "w_dimension (fst (snd (set_block_state intern x y z state (w, st)))) = w_dimension w"
  by (simp add: set_block_state_def Let_def store_chunk_dimension split: option.split sum.split)

lemma apply_records_dimension:
  "w_dimension (fst (snd (apply_records intern chunk records (w, st)))) = w_dimension w"
proof (induction records arbitrary: w st)
  case (Cons rec records)
  obtain x y z state where u: "record_update chunk rec = ((x, y, z), state)"
    by (metis prod.exhaust)
  obtain r w1 st1 where step: "set_block_state intern x y z state (w, st) = (r, (w1, st1))"
    by (metis prod.exhaust)
  then have "w_dimension w1 = w_dimension w"
    using set_block_state_dimension [of x y z state w st] by simp
  then show ?case
    using Cons.IH [of w1 st1] by (simp add: u bind_st_def step split: sum.split)
qed simp

lemma apply_world_packet_dimension:
  "w_dimension (fst (snd (apply_world_packet intern p (w, st)))) = w_dimension w"
  by (cases p) (simp_all add: insert_chunk_def unload_chunk_def apply_block_change_def
      apply_multi_block_change_def apply_light_update_def apply_block_entity_update_def Let_def
      store_chunk_dimension set_block_state_dimension apply_records_dimension split: sum.split option.split)

lemma apply_world_packets_ok:
  assumes "apply_world_packets intern ps (w, st) = (r, (w', st'))" "st_ok st" "world_ok w"
  shows "world_ok w' \<and> st_ok st' \<and> w_dimension w' = w_dimension w"
  using assms
proof (induction ps arbitrary: w st)
  case (Cons p ps)
  obtain r1 w1 st1 where step: "apply_world_packet intern p (w, st) = (r1, (w1, st1))"
    by (metis prod.exhaust)
  then have "world_ok w1 \<and> st_ok st1" "w_dimension w1 = w_dimension w"
    using apply_world_packet_ok Cons.prems(2,3) apply_world_packet_dimension [of p w st] by auto
  then show ?case
    using Cons.IH [of w1 st1] Cons.prems(1) step by (cases r1) (auto simp: bind_st_def)
qed simp

lemma apply_world_packets_effect:
  assumes "apply_world_packets intern ps (w, st) = (Ok (), (w', st'))" "st_ok st" "world_ok w"
  shows "blocks w' = fold (packet_effect (w_dimension w)) ps (blocks w)"
  using assms
proof (induction ps arbitrary: w st)
  case (Cons p ps)
  then obtain w1 st1 where step: "apply_world_packet intern p (w, st) = (Ok (), (w1, st1))"
    and rest: "apply_world_packets intern ps (w1, st1) = (Ok (), (w', st'))"
    by (auto simp: bind_st_Ok)
  then have "world_ok w1 \<and> st_ok st1" "w_dimension w1 = w_dimension w"
    using apply_world_packet_ok Cons.prems(2,3) apply_world_packet_dimension [of p w st] by auto
  then show ?case
    using Cons.IH [OF rest] apply_world_packet_effect [OF step Cons.prems(2,3)] by simp
qed simp

end

text \<open>A client without a shared store owns its chunks; its interner has no state.\<close>

definition intern_independent :: "unit interner" where
  "intern_independent c = pure_st (Ok c)"

interpretation independent: chunk_interner intern_independent "\<lambda>_. True"
  by unfold_locales (simp_all add: intern_independent_def same_terrain_def)

section \<open>Properties\<close>

definition sample_dimension :: dimension_type where
  "sample_dimension = \<lparr>dim_key = ''flat'', dim_min_y = - 16, dim_height = 16, dim_logical_height = 16,
     dim_coordinate_scale = f64_one, dim_ultrawarm = False, dim_has_ceiling = False\<rparr>"

text \<open>One section of a single block state 7: bit width 0, the value, no longs, for blocks and for biomes.\<close>

definition sample_chunk :: packet_map_chunk where
  "sample_chunk = \<lparr>mc_x = - 1, mc_z = 0, mc_heightmaps = NbtCompound [],
     mc_chunk_data = [0x10, 0x00, 0, 7, 0, 0, 1, 0], mc_block_entities = [],
     mc_sky_light_mask = [], mc_block_light_mask = [], mc_empty_sky_light_mask = [],
     mc_empty_block_light_mask = [], mc_sky_light = [], mc_block_light = []\<rparr>"

lemma sample_dimension_fits: "dimension_fits sample_dimension"
  by code_simp

text \<open>C4: The stored chunks refine a map from coordinates to block states. Start from an empty
  world in a dimension whose bounds were accepted and whose top fits \<open>i32\<close>, and let any
  packets for the world arrive. When they are all accepted, the block seen at any coordinates
  is the one the specification gives: a chunk packet replaces the blocks of its column, an
  unload forgets them, block and multi-block changes set exactly the blocks they name, and
  light and block-entity packets change no block. No packing, palette or section boundary
  shows.\<close>

theorem world_packets_refine:
  assumes "dimension_fits d"
    and "apply_world_packets intern_independent ps (new_world d, ()) = (Ok (), (w, ()))"
  shows "blocks w = fold (packet_effect d) ps (\<lambda>_. None)"
proof -
  have "blocks (new_world d) = (\<lambda>_. None)"
    by (auto simp: blocks_def block_state_def new_world_def Let_def)
  then show ?thesis
    using independent.apply_world_packets_effect [OF assms(2) TrueI new_world_ok [OF assms(1)]]
    by (simp add: new_world_def)
qed

text \<open>What the sample packet decodes to.\<close>

definition sample_snapshot :: chunk_snapshot where
  "sample_snapshot = \<lparr>ch_x = - 1, ch_z = 0,
     ch_sections = [\<lparr>cs_non_air_blocks = 4096, cs_block_states = Single 7, cs_biomes = Single 1\<rparr>],
     ch_heightmaps = NbtCompound [], ch_block_entities = [], ch_light = from_map_chunk sample_chunk\<rparr>"

lemma sample_chunk_decodes: "decode_snapshot sample_chunk (section_count sample_dimension) = Ok sample_snapshot"
  by code_simp

lemma set_block_state_independent:
  assumes "w_chunks w (div16 x, div16 z) = Some c" "sint (y - dim_min_y (w_dimension w)) div 16 = int i"
    and "i < length (ch_sections c)"
    and "materialize_and_set (cs_block_states (ch_sections c ! i)) BLOCKS_PER_SECTION (block_index x y z) state = Ok states"
  shows "\<exists>w'. set_block_state intern_independent x y z state (w, ()) = (Ok (), (w', ()))"
  using assms by (simp add: set_block_state_def Let_def store_chunk_def intern_independent_def)

lemma sample_packets_accepted:
  "\<exists>w. apply_world_packets intern_independent [MapChunk sample_chunk, BlockChange (- 1) (- 16) 0 9]
     (new_world sample_dimension, ()) = (Ok (), (w, ()))"
proof -
  let ?w = "(new_world sample_dimension)\<lparr>w_chunks := [(- 1, 0) \<mapsto> sample_snapshot]\<rparr>"
  have loaded: "insert_chunk intern_independent sample_chunk (new_world sample_dimension, ()) = (Ok (), (?w, ()))"
    using sample_chunk_decodes
    by (simp add: insert_chunk_def new_world_def store_chunk_def intern_independent_def sample_snapshot_def)
  have "\<exists>states. materialize_and_set (Single 7) BLOCKS_PER_SECTION (block_index (- 1) (- 16) 0) 9 = Ok states"
    unfolding materialize_and_set_total using block_index_less by simp
  then obtain states where
    states: "materialize_and_set (Single 7) BLOCKS_PER_SECTION (block_index (- 1) (- 16) 0) 9 = Ok states"
    by blast
  have pos: "div16 (- 1) = - 1" "div16 0 = 0" and index: "sint ((- 16 :: i32) - dim_min_y sample_dimension) div 16 = int 0"
    and y: "scast (- 16 :: i16) = (- 16 :: i32)"
    by code_simp+
  have blocks_of: "cs_block_states (ch_sections sample_snapshot ! 0) = Single 7" "0 < length (ch_sections sample_snapshot)"
    by (simp_all add: sample_snapshot_def)
  have "w_chunks ?w (div16 (- 1), div16 0) = Some sample_snapshot"
    unfolding pos by simp
  moreover have "sint ((- 16 :: i32) - dim_min_y (w_dimension ?w)) div 16 = int 0"
    using index by (simp add: new_world_def)
  ultimately obtain w' where w': "set_block_state intern_independent (- 1) (- 16) 0 9 (?w, ()) = (Ok (), (w', ()))"
    using set_block_state_independent blocks_of states by metis
  have "apply_world_packets intern_independent [MapChunk sample_chunk, BlockChange (- 1) (- 16) 0 9]
     (new_world sample_dimension, ()) = (Ok (), (w', ()))"
    unfolding apply_world_packets.simps apply_world_packet.simps apply_block_change_def y
    by (rule bind_st_trans, rule loaded, rule bind_st_trans, rule w', rule pure_st_eq)
  then show ?thesis
    by blast
qed

theorem world_packets_refine_witness:
  "dimension_fits sample_dimension \<and>
   (\<exists>w. apply_world_packets intern_independent [MapChunk sample_chunk, BlockChange (- 1) (- 16) 0 9]
      (new_world sample_dimension, ()) = (Ok (), (w, ())) \<and>
     block_state w (- 1) (- 16) 0 = Some 9 \<and> block_state w (- 2) (- 16) 0 = Some 7 \<and> block_state w 0 (- 16) 0 = None)"
proof -
  obtain w where w: "apply_world_packets intern_independent [MapChunk sample_chunk, BlockChange (- 1) (- 16) 0 9]
      (new_world sample_dimension, ()) = (Ok (), (w, ()))"
    using sample_packets_accepted by blast
  have "blocks w = fold (packet_effect sample_dimension) [MapChunk sample_chunk, BlockChange (- 1) (- 16) 0 9] (\<lambda>_. None)"
    using world_packets_refine [OF sample_dimension_fits w] .
  moreover have "\<dots> (- 1, - 16, 0) = Some 9" "\<dots> (- 2, - 16, 0) = Some 7" "\<dots> (0, - 16, 0) = None"
    by code_simp+
  ultimately have "block_state w (- 1) (- 16) 0 = Some 9" "block_state w (- 2) (- 16) 0 = Some 7"
    "block_state w 0 (- 16) 0 = None"
    by (simp_all add: blocks_def fun_eq_iff)
  then show ?thesis
    using w sample_dimension_fits by blast
qed

text \<open>A section none of whose packed entries points outside its palette.\<close>

fun palette_complete :: "paletted_container \<Rightarrow> bool" where
  "palette_complete (Indirect bits palette data) =
    (\<forall>index \<in> {0..<BLOCKS_PER_SECTION}. case packed_value bits data index of None \<Rightarrow> True | Some i \<Rightarrow> unat i < length palette)"
| "palette_complete _ = True"

lemma palette_complete_get:
  assumes "container_ok BLOCKS_PER_SECTION c" "palette_complete c" "index < BLOCKS_PER_SECTION"
  shows "container_get c index \<noteq> None"
proof (rule ccontr)
  assume "\<not> container_get c index \<noteq> None"
  then obtain bits palette data i where c: "c = Indirect bits palette data"
    "packed_value bits data index = Some i" "length palette \<le> unat i"
    using container_ok_get [OF assms(1,3)] by blast
  then have "unat i < length palette"
    using bspec [OF assms(2) [unfolded c(1) palette_complete.simps], of index] assms(3) by simp
  then show False
    using c(3) by simp
qed

lemma block_state_total:
  assumes "world_ok w" "w_chunks w (div16 x, div16 z) = Some c" "in_height (w_dimension w) y"
  shows "nat (sint (y - dim_min_y (w_dimension w)) div 16) < length (ch_sections c) \<and>
    (palette_complete (cs_block_states (ch_sections c ! nat (sint (y - dim_min_y (w_dimension w)) div 16))) \<longrightarrow>
      block_state w x y z \<noteq> None)"
proof -
  let ?d = "w_dimension w"
  let ?i = "nat (sint (y - dim_min_y ?d) div 16)"
  have fits: "dimension_fits ?d" and c: "chunk_ok ?d (div16 x, div16 z) c"
    using assms(1,2) by (auto simp: world_ok_def)
  have "0 \<le> sint (y - dim_min_y ?d)" "sint (y - dim_min_y ?d) < 16 * int (section_count ?d)"
    using assms(3) height_difference(1) [OF fits, of y] fits dimension_height_sections(1) [of ?d]
    by (auto simp: dimension_fits_def)
  then have "0 \<le> sint (y - dim_min_y ?d) div 16" "sint (y - dim_min_y ?d) div 16 < int (section_count ?d)"
    by auto
  then have i: "?i < length (ch_sections c)"
    using c by (simp add: chunk_ok_def nat_less_iff)
  then have "section_ok (ch_sections c ! ?i)"
    using c by (simp add: chunk_ok_def)
  then have "palette_complete (cs_block_states (ch_sections c ! ?i)) \<Longrightarrow>
      container_get (cs_block_states (ch_sections c ! ?i)) (block_index x y z) \<noteq> None"
    using palette_complete_get [OF _ _ block_index_less] by (simp add: section_ok_def)
  then show ?thesis
    using i assms(2,3) fits by (simp add: block_state_eq Let_def)
qed

text \<open>C12: Whatever the server sends, the world stays well-formed. After any packets, accepted or
  refused half-way, every stored chunk lies at its own position, has exactly the sections of
  the dimension, and every paletted container has 1 to 32 bits per entry, exactly the longs
  its entries need and a palette that fits the width. So in a loaded column every height of
  the dimension has its section, and a block there, unless a packed entry points outside the
  palette.\<close>

theorem world_stays_well_formed:
  assumes "dimension_fits d"
  shows "let w = fst (snd (apply_world_packets intern_independent ps (new_world d, ()))) in
    w_dimension w = d \<and>
    (\<forall>position c. w_chunks w position = Some c \<longrightarrow> chunk_ok d position c) \<and>
    (\<forall>x y z c. w_chunks w (div16 x, div16 z) = Some c \<and> in_height d y \<longrightarrow>
      nat (sint (y - dim_min_y d) div 16) < length (ch_sections c) \<and>
      (palette_complete (cs_block_states (ch_sections c ! nat (sint (y - dim_min_y d) div 16))) \<longrightarrow>
        block_state w x y z \<noteq> None))"
proof -
  obtain r w where run: "apply_world_packets intern_independent ps (new_world d, ()) = (r, (w, ()))"
    by (metis prod.exhaust unit.exhaust)
  then have w: "world_ok w" "w_dimension w = d"
    using independent.apply_world_packets_ok [OF run TrueI new_world_ok [OF assms]] by (simp_all add: new_world_def)
  have "\<forall>position c. w_chunks w position = Some c \<longrightarrow> chunk_ok d position c"
    using w by (simp add: world_ok_def)
  moreover note block_state_total [OF w(1), unfolded w(2)]
  ultimately show ?thesis
    unfolding run Let_def fst_conv snd_conv using w(2) by blast
qed

theorem world_stays_well_formed_witness:
  "let w = fst (snd (apply_world_packets intern_independent [MapChunk sample_chunk, UnloadChunk 5 5]
       (new_world sample_dimension, ()))) in
   dimension_fits sample_dimension \<and> (\<exists>c. w_chunks w (- 1, 0) = Some c \<and> chunk_ok sample_dimension (- 1, 0) c)"
proof -
  let ?w = "fst (snd (apply_world_packets intern_independent [MapChunk sample_chunk, UnloadChunk 5 5]
       (new_world sample_dimension, ())))"
  have "has_chunk ?w (- 1) 0"
    by code_simp
  then obtain c where c: "w_chunks ?w (- 1, 0) = Some c"
    by (auto simp: has_chunk_def)
  then have "chunk_ok sample_dimension (- 1, 0) c"
    using world_stays_well_formed [OF sample_dimension_fits, of "[MapChunk sample_chunk, UnloadChunk 5 5]"]
    unfolding Let_def by blast
  then show ?thesis
    using c sample_dimension_fits unfolding Let_def by blast
qed

text \<open>
  The top of the dimension must fit \<open>i32\<close>, and the checks of the registry do not ensure it: a
  dimension at the very top is accepted, but \<open>min_y + height\<close> wraps around in \<open>block_state\<close> (a
  debug build panics there), so no block of it is ever seen.
\<close>

definition top_dimension :: dimension_type where
  "top_dimension = \<lparr>dim_key = ''top'', dim_min_y = 2147483632, dim_height = 16, dim_logical_height = 16,
     dim_coordinate_scale = f64_one, dim_ultrawarm = False, dim_has_ceiling = False\<rparr>"

lemma top_dimension_accepted: "dimension_bounds_ok top_dimension"
  by code_simp

lemma overflowing_dimension_shows_nothing:
  assumes "w_dimension w = top_dimension"
  shows "block_state w x y z = None"
proof -
  have "sint (dim_min_y top_dimension + dim_height top_dimension) = - 2147483648"
    "sint (dim_min_y top_dimension) = 2147483632"
    by code_simp+
  then show ?thesis
    using assms by (auto simp: block_state_def Let_def)
qed

end
