(* ===== verification/Shared_World.thy ===== *)
theory Shared_World
  imports World "HOL-Library.AList"
begin

text \<open>
  The process-wide store of immutable chunks, src/src/minecraft/shared_world.rs: clients on the
  same server, world and dimension that hold equal chunks share one allocation.

  \<^item> An \<open>Arc\<close> is an address; \<open>sc_heap\<close> holds the payload of every address some client still
    owns. A \<open>Weak\<close> upgrades exactly when its address is in the heap. \<open>release\<close> is the last
    client dropping a payload, and may happen at any time; a fresh allocation never reuses
    the address of a weak reference that is still stored.
  \<^item> Every operation takes the lock of one shard for its whole duration, or of one shard after
    the other, so operations are atomic here.
  \<^item> \<open>HashMap\<close> is an association list with distinct keys; its order is never observed.
\<close>

section \<open>Identities\<close>

record server_identity =
  si_host :: string
  si_port :: u16

definition to_ascii_lowercase :: "string \<Rightarrow> string" where
  "to_ascii_lowercase s = map (\<lambda>c. let n = of_char c :: nat in if 65 \<le> n \<and> n \<le> 90 then char_of (n + 32) else c) s"

definition trim_end_dots :: "string \<Rightarrow> string" where
  "trim_end_dots s = rev (dropWhile (\<lambda>c. c = CHR ''.'') (rev s))"

definition new_server_identity :: "string \<Rightarrow> u16 \<Rightarrow> server_identity" where
  "new_server_identity host port = \<lparr>si_host = to_ascii_lowercase (trim_end_dots host), si_port = port\<rparr>"

record world_identity =
  wd_name :: string
  wd_hashed_seed :: i64

record dimension_identity =
  di_key :: string
  di_min_y :: i32
  di_height :: i32
  di_logical_height :: i32
  di_coordinate_scale_bits :: u64
  di_ultrawarm :: bool
  di_has_ceiling :: bool

definition dimension_identity_of :: "dimension_type \<Rightarrow> dimension_identity" where
  "dimension_identity_of d = \<lparr>di_key = dim_key d, di_min_y = dim_min_y d, di_height = dim_height d,
     di_logical_height = dim_logical_height d, di_coordinate_scale_bits = dim_coordinate_scale d,
     di_ultrawarm = dim_ultrawarm d, di_has_ceiling = dim_has_ceiling d\<rparr>"

record world_scope =
  sc_server :: server_identity
  sc_world :: world_identity
  sc_dimension :: dimension_identity

definition new_world_scope :: "server_identity \<Rightarrow> string \<Rightarrow> i64 \<Rightarrow> dimension_type \<Rightarrow> world_scope" where
  "new_world_scope server world_name hashed_seed dimension = \<lparr>sc_server = server,
     sc_world = \<lparr>wd_name = world_name, wd_hashed_seed = hashed_seed\<rparr>,
     sc_dimension = dimension_identity_of dimension\<rparr>"

section \<open>Fingerprints\<close>

definition to_le_bytes :: "nat \<Rightarrow> 'a::len word \<Rightarrow> u8 list" where
  "to_le_bytes n v = rev (to_be_bytes n v)"

definition fnv_new :: u64 where
  "fnv_new = 0xcbf29ce484222325"

fun fnv_write :: "u8 list \<Rightarrow> u64 \<Rightarrow> u64" where
  "fnv_write [] hash = hash"
| "fnv_write (byte # bytes) hash = fnv_write bytes ((hash XOR ucast byte) * 0x100000001b3)"

definition write_len :: "nat \<Rightarrow> u64 \<Rightarrow> u64" where
  "write_len n = fnv_write (to_le_bytes 8 (of_nat n :: u64))"

fun hash_container :: "paletted_container \<Rightarrow> u64 \<Rightarrow> u64" where
  "hash_container (Single v) hash = fnv_write (to_le_bytes 4 v) (fnv_write [0] hash)"
| "hash_container (Indirect bits palette data) hash =
    fold (\<lambda>v. fnv_write (to_le_bytes 8 v)) data (write_len (length data)
      (fold (\<lambda>v. fnv_write (to_le_bytes 4 v)) palette (write_len (length palette) (fnv_write [1, bits] hash))))"
| "hash_container (Direct bits data) hash =
    fold (\<lambda>v. fnv_write (to_le_bytes 8 v)) data (write_len (length data) (fnv_write [2, bits] hash))"

definition hash_nbt :: "nbt \<Rightarrow> u64 \<Rightarrow> mine_rider_error + u64" where
  "hash_nbt nbt hash = (case encode_nbt new_writer nbt of
     Err e \<Rightarrow> Err (Wire e)
   | Ok w \<Rightarrow> Ok (fnv_write (wr_buf w) (write_len (length (wr_buf w)) hash)))"

definition hash_i64s :: "i64 list \<Rightarrow> u64 \<Rightarrow> u64" where
  "hash_i64s vs hash = fold (\<lambda>v. fnv_write (to_le_bytes 8 v)) vs (write_len (length vs) hash)"

definition hash_byte_arrays :: "u8 list list \<Rightarrow> u64 \<Rightarrow> u64" where
  "hash_byte_arrays arrays hash =
    fold (\<lambda>a h. fnv_write a (write_len (length a) h)) arrays (write_len (length arrays) hash)"

definition hash_light :: "chunk_light \<Rightarrow> u64 \<Rightarrow> u64" where
  "hash_light light hash = hash_byte_arrays (cl_block_arrays light) (hash_byte_arrays (cl_sky_arrays light)
     (hash_i64s (cl_empty_block_mask light) (hash_i64s (cl_empty_sky_mask light)
       (hash_i64s (cl_block_mask light) (hash_i64s (cl_sky_mask light) hash)))))"

definition hash_section :: "chunk_section \<Rightarrow> u64 \<Rightarrow> u64" where
  "hash_section s hash = hash_container (cs_biomes s) (hash_container (cs_block_states s)
     (fnv_write (to_le_bytes 2 (cs_non_air_blocks s)) hash))"

fun hash_entities :: "block_entity list \<Rightarrow> u64 \<Rightarrow> mine_rider_error + u64" where
  "hash_entities [] hash = Ok hash"
| "hash_entities (e # es) hash =
    (let h = fnv_write (to_le_bytes 4 (be_kind e)) (fnv_write (to_le_bytes 2 (be_y e))
               (fnv_write [be_local_x e, be_local_z e] hash))
     in and_then (case be_nbt e of Some nbt \<Rightarrow> hash_nbt nbt (fnv_write [1] h) | None \<Rightarrow> Ok (fnv_write [0] h))
          (hash_entities es))"

definition fingerprint :: "chunk_snapshot \<Rightarrow> mine_rider_error + u64" where
  "fingerprint c =
    (let h = write_len (length (ch_sections c))
               (fnv_write (to_le_bytes 4 (ch_z c)) (fnv_write (to_le_bytes 4 (ch_x c)) fnv_new))
     in and_then (hash_nbt (ch_heightmaps c) (fold hash_section (ch_sections c) h)) (\<lambda>h.
        and_then (hash_entities (ch_block_entities c) (write_len (length (ch_block_entities c)) h)) (\<lambda>h.
          Ok (hash_light (ch_light c) h))))"

section \<open>Equality of snapshots\<close>

text \<open>
  The derived \<open>PartialEq\<close>. It compares the floats of block-entity data as IEEE-754 does: a NaN
  differs from itself, and the two zeros are equal.
\<close>

definition eq_f32 :: "u32 \<Rightarrow> u32 \<Rightarrow> bool" where
  "eq_f32 x y = (let magnitude = (\<lambda>v. v AND 0x7FFFFFFF) in
     magnitude x \<le> 0x7F800000 \<and> magnitude y \<le> 0x7F800000 \<and> (x = y \<or> magnitude x = 0 \<and> magnitude y = 0))"

definition eq_f64 :: "u64 \<Rightarrow> u64 \<Rightarrow> bool" where
  "eq_f64 x y = (let magnitude = (\<lambda>v. v AND 0x7FFFFFFFFFFFFFFF) in
     magnitude x \<le> 0x7FF0000000000000 \<and> magnitude y \<le> 0x7FF0000000000000 \<and>
       (x = y \<or> magnitude x = 0 \<and> magnitude y = 0))"

fun nbt_eq :: "nbt \<Rightarrow> nbt \<Rightarrow> bool"
  and nbts_eq :: "nbt list \<Rightarrow> nbt list \<Rightarrow> bool"
  and fields_eq :: "(string \<times> nbt) list \<Rightarrow> (string \<times> nbt) list \<Rightarrow> bool" where
  "nbt_eq (NbtFloat x) n = (case n of NbtFloat y \<Rightarrow> eq_f32 x y | _ \<Rightarrow> False)"
| "nbt_eq (NbtDouble x) n = (case n of NbtDouble y \<Rightarrow> eq_f64 x y | _ \<Rightarrow> False)"
| "nbt_eq (NbtList tag xs) n = (case n of NbtList tag' ys \<Rightarrow> tag = tag' \<and> nbts_eq xs ys | _ \<Rightarrow> False)"
| "nbt_eq (NbtCompound xs) n = (case n of NbtCompound ys \<Rightarrow> fields_eq xs ys | _ \<Rightarrow> False)"
| "nbt_eq m n = (m = n)"
| "nbts_eq [] ys = (ys = [])"
| "nbts_eq (x # xs) ys = (case ys of [] \<Rightarrow> False | y # ys \<Rightarrow> nbt_eq x y \<and> nbts_eq xs ys)"
| "fields_eq [] ys = (ys = [])"
| "fields_eq ((k, x) # xs) ys = (case ys of [] \<Rightarrow> False | (k', y) # ys \<Rightarrow> k = k' \<and> nbt_eq x y \<and> fields_eq xs ys)"

definition entity_eq :: "block_entity \<Rightarrow> block_entity \<Rightarrow> bool" where
  "entity_eq e f \<longleftrightarrow> be_local_x e = be_local_x f \<and> be_local_z e = be_local_z f \<and> be_y e = be_y f \<and>
     be_kind e = be_kind f \<and> (case (be_nbt e, be_nbt f) of
       (None, None) \<Rightarrow> True | (Some m, Some n) \<Rightarrow> nbt_eq m n | _ \<Rightarrow> False)"

definition snapshot_eq :: "chunk_snapshot \<Rightarrow> chunk_snapshot \<Rightarrow> bool" where
  "snapshot_eq c d \<longleftrightarrow> ch_x c = ch_x d \<and> ch_z c = ch_z d \<and> ch_sections c = ch_sections d \<and>
     nbt_eq (ch_heightmaps c) (ch_heightmaps d) \<and> list_all2 entity_eq (ch_block_entities c) (ch_block_entities d) \<and>
     ch_light c = ch_light d"

section \<open>The store\<close>

record intern_key =
  ik_scope :: world_scope
  ik_x :: i32
  ik_z :: i32
  ik_fingerprint :: u64

record store_shard =
  sh_entries :: "(intern_key \<times> nat list) list"
  sh_insertion_order :: "intern_key list"

record shared_chunk_store =
  sc_shards :: "store_shard list"
  sc_max_keys_per_shard :: nat
  sc_max_collisions_per_key :: nat
  sc_evictions :: u64
  sc_uncached_collision_payloads :: u64
  sc_heap :: "nat \<rightharpoonup> chunk_snapshot"
  sc_next :: nat

definition default_shard :: store_shard where
  "default_shard = \<lparr>sh_entries = [], sh_insertion_order = []\<rparr>"

text \<open>The three \<open>assert!\<close>s are the error case.\<close>

definition with_limits :: "nat \<Rightarrow> nat \<Rightarrow> nat \<Rightarrow> shared_chunk_store option" where
  "with_limits shards keys_per_shard collisions_per_key =
    (if 0 < shards \<and> 0 < keys_per_shard \<and> 0 < collisions_per_key then
       Some \<lparr>sc_shards = replicate shards default_shard, sc_max_keys_per_shard = keys_per_shard,
         sc_max_collisions_per_key = collisions_per_key, sc_evictions = 0, sc_uncached_collision_payloads = 0,
         sc_heap = (\<lambda>_. None), sc_next = 0\<rparr>
     else None)"

definition new_store :: "shared_chunk_store option" where
  "new_store = with_limits 16 4096 8"

definition rotl64 :: "nat \<Rightarrow> u64 \<Rightarrow> u64" where
  "rotl64 n x = push_bit n x OR drop_bit (64 - n) x"

definition shard_index :: "shared_chunk_store \<Rightarrow> intern_key \<Rightarrow> nat" where
  "shard_index s key =
    (let mixed = ik_fingerprint key XOR rotl64 17 (ucast (ik_x key)) XOR rotl64 37 (ucast (ik_z key))
           XOR rotl64 7 (wd_hashed_seed (sc_world (ik_scope key))) XOR ucast (si_port (sc_server (ik_scope key)))
     in unat mixed mod length (sc_shards s))"

definition alloc :: "chunk_snapshot \<Rightarrow> shared_chunk_store \<Rightarrow> nat \<times> shared_chunk_store" where
  "alloc c s = (sc_next s, s\<lparr>sc_heap := (sc_heap s)(sc_next s \<mapsto> c), sc_next := sc_next s + 1\<rparr>)"

definition live :: "shared_chunk_store \<Rightarrow> nat \<Rightarrow> bool" where
  "live s a = (sc_heap s a \<noteq> None)"

text \<open>
  The eviction loop: while the shard is full, drop the oldest key. The number of evictions is
  added to the counter.
\<close>

fun evict :: "nat \<Rightarrow> intern_key list \<Rightarrow> (intern_key \<times> nat list) list \<Rightarrow> u64 \<Rightarrow>
    intern_key list \<times> (intern_key \<times> nat list) list \<times> u64" where
  "evict max_keys [] entries evictions = ([], entries, evictions)"
| "evict max_keys (oldest # order) entries evictions =
    (if length entries < max_keys then (oldest # order, entries, evictions)
     else evict max_keys order (AList.delete oldest entries)
            (if map_of entries oldest = None then evictions else evictions + 1))"

definition set_shard :: "nat \<Rightarrow> store_shard \<Rightarrow> shared_chunk_store \<Rightarrow> shared_chunk_store" where
  "set_shard i shard s = s\<lparr>sc_shards := (sc_shards s)[i := shard]\<rparr>"

definition intern_with_fingerprint ::
  "world_scope \<Rightarrow> chunk_snapshot \<Rightarrow> u64 \<Rightarrow> shared_chunk_store \<Rightarrow> nat \<times> shared_chunk_store" where
  "intern_with_fingerprint scope c fp s =
    (let key = \<lparr>ik_scope = scope, ik_x = ch_x c, ik_z = ch_z c, ik_fingerprint = fp\<rparr>;
         i = shard_index s key; shard = sc_shards s ! i
     in case map_of (sh_entries shard) key of
       Some bucket \<Rightarrow>
         let bucket = filter (live s) bucket in
         (case find (\<lambda>a. case sc_heap s a of None \<Rightarrow> False | Some candidate \<Rightarrow> snapshot_eq candidate c) bucket of
            Some a \<Rightarrow> (a, set_shard i (shard\<lparr>sh_entries := AList.update key bucket (sh_entries shard)\<rparr>) s)
          | None \<Rightarrow>
              let (a, s) = alloc c s in
              if length bucket < sc_max_collisions_per_key s
              then (a, set_shard i (shard\<lparr>sh_entries := AList.update key (bucket @ [a]) (sh_entries shard)\<rparr>) s)
              else (a, set_shard i (shard\<lparr>sh_entries := AList.update key bucket (sh_entries shard)\<rparr>)
                     (s\<lparr>sc_uncached_collision_payloads := sc_uncached_collision_payloads s + 1\<rparr>)))
     | None \<Rightarrow>
         let (order, entries, evictions) = evict (sc_max_keys_per_shard s) (sh_insertion_order shard)
               (sh_entries shard) (sc_evictions s);
             (a, s) = alloc c (s\<lparr>sc_evictions := evictions\<rparr>)
         in (a, set_shard i (shard\<lparr>sh_entries := AList.update key [a] entries,
               sh_insertion_order := order @ [key]\<rparr>) s))"

definition intern :: "world_scope \<Rightarrow> chunk_snapshot \<Rightarrow> (shared_chunk_store, mine_rider_error, nat) fallible" where
  "intern scope c s = (case fingerprint c of
     Err e \<Rightarrow> (Err e, s)
   | Ok fp \<Rightarrow> (case intern_with_fingerprint scope c fp s of (a, s') \<Rightarrow> (Ok a, s')))"

definition prune_shard :: "shared_chunk_store \<Rightarrow> store_shard \<Rightarrow> store_shard" where
  "prune_shard s shard =
    (let entries = filter (\<lambda>(_, bucket). bucket \<noteq> []) (map (\<lambda>(k, bucket). (k, filter (live s) bucket)) (sh_entries shard))
     in shard\<lparr>sh_entries := entries,
          sh_insertion_order := filter (\<lambda>k. k \<in> set (map fst entries)) (sh_insertion_order shard)\<rparr>)"

definition prune :: "shared_chunk_store \<Rightarrow> shared_chunk_store" where
  "prune s = s\<lparr>sc_shards := map (prune_shard s) (sc_shards s)\<rparr>"

definition release :: "nat \<Rightarrow> shared_chunk_store \<Rightarrow> shared_chunk_store" where
  "release a s = s\<lparr>sc_heap := (sc_heap s)(a := None)\<rparr>"

record store_stats =
  ss_cache_keys :: nat
  ss_weak_entries :: nat
  ss_live_payloads :: nat
  ss_evictions :: u64
  ss_uncached_collision_payloads :: u64

definition stats :: "shared_chunk_store \<Rightarrow> store_stats" where
  "stats s = \<lparr>ss_cache_keys = sum_list (map (\<lambda>sh. length (sh_entries sh)) (sc_shards s)),
     ss_weak_entries = sum_list (map (\<lambda>sh. sum_list (map (\<lambda>(_, b). length b) (sh_entries sh))) (sc_shards s)),
     ss_live_payloads = card (set (filter (live s) (concat (map (\<lambda>sh. concat (map snd (sh_entries sh))) (sc_shards s))))),
     ss_evictions = sc_evictions s, ss_uncached_collision_payloads = sc_uncached_collision_payloads s\<rparr>"

text \<open>The interner of a client whose world uses the shared store: it reads its chunk through the \<open>Arc\<close>.\<close>

definition intern_shared :: "world_scope \<Rightarrow> shared_chunk_store interner" where
  "intern_shared scope c s = (case intern scope c s of
     (Err e, s') \<Rightarrow> (Err e, s')
   | (Ok a, s') \<Rightarrow> (Ok (the (sc_heap s' a)), s'))"

section \<open>The invariant of the store\<close>

text \<open>
  A shard: its keys are those of the insertion order, within the limits. A weak reference is
  filed under one key only, and refers to an address that was handed out.
\<close>

definition shard_ok :: "nat \<Rightarrow> nat \<Rightarrow> store_shard \<Rightarrow> bool" where
  "shard_ok max_keys max_collisions shard \<longleftrightarrow>
     distinct (map fst (sh_entries shard)) \<and> distinct (sh_insertion_order shard) \<and>
     set (sh_insertion_order shard) = fst ` set (sh_entries shard) \<and>
     length (sh_entries shard) \<le> max_keys \<and>
     (\<forall>(k, bucket) \<in> set (sh_entries shard). length bucket \<le> max_collisions)"

definition shard_files :: "store_shard \<Rightarrow> intern_key \<Rightarrow> nat \<Rightarrow> bool" where
  "shard_files shard k a \<longleftrightarrow> (\<exists>bucket. (k, bucket) \<in> set (sh_entries shard) \<and> a \<in> set bucket)"

definition filed :: "shared_chunk_store \<Rightarrow> intern_key \<Rightarrow> nat \<Rightarrow> bool" where
  "filed s k a \<longleftrightarrow> (\<exists>shard \<in> set (sc_shards s). shard_files shard k a)"

definition store_ok :: "shared_chunk_store \<Rightarrow> bool" where
  "store_ok s \<longleftrightarrow> sc_shards s \<noteq> [] \<and> 0 < sc_max_keys_per_shard s \<and> 0 < sc_max_collisions_per_key s \<and>
     (\<forall>shard \<in> set (sc_shards s). shard_ok (sc_max_keys_per_shard s) (sc_max_collisions_per_key s) shard) \<and>
     (\<forall>a. sc_next s \<le> a \<longrightarrow> sc_heap s a = None) \<and> (\<forall>k a. filed s k a \<longrightarrow> a < sc_next s) \<and>
     (\<forall>k k' a. filed s k a \<longrightarrow> filed s k' a \<longrightarrow> k = k')"

lemma with_limits_ok: "with_limits shards keys collisions = Some s \<Longrightarrow> store_ok s"
  by (auto simp: with_limits_def store_ok_def shard_ok_def default_shard_def filed_def shard_files_def
      split: if_splits)

lemma shard_index_less: "sc_shards s \<noteq> [] \<Longrightarrow> shard_index s key < length (sc_shards s)"
  by (simp add: shard_index_def Let_def)

lemma delete_shortens: "k \<in> fst ` set xs \<Longrightarrow> length (AList.delete k xs) < length xs"
  by (auto simp: AList.delete_eq intro: length_filter_less)

lemma fst_delete: "fst ` set (AList.delete k xs) = fst ` set xs - {k}"
  by (auto simp: AList.delete_eq)

subsection \<open>Eviction\<close>

text \<open>
  In a consistent shard the loop drops at most one key, the oldest, and what is left has room
  for one more.
\<close>

lemma evict_full:
  assumes "set order = fst ` set entries" "0 < max_keys" "length entries \<le> max_keys"
  shows "evict max_keys order entries n =
    (if length entries < max_keys then (order, entries, n)
     else (tl order, AList.delete (hd order) entries, n + 1))"
proof (cases order)
  case Nil
  then show ?thesis
    using assms(1,2) by simp
next
  case (Cons oldest younger)
  then have "oldest \<in> fst ` set entries"
    using assms(1) by auto
  then have "length (AList.delete oldest entries) < max_keys" "map_of entries oldest \<noteq> None"
    using delete_shortens [of oldest entries] assms(3) by (simp_all add: map_of_eq_None_iff)
  then show ?thesis
    using Cons by (cases younger) auto
qed

lemma evict_ok:
  assumes "shard_ok max_keys max_collisions shard" "0 < max_keys"
    and "evict max_keys (sh_insertion_order shard) (sh_entries shard) n = (order, entries, n')"
  shows "distinct (map fst entries)" and "distinct order" and "set order = fst ` set entries"
    and "length entries < max_keys" and "set entries \<subseteq> set (sh_entries shard)"
proof -
  note ok = assms(1)[unfolded shard_ok_def]
  note eq = evict_full [of "sh_insertion_order shard" "sh_entries shard" max_keys n]
  have "(distinct (map fst entries) \<and> distinct order \<and> set order = fst ` set entries) \<and>
      length entries < max_keys \<and> set entries \<subseteq> set (sh_entries shard)"
  proof (cases "length (sh_entries shard) < max_keys")
    case True
    then show ?thesis
      using eq ok assms by simp
  next
    case False
    then obtain oldest younger where split: "sh_insertion_order shard = oldest # younger"
      using ok assms(2) by (cases "sh_insertion_order shard") auto
    then have gone: "order = younger" "entries = AList.delete oldest (sh_entries shard)"
      using eq ok assms False by auto
    have oldest: "oldest \<in> fst ` set (sh_entries shard)"
      using ok split by (metis list.set_intros(1))
    have "set younger = fst ` set (sh_entries shard) - {oldest}"
      using ok split by (metis Diff_insert_absorb distinct.simps(2) list.simps(15))
    then have "distinct (map fst entries) \<and> distinct order \<and> set order = fst ` set entries"
      using ok split gone by (simp add: AList.distinct_delete fst_delete)
    moreover have "length entries < max_keys"
      using delete_shortens [OF oldest] ok gone by simp
    moreover have "set entries \<subseteq> set (sh_entries shard)"
      using gone by (auto simp: AList.delete_eq)
    ultimately show ?thesis
      by simp
  qed
  then show "distinct (map fst entries)" "distinct order" "set order = fst ` set entries"
    "length entries < max_keys" "set entries \<subseteq> set (sh_entries shard)"
    by auto
qed

subsection \<open>What interning does to the store\<close>

text \<open>
  Interning replaces one shard and perhaps allocates one payload. The new shard is consistent
  and files, beyond what the old one filed, at most the new payload under the key.
\<close>

definition grown :: "shared_chunk_store \<Rightarrow> intern_key \<Rightarrow> nat \<Rightarrow> shared_chunk_store \<Rightarrow> bool" where
  "grown s key a s' \<longleftrightarrow> sc_max_keys_per_shard s' = sc_max_keys_per_shard s \<and>
     sc_max_collisions_per_key s' = sc_max_collisions_per_key s \<and>
     (\<exists>i shard. i < length (sc_shards s) \<and> sc_shards s' = (sc_shards s)[i := shard] \<and>
        shard_ok (sc_max_keys_per_shard s) (sc_max_collisions_per_key s) shard \<and>
        (\<forall>k b. shard_files shard k b \<longrightarrow> shard_files (sc_shards s ! i) k b \<or> k = key \<and> b = a))"

lemma grown_filed:
  assumes "grown s key a s'" "filed s' k b"
  shows "filed s k b \<or> k = key \<and> b = a"
proof -
  obtain i shard where i: "i < length (sc_shards s)" "sc_shards s' = (sc_shards s)[i := shard]"
      and files: "\<And>k b. shard_files shard k b \<Longrightarrow> shard_files (sc_shards s ! i) k b \<or> k = key \<and> b = a"
    using assms(1) unfolding grown_def by blast
  obtain shard' where "shard' \<in> set (sc_shards s')" "shard_files shard' k b"
    using assms(2) by (auto simp: filed_def)
  moreover have "shard' = shard \<or> shard' \<in> set (sc_shards s)" if "shard' \<in> set (sc_shards s')"
    using that set_update_subset_insert [of "sc_shards s" i shard] i(2) by auto
  ultimately show ?thesis
    using files [of k b] nth_mem [OF i(1)] by (auto simp: filed_def)
qed

lemma grown_ok:
  assumes "store_ok s" "grown s key a s'" "\<And>k. filed s k a \<Longrightarrow> k = key" "sc_next s \<le> sc_next s'" "a < sc_next s'"
    and "\<And>b. sc_next s' \<le> b \<Longrightarrow> sc_heap s' b = None"
  shows "store_ok s'"
proof -
  have below: "b < sc_next s'" if "filed s' k b" for k b
    using grown_filed [OF assms(2) that] assms(1,4,5) unfolding store_ok_def by force
  have one: "k = k'" if "filed s' k b" "filed s' k' b" for k k' b
    using grown_filed [OF assms(2) that(1)] grown_filed [OF assms(2) that(2)] assms(1,3)
    unfolding store_ok_def by metis
  have "sc_shards s' \<noteq> [] \<and> (\<forall>shard \<in> set (sc_shards s').
      shard_ok (sc_max_keys_per_shard s) (sc_max_collisions_per_key s) shard)"
    using assms(1,2) unfolding grown_def store_ok_def
    by (metis insert_iff length_0_conv length_list_update list.size(3) set_update_subset_insert subsetD)
  then show ?thesis
    using assms(1,2,6) below one unfolding store_ok_def grown_def by metis
qed

lemma shard_ok_update:
  assumes "shard_ok max_keys max_collisions shard" "map_of (sh_entries shard) key \<noteq> None"
    and "length bucket \<le> max_collisions"
  shows "shard_ok max_keys max_collisions (shard\<lparr>sh_entries := AList.update key bucket (sh_entries shard)\<rparr>)"
proof -
  have key: "key \<in> fst ` set (sh_entries shard)"
    using assms(2) by (simp add: map_of_eq_None_iff)
  then have keys: "map fst (AList.update key bucket (sh_entries shard)) = map fst (sh_entries shard)"
    by (simp add: AList.update_keys)
  then have "length (AList.update key bucket (sh_entries shard)) = length (sh_entries shard)"
    "fst ` set (AList.update key bucket (sh_entries shard)) = fst ` set (sh_entries shard)"
    by (metis length_map) (metis keys set_map)
  moreover have "length b \<le> max_collisions" if "(k, b) \<in> set (AList.update key bucket (sh_entries shard))" for k b
    using that assms(1,3) keys unfolding shard_ok_def
    by (metis (no_types, lifting) case_prodD map_of_eq_Some_iff map_of_is_SomeI AList.update_conv' fun_upd_apply option.inject)
  ultimately show ?thesis
    using assms(1) keys by (auto simp: shard_ok_def)
qed

lemma shard_files_update:
  assumes "shard_ok max_keys max_collisions shard" "map_of (sh_entries shard) key = Some bucket"
    and "set bucket' \<subseteq> insert a (set bucket)"
    and "shard_files (shard\<lparr>sh_entries := AList.update key bucket' (sh_entries shard)\<rparr>) k b"
  shows "shard_files shard k b \<or> k = key \<and> b = a"
proof -
  obtain bs where bs: "(k, bs) \<in> set (AList.update key bucket' (sh_entries shard))" "b \<in> set bs"
    using assms(4) by (auto simp: shard_files_def)
  have "distinct (map fst (AList.update key bucket' (sh_entries shard)))"
    using assms(1) by (simp add: shard_ok_def AList.distinct_update)
  then have "((map_of (sh_entries shard))(key \<mapsto> bucket')) k = Some bs"
    using bs(1) by (metis AList.update_conv' map_of_eq_Some_iff)
  then show ?thesis
    using assms(2,3) bs(2) map_of_SomeD by (fastforce simp: shard_files_def split: if_splits)
qed

lemma shard_ok_insert:
  assumes "shard_ok max_keys max_collisions shard" "0 < max_keys" "0 < max_collisions"
    and "map_of (sh_entries shard) key = None"
    and "evict max_keys (sh_insertion_order shard) (sh_entries shard) n = (order, entries, n')"
  shows "shard_ok max_keys max_collisions
      (shard\<lparr>sh_entries := AList.update key [a] entries, sh_insertion_order := order @ [key]\<rparr>)"
    and "shard_files (shard\<lparr>sh_entries := AList.update key [a] entries, sh_insertion_order := order @ [key]\<rparr>) k b \<Longrightarrow>
      shard_files shard k b \<or> k = key \<and> b = a"
proof -
  note evicted = evict_ok [OF assms(1,2,5)]
  have new: "key \<notin> fst ` set entries"
    using evicted(5) assms(4) by (auto simp: map_of_eq_None_iff)
  then have update: "AList.update key [a] entries = entries @ [(key, [a])]"
    by (induction entries) auto
  show "shard_ok max_keys max_collisions
      (shard\<lparr>sh_entries := AList.update key [a] entries, sh_insertion_order := order @ [key]\<rparr>)"
    unfolding update using evicted new assms(1,3) by (auto simp: shard_ok_def)
  show "shard_files shard k b \<or> k = key \<and> b = a"
    if "shard_files (shard\<lparr>sh_entries := AList.update key [a] entries, sh_insertion_order := order @ [key]\<rparr>) k b"
    using that evicted(5) unfolding update by (auto simp: shard_files_def)
qed

lemma intern_with_fingerprint_cases:
  assumes "intern_with_fingerprint scope c fp s = (a, s')" "store_ok s"
  defines "key \<equiv> \<lparr>ik_scope = scope, ik_x = ch_x c, ik_z = ch_z c, ik_fingerprint = fp\<rparr>"
  obtains (hit) p where "filed s key a" "sc_heap s a = Some p" "snapshot_eq p c"
      "sc_heap s' = sc_heap s" "sc_next s' = sc_next s" "grown s key a s'"
  | (stored) "a = sc_next s" "sc_heap s' = (sc_heap s)(a \<mapsto> c)" "sc_next s' = sc_next s + 1" "grown s key a s'"
proof -
  define i where "i = shard_index s key"
  define shard where "shard = sc_shards s ! i"
  have i: "i < length (sc_shards s)" and limits: "0 < sc_max_keys_per_shard s" "0 < sc_max_collisions_per_key s"
    using assms(2) shard_index_less by (auto simp: i_def store_ok_def)
  have ok: "shard_ok (sc_max_keys_per_shard s) (sc_max_collisions_per_key s) shard"
    using assms(2) nth_mem [OF i] by (simp add: shard_def store_ok_def)
  have grown: "grown s key a s'"
    if "sc_max_keys_per_shard s' = sc_max_keys_per_shard s" "sc_max_collisions_per_key s' = sc_max_collisions_per_key s"
      "sc_shards s' = (sc_shards s)[i := shard']"
      "shard_ok (sc_max_keys_per_shard s) (sc_max_collisions_per_key s) shard'"
      "\<And>k b. shard_files shard' k b \<Longrightarrow> shard_files shard k b \<or> k = key \<and> b = a" for shard'
    using that i unfolding grown_def shard_def by blast
  note eq = assms(1)[unfolded intern_with_fingerprint_def, folded key_def, unfolded Let_def, folded i_def, folded shard_def]
  show thesis
  proof (cases "map_of (sh_entries shard) key")
    case None
    obtain order entries n where ev: "evict (sc_max_keys_per_shard s) (sh_insertion_order shard) (sh_entries shard)
        (sc_evictions s) = (order, entries, n)"
      by (metis prod_cases3)
    note inserted = shard_ok_insert [OF ok limits None ev]
    have "a = sc_next s" "sc_heap s' = (sc_heap s)(a \<mapsto> c)" "sc_next s' = sc_next s + 1"
      using eq None ev by (auto simp: alloc_def set_shard_def)
    moreover have "grown s key a s'"
      by (rule grown [OF _ _ _ inserted]) (use eq None ev in \<open>auto simp: alloc_def set_shard_def\<close>)
    ultimately show thesis
      by (rule stored)
  next
    case (Some bucket)
    define kept where "kept = filter (live s) bucket"
    note eq = eq[unfolded Some option.case, folded kept_def]
    have "length bucket \<le> sc_max_collisions_per_key s"
      using ok map_of_SomeD [OF Some] by (auto simp: shard_ok_def)
    then have kept: "length kept \<le> sc_max_collisions_per_key s" "set kept \<subseteq> set bucket"
      by (auto simp: kept_def intro: le_trans [OF length_filter_le])
    note updated = shard_ok_update [OF ok] shard_files_update [OF ok Some]
    show thesis
    proof (cases "find (\<lambda>a. case sc_heap s a of None \<Rightarrow> False | Some candidate \<Rightarrow> snapshot_eq candidate c) kept")
      case None
      have "a = sc_next s" "sc_heap s' = (sc_heap s)(a \<mapsto> c)" "sc_next s' = sc_next s + 1"
        using eq None by (auto simp: alloc_def set_shard_def split: if_splits)
      moreover have "grown s key a s'"
      proof (cases "length kept < sc_max_collisions_per_key s")
        case True
        then show ?thesis
          using eq None Some kept
          by (intro grown [of "shard\<lparr>sh_entries := AList.update key (kept @ [a]) (sh_entries shard)\<rparr>"] updated)
            (auto simp: alloc_def set_shard_def)
      next
        case False
        then show ?thesis
          using eq None Some kept
          by (intro grown [of "shard\<lparr>sh_entries := AList.update key kept (sh_entries shard)\<rparr>"] updated)
            (auto simp: alloc_def set_shard_def)
      qed
      ultimately show thesis
        by (rule stored)
    next
      case found: (Some b)
      have "a = b" "sc_heap s' = sc_heap s" "sc_next s' = sc_next s"
        using eq found by (auto simp: set_shard_def)
      moreover obtain p where "b \<in> set kept" "sc_heap s b = Some p" "snapshot_eq p c"
        using found by (auto simp: find_Some_iff split: option.splits)
      moreover have "filed s key b"
        using kept(2) \<open>b \<in> set kept\<close> map_of_SomeD [OF Some] nth_mem [OF i]
        unfolding filed_def shard_files_def shard_def by blast
      moreover have "grown s key a s'"
        using eq found Some kept
        by (intro grown [of "shard\<lparr>sh_entries := AList.update key kept (sh_entries shard)\<rparr>"] updated)
          (auto simp: set_shard_def)
      ultimately show thesis
        using hit by simp
    qed
  qed
qed

text \<open>The payload a client gets stands for the chunk it interned: it is the chunk, or equal to it.\<close>

definition stands_for :: "chunk_snapshot \<Rightarrow> chunk_snapshot \<Rightarrow> bool" where
  "stands_for p c \<longleftrightarrow> p = c \<or> snapshot_eq p c"

lemma stands_for_terrain: "stands_for p c \<Longrightarrow> same_terrain p c"
  by (auto simp: stands_for_def snapshot_eq_def same_terrain_def)

lemma intern_with_fingerprint_ok:
  assumes "intern_with_fingerprint scope c fp s = (a, s')" "store_ok s"
  shows "store_ok s'" and "\<exists>p. sc_heap s' a = Some p \<and> stands_for p c"
proof -
  have "store_ok s' \<and> (\<exists>p. sc_heap s' a = Some p \<and> stands_for p c)"
    using assms
  proof (cases rule: intern_with_fingerprint_cases)
    case (hit p)
    have "k = \<lparr>ik_scope = scope, ik_x = ch_x c, ik_z = ch_z c, ik_fingerprint = fp\<rparr>" if "filed s k a" for k
      using that hit(1) assms(2) unfolding store_ok_def by blast
    moreover have "a < sc_next s"
      using hit(1) assms(2) unfolding store_ok_def by blast
    ultimately show ?thesis
      using grown_ok [OF assms(2) hit(6)] hit(2-5) assms(2) by (simp add: store_ok_def stands_for_def)
  next
    case stored
    have "\<not> filed s k a" for k
      using stored(1) assms(2) unfolding store_ok_def by blast
    then show ?thesis
      using grown_ok [OF assms(2) stored(4)] stored(1-3) assms(2) by (simp add: store_ok_def stands_for_def)
  qed
  then show "store_ok s'" "\<exists>p. sc_heap s' a = Some p \<and> stands_for p c"
    by blast+
qed

lemma intern_cases:
  assumes "intern scope c s = (r, s')"
  obtains (refused) e where "fingerprint c = Err e" "r = Err e" "s' = s"
  | (interned) fp a where "fingerprint c = Ok fp" "r = Ok a" "intern_with_fingerprint scope c fp s = (a, s')"
  using assms by (cases "fingerprint c") (auto simp: intern_def split: prod.splits)

lemma intern_shared_cases:
  assumes "intern_shared scope c s = (r, s')" "store_ok s"
  obtains (refused) e where "fingerprint c = Err e" "r = Err e" "s' = s"
  | (interned) fp p where "fingerprint c = Ok fp" "r = Ok p" "stands_for p c" "store_ok s'"
proof (cases "intern scope c s")
  case (Pair r1 s1)
  then show thesis
  proof (cases rule: intern_cases)
    case (refused e)
    then show thesis
      using that(1) [of e] assms(1) Pair by (simp add: intern_shared_def)
  next
    case (interned fp a)
    then show thesis
      using that(2) [of fp] assms(1) Pair intern_with_fingerprint_ok [OF interned(3) assms(2)]
      by (auto simp: intern_shared_def)
  qed
qed

text \<open>
  So a client may use the shared store wherever the world expects an interner: the chunk it
  reads through the shared payload has the terrain of the chunk it decoded.
\<close>

interpretation shared: chunk_interner "intern_shared scope" store_ok
proof
  show "store_ok s'" if "store_ok s" "intern_shared scope c s = (r, s')" for s c r s'
    using that(2,1) by (cases rule: intern_shared_cases) (use that in auto)
  show "same_terrain c' c" if "store_ok s" "intern_shared scope c s = (Ok c', s')" for s c c' s'
    using that(2,1) by (cases rule: intern_shared_cases) (auto intro: stands_for_terrain)
qed

subsection \<open>Pruning and releasing\<close>

lemma live_filter_files: "shard_files (prune_shard s shard) k a \<Longrightarrow> shard_files shard k a"
  by (auto simp: prune_shard_def shard_files_def Let_def)

lemma prune_shard_ok:
  assumes "shard_ok max_keys max_collisions shard"
  shows "shard_ok max_keys max_collisions (prune_shard s shard)"
proof -
  define entries where "entries = filter (\<lambda>(_, bucket). bucket \<noteq> []) (map (\<lambda>(k, bucket). (k, filter (live s) bucket)) (sh_entries shard))"
  have keys: "map fst (map (\<lambda>(k, bucket). (k, filter (live s) bucket)) xs) = map fst xs" for xs :: "(intern_key \<times> nat list) list"
    by (induction xs) auto
  have "distinct (map fst entries)"
    unfolding entries_def using assms keys [of "sh_entries shard"]
    by (intro distinct_map_filter) (simp only: shard_ok_def)
  moreover have "fst ` set entries \<subseteq> fst ` set (sh_entries shard)"
    by (force simp: entries_def)
  moreover have "length entries \<le> max_keys"
    unfolding entries_def by (rule le_trans [OF length_filter_le]) (use assms in \<open>simp add: shard_ok_def\<close>)
  moreover have "length bucket \<le> max_collisions" if "(k, bucket) \<in> set entries" for k bucket
    using that assms by (auto simp: entries_def shard_ok_def intro: le_trans [OF length_filter_le])
  ultimately show ?thesis
    using assms by (auto simp: prune_shard_def shard_ok_def Let_def entries_def [symmetric])
qed

lemma prune_ok:
  assumes "store_ok s"
  shows "store_ok (prune s)"
proof -
  have "filed s k a" if "filed (prune s) k a" for k a
    using that live_filter_files by (fastforce simp: prune_def filed_def)
  then show ?thesis
    using assms prune_shard_ok unfolding store_ok_def prune_def by simp blast
qed

lemma release_ok: "store_ok s \<Longrightarrow> store_ok (release a s)"
  by (simp add: store_ok_def release_def filed_def)

section \<open>Any number of clients on one store\<close>

text \<open>
  A run of the store: clients intern chunks and drop their last reference to a payload, and
  the store is pruned, in any order. Each call holds the lock of its shard, so a run is a
  sequence. The payloads handed out are recorded.
\<close>

datatype store_action = InternChunk world_scope chunk_snapshot | DropPayload nat | PruneStore

type_synonym grant = "world_scope \<times> chunk_snapshot \<times> nat"

fun store_step :: "store_action \<Rightarrow> shared_chunk_store \<times> grant list \<Rightarrow> shared_chunk_store \<times> grant list" where
  "store_step (InternChunk scope c) (s, grants) = (case intern scope c s of
     (Ok a, s') \<Rightarrow> (s', (scope, c, a) # grants)
   | (Err e, s') \<Rightarrow> (s', grants))"
| "store_step (DropPayload a) (s, grants) = (release a s, grants)"
| "store_step PruneStore (s, grants) = (prune s, grants)"

definition grants_ok :: "shared_chunk_store \<Rightarrow> grant list \<Rightarrow> bool" where
  "grants_ok s grants \<longleftrightarrow>
     (\<forall>scope c a. (scope, c, a) \<in> set grants \<longrightarrow>
        a < sc_next s \<and> (\<forall>p. sc_heap s a = Some p \<longrightarrow> stands_for p c) \<and>
        (\<forall>k. filed s k a \<longrightarrow> ik_scope k = scope) \<and>
        (\<forall>scope' c'. (scope', c', a) \<in> set grants \<longrightarrow> scope' = scope \<and> same_terrain c' c))"

lemma grants_okI:
  assumes "\<And>scope c a p. (scope, c, a) \<in> set grants \<Longrightarrow> a < sc_next s \<and> (sc_heap s a = Some p \<longrightarrow> stands_for p c)"
    and "\<And>scope c a k. (scope, c, a) \<in> set grants \<Longrightarrow> filed s k a \<Longrightarrow> ik_scope k = scope"
    and "\<And>scope c a scope' c'. (scope, c, a) \<in> set grants \<Longrightarrow> (scope', c', a) \<in> set grants \<Longrightarrow>
      scope' = scope \<and> same_terrain c' c"
  shows "grants_ok s grants"
  using assms unfolding grants_ok_def by blast

lemma grants_okD:
  assumes "grants_ok s grants" "(scope, c, a) \<in> set grants"
  shows "a < sc_next s" and "sc_heap s a = Some p \<Longrightarrow> stands_for p c"
    and "filed s k a \<Longrightarrow> ik_scope k = scope"
    and "(scope', c', a) \<in> set grants \<Longrightarrow> scope' = scope \<and> same_terrain c' c"
  using assms unfolding grants_ok_def by blast+

lemma grants_ok_shrink:
  assumes "grants_ok s grants" "sc_next s' = sc_next s" "\<And>a. sc_heap s' a = None \<or> sc_heap s' a = sc_heap s a"
    and "\<And>k a. filed s' k a \<Longrightarrow> filed s k a"
  shows "grants_ok s' grants"
proof (rule grants_okI)
  fix scope c a
  assume g: "(scope, c, a) \<in> set grants"
  show "a < sc_next s' \<and> (sc_heap s' a = Some p \<longrightarrow> stands_for p c)" for p
    using grants_okD(1,2) [OF assms(1) g] assms(2) assms(3) [of a] by auto
  show "ik_scope k = scope" if "filed s' k a" for k
    using grants_okD(3) [OF assms(1) g assms(4) [OF that]] .
  show "scope' = scope \<and> same_terrain c' c" if "(scope', c', a) \<in> set grants" for scope' c'
    using grants_okD(4) [OF assms(1) g that] .
qed

lemma grants_ok_hit:
  assumes "grants_ok s grants" "store_ok s" "filed s key a" "sc_heap s a = Some p" "stands_for p c"
  shows "grants_ok s ((ik_scope key, c, a) # grants)"
proof (rule grants_okI)
  have a: "a < sc_next s" "\<And>k. filed s k a \<Longrightarrow> k = key"
    using assms(2,3) unfolding store_ok_def by blast+
  have same: "scope' = ik_scope key \<and> same_terrain c' c \<and> same_terrain c c'" if "(scope', c', a) \<in> set grants" for scope' c'
    using grants_okD(3) [OF assms(1) that assms(3)] grants_okD(2) [OF assms(1) that assms(4), THEN stands_for_terrain]
      stands_for_terrain [OF assms(5)] by (simp add: same_terrain_def)
  show "b < sc_next s \<and> (sc_heap s b = Some q \<longrightarrow> stands_for q d)"
    if "(scope, d, b) \<in> set ((ik_scope key, c, a) # grants)" for scope d b q
    using that a assms(4,5) grants_okD(1,2) [OF assms(1), of scope d b] by auto
  show "ik_scope k = scope" if "(scope, d, b) \<in> set ((ik_scope key, c, a) # grants)" "filed s k b" for scope d b k
    using that a grants_okD(3) [OF assms(1), of scope d b] by auto
  show "scope' = scope \<and> same_terrain d' d" if "(scope, d, b) \<in> set ((ik_scope key, c, a) # grants)"
      "(scope', d', b) \<in> set ((ik_scope key, c, a) # grants)" for scope d b scope' d'
    using that same [of scope d] same [of scope' d'] grants_okD(4) [OF assms(1), of scope d b scope' d']
    by (auto simp: same_terrain_def)
qed

lemma grants_ok_grown:
  assumes "grants_ok s grants" "store_ok s" "grown s key a s'" "sc_heap s' = sc_heap s" "sc_next s' = sc_next s"
    and "filed s key a"
  shows "grants_ok s' grants"
  using assms(1,5)
proof (rule grants_ok_shrink)
  show "sc_heap s' b = None \<or> sc_heap s' b = sc_heap s b" for b
    using assms(4) by simp
  show "filed s k b" if "filed s' k b" for k b
    using grown_filed [OF assms(3) that] assms(6) by auto
qed

lemma grants_ok_stored:
  assumes "grants_ok s grants" "store_ok s" "grown s key a s'" "a = sc_next s"
    and "sc_heap s' = (sc_heap s)(a \<mapsto> c)" "sc_next s' = sc_next s + 1"
  shows "grants_ok s' ((ik_scope key, c, a) # grants)"
proof (rule grants_okI)
  have new: "\<not> filed s k a" for k
    using assms(2,4) unfolding store_ok_def by blast
  have old: "b < a" if "(scope, d, b) \<in> set grants" for scope d b
    using grants_okD(1) [OF assms(1) that] assms(4) by simp
  show "b < sc_next s' \<and> (sc_heap s' b = Some q \<longrightarrow> stands_for q d)"
    if "(scope, d, b) \<in> set ((ik_scope key, c, a) # grants)" for scope d b q
    using that old [of scope d b] grants_okD(2) [OF assms(1), of scope d b] assms(4-6)
    by (auto simp: stands_for_def)
  show "ik_scope k = scope" if "(scope, d, b) \<in> set ((ik_scope key, c, a) # grants)" "filed s' k b" for scope d b k
    using that(1) grown_filed [OF assms(3) that(2)] new old [of scope d b] grants_okD(3) [OF assms(1), of scope d b k]
    by auto
  show "scope' = scope \<and> same_terrain d' d" if "(scope, d, b) \<in> set ((ik_scope key, c, a) # grants)"
      "(scope', d', b) \<in> set ((ik_scope key, c, a) # grants)" for scope d b scope' d'
    using that old [of scope d b] old [of scope' d' b] grants_okD(4) [OF assms(1), of scope d b scope' d']
    by (auto simp: same_terrain_def)
qed

lemma intern_grants:
  assumes "intern_with_fingerprint scope c fp s = (a, s')" "store_ok s" "grants_ok s grants"
  shows "grants_ok s' ((scope, c, a) # grants)"
  using assms(1,2)
proof (cases rule: intern_with_fingerprint_cases)
  case (hit p)
  then have "stands_for p c"
    by (simp add: stands_for_def)
  then show ?thesis
    using grants_ok_grown [OF grants_ok_hit [OF assms(3,2) hit(1,2)] assms(2) hit(6,4,5,1)] by simp
next
  case stored
  then show ?thesis
    using grants_ok_stored [OF assms(3,2) stored(4,1-3)] by simp
qed

lemma store_step_ok:
  assumes "store_step action (s, grants) = (s', grants')" "store_ok s" "grants_ok s grants"
  shows "store_ok s' \<and> grants_ok s' grants'"
proof (cases action)
  case (InternChunk scope c)
  obtain r s1 where run: "intern scope c s = (r, s1)"
    by fastforce
  then show ?thesis
  proof (cases rule: intern_cases)
    case (refused e)
    then show ?thesis
      using assms InternChunk run by simp
  next
    case (interned fp a)
    then show ?thesis
      using assms InternChunk run intern_grants [OF interned(3) assms(2,3)]
        intern_with_fingerprint_ok(1) [OF interned(3) assms(2)] by simp
  qed
next
  case (DropPayload a)
  have "grants_ok (release a s) grants"
    using assms(3) by (rule grants_ok_shrink) (auto simp: release_def filed_def)
  then show ?thesis
    using assms DropPayload release_ok by auto
next
  case PruneStore
  have "grants_ok (prune s) grants"
    using assms(3) by (rule grants_ok_shrink) (auto simp: prune_def filed_def dest: live_filter_files)
  then show ?thesis
    using assms PruneStore prune_ok by auto
qed

text \<open>A payload that no client dropped stays alive, with its content.\<close>

definition held :: "nat set \<Rightarrow> shared_chunk_store \<Rightarrow> grant list \<Rightarrow> bool" where
  "held dropped s grants \<longleftrightarrow> (\<forall>scope c a. (scope, c, a) \<in> set grants \<longrightarrow> a \<notin> dropped \<longrightarrow>
     (\<exists>p. sc_heap s a = Some p \<and> stands_for p c))"

lemma intern_held:
  assumes "intern_with_fingerprint scope c fp s = (a, s')" "store_ok s" "grants_ok s grants" "held dropped s grants"
  shows "held dropped s' ((scope, c, a) # grants)"
  using assms(1,2)
proof (cases rule: intern_with_fingerprint_cases)
  case (hit p)
  then show ?thesis
    using assms(4) by (auto simp: held_def stands_for_def)
next
  case stored
  have "b \<noteq> a" if "(scope', d, b) \<in> set grants" for scope' d b
    using grants_okD(1) [OF assms(3) that] stored(1) by simp
  then show ?thesis
    using assms(4) stored(2) unfolding held_def by (auto simp: stands_for_def)
qed

lemma store_step_held:
  assumes "store_step action (s, grants) = (s', grants')" "store_ok s" "grants_ok s grants" "held dropped s grants"
    and "\<And>a. action = DropPayload a \<Longrightarrow> a \<in> dropped"
  shows "held dropped s' grants'"
proof (cases action)
  case (InternChunk scope c)
  obtain r s1 where run: "intern scope c s = (r, s1)"
    by fastforce
  then show ?thesis
  proof (cases rule: intern_cases)
    case (refused e)
    then show ?thesis
      using assms InternChunk run by simp
  next
    case (interned fp a)
    then show ?thesis
      using assms(1) InternChunk run intern_held [OF interned(3) assms(2-4)] by simp
  qed
next
  case (DropPayload a)
  then show ?thesis
    using assms by (auto simp: held_def release_def)
next
  case PruneStore
  then show ?thesis
    using assms by (auto simp: held_def prune_def)
qed

definition store_run :: "store_action list \<Rightarrow> shared_chunk_store \<Rightarrow> shared_chunk_store \<times> grant list" where
  "store_run actions s = fold store_step actions (s, [])"

lemma store_run_ok:
  assumes "fold store_step actions (s, grants) = (s', grants')" "store_ok s" "grants_ok s grants" "held dropped s grants"
    and "\<And>a. DropPayload a \<in> set actions \<Longrightarrow> a \<in> dropped"
  shows "store_ok s' \<and> grants_ok s' grants' \<and> held dropped s' grants'"
  using assms
proof (induction actions arbitrary: s grants)
  case (Cons action actions)
  obtain s1 grants1 where step: "store_step action (s, grants) = (s1, grants1)"
    by fastforce
  show ?case
  proof (rule Cons.IH)
    show "fold store_step actions (s1, grants1) = (s', grants')"
      using Cons.prems(1) step by simp
    show "store_ok s1" "grants_ok s1 grants1"
      using store_step_ok [OF step Cons.prems(2,3)] by simp_all
    show "held dropped s1 grants1"
      using store_step_held [OF step Cons.prems(2-4)] Cons.prems(5) by simp
  qed (use Cons.prems(5) in simp)
qed simp

lemma store_run_from_new:
  assumes "with_limits shards keys collisions = Some s0" "store_run actions s0 = (s, grants)"
  shows "store_ok s" and "grants_ok s grants" and "held {a. DropPayload a \<in> set actions} s grants"
  using store_run_ok [OF assms(2)[unfolded store_run_def] with_limits_ok [OF assms(1)],
      of "{a. DropPayload a \<in> set actions}"] by (auto simp: grants_ok_def held_def)

lemma store_step_limits:
  "store_step action (s, grants) = (s', grants') \<Longrightarrow>
     length (sc_shards s') = length (sc_shards s) \<and> sc_max_keys_per_shard s' = sc_max_keys_per_shard s \<and>
     sc_max_collisions_per_key s' = sc_max_collisions_per_key s"
  by (cases action)
    (auto simp: intern_def intern_with_fingerprint_def Let_def alloc_def set_shard_def release_def prune_def
      split: sum.splits prod.splits option.splits if_splits)

lemma store_run_limits:
  "fold store_step actions (s, grants) = (s', grants') \<Longrightarrow>
     length (sc_shards s') = length (sc_shards s) \<and> sc_max_keys_per_shard s' = sc_max_keys_per_shard s \<and>
     sc_max_collisions_per_key s' = sc_max_collisions_per_key s"
proof (induction actions arbitrary: s grants)
  case (Cons action actions)
  obtain s1 grants1 where step: "store_step action (s, grants) = (s1, grants1)"
    by fastforce
  show ?case
    using Cons.IH [of s1 grants1] Cons.prems step store_step_limits [OF step] by simp
qed simp

subsection \<open>The statistics are within the limits\<close>

lemma sum_list_bounded: "(\<And>x. x \<in> set xs \<Longrightarrow> f x \<le> (b :: nat)) \<Longrightarrow> sum_list (map f xs) \<le> length xs * b"
  by (induction xs) (auto intro: add_mono)

lemma sum_list_mult: "(\<And>x. x \<in> set xs \<Longrightarrow> f x \<le> g x * (b :: nat)) \<Longrightarrow> sum_list (map f xs) \<le> sum_list (map g xs) * b"
  by (induction xs) (auto simp: add_mult_distrib intro: add_mono)

lemma length_concat_snd: "length (concat (map snd xs)) = sum_list (map (\<lambda>(_, b). length b) xs)"
  by (induction xs) auto

lemma stats_bounded:
  assumes "store_ok s"
  shows "ss_cache_keys (stats s) \<le> length (sc_shards s) * sc_max_keys_per_shard s"
    and "ss_weak_entries (stats s) \<le> ss_cache_keys (stats s) * sc_max_collisions_per_key s"
    and "ss_live_payloads (stats s) \<le> ss_weak_entries (stats s)"
proof -
  have ok: "shard_ok (sc_max_keys_per_shard s) (sc_max_collisions_per_key s) shard" if "shard \<in> set (sc_shards s)" for shard
    using assms that by (simp add: store_ok_def)
  show "ss_cache_keys (stats s) \<le> length (sc_shards s) * sc_max_keys_per_shard s"
    using ok by (auto simp: stats_def shard_ok_def intro!: sum_list_bounded)
  have "sum_list (map (\<lambda>(_, b). length b) (sh_entries shard)) \<le> length (sh_entries shard) * sc_max_collisions_per_key s"
    if "shard \<in> set (sc_shards s)" for shard
    using ok [OF that] by (intro sum_list_bounded) (auto simp: shard_ok_def)
  then show "ss_weak_entries (stats s) \<le> ss_cache_keys (stats s) * sc_max_collisions_per_key s"
    by (simp add: stats_def sum_list_mult)
  have "ss_live_payloads (stats s) \<le> length (concat (map (\<lambda>sh. concat (map snd (sh_entries sh))) (sc_shards s)))"
    unfolding stats_def store_stats.select_convs by (rule le_trans [OF card_length length_filter_le])
  then show "ss_live_payloads (stats s) \<le> ss_weak_entries (stats s)"
    by (simp add: stats_def length_concat comp_def length_concat_snd [symmetric])
qed

subsection \<open>Finding a shared payload again\<close>

definition found :: "shared_chunk_store \<Rightarrow> intern_key \<Rightarrow> chunk_snapshot \<Rightarrow> nat option" where
  "found s key c = (case map_of (sh_entries (sc_shards s ! shard_index s key)) key of
     None \<Rightarrow> None
   | Some bucket \<Rightarrow> find (\<lambda>a. case sc_heap s a of None \<Rightarrow> False | Some p \<Rightarrow> snapshot_eq p c) (filter (live s) bucket))"

abbreviation key_of :: "world_scope \<Rightarrow> chunk_snapshot \<Rightarrow> u64 \<Rightarrow> intern_key" where
  "key_of scope c fp \<equiv> \<lparr>ik_scope = scope, ik_x = ch_x c, ik_z = ch_z c, ik_fingerprint = fp\<rparr>"

lemma intern_found:
  assumes "found s (key_of scope c fp) c = Some b" "intern_with_fingerprint scope c fp s = (a, s')"
  shows "a = b" and "sc_heap s' = sc_heap s"
  using assms by (auto simp: found_def intern_with_fingerprint_def Let_def set_shard_def split: option.splits)

lemma find_filter_live:
  "find (\<lambda>a. case sc_heap s a of None \<Rightarrow> False | Some p \<Rightarrow> P p) (filter (live s) xs) =
    find (\<lambda>a. case sc_heap s a of None \<Rightarrow> False | Some p \<Rightarrow> P p) xs"
  by (induction xs) (auto simp: live_def)

lemma find_append: "find P (xs @ ys) = (case find P xs of None \<Rightarrow> find P ys | Some x \<Rightarrow> Some x)"
  by (induction xs) auto

lemma find_cong_set: "(\<And>x. x \<in> set xs \<Longrightarrow> P x = Q x) \<Longrightarrow> find P xs = find Q xs"
  by (induction xs) auto

lemma found_eq:
  assumes "sc_shards s ! shard_index s key = shard" "map_of (sh_entries shard) key = Some bucket"
  shows "found s key c = find (\<lambda>a. case sc_heap s a of None \<Rightarrow> False | Some p \<Rightarrow> snapshot_eq p c) bucket"
  using assms by (simp add: found_def find_filter_live)

lemma found_after_set_shard:
  assumes "i = shard_index s key" "i < length (sc_shards s)" "map_of (sh_entries shard) key = Some bucket"
  shows "found (set_shard i shard s) key c =
    find (\<lambda>a. case sc_heap s a of None \<Rightarrow> False | Some p \<Rightarrow> snapshot_eq p c) bucket"
proof -
  have "shard_index (set_shard i shard s) key = i"
    using assms(1) by (simp add: shard_index_def set_shard_def Let_def)
  then have "sc_shards (set_shard i shard s) ! shard_index (set_shard i shard s) key = shard"
    using assms(2) by (simp add: set_shard_def)
  from found_eq [OF this assms(3)] show ?thesis
    by (simp add: set_shard_def)
qed

lemma shard_index_cong: "sc_shards s' = sc_shards s \<Longrightarrow> shard_index s' key = shard_index s key"
  by (simp add: shard_index_def)

lemma find_fresh:
  assumes "find (\<lambda>a. case sc_heap s a of None \<Rightarrow> False | Some p \<Rightarrow> snapshot_eq p c) kept = None"
    and "a \<notin> set kept" "snapshot_eq c c"
  shows "find (\<lambda>b. case ((sc_heap s)(a \<mapsto> c)) b of None \<Rightarrow> False | Some p \<Rightarrow> snapshot_eq p c) (kept @ [a]) = Some a"
proof -
  have "find (\<lambda>b. case ((sc_heap s)(a \<mapsto> c)) b of None \<Rightarrow> False | Some p \<Rightarrow> snapshot_eq p c) kept =
      find (\<lambda>a. case sc_heap s a of None \<Rightarrow> False | Some p \<Rightarrow> snapshot_eq p c) kept"
    by (rule find_cong_set) (use assms(2) in auto)
  then show ?thesis
    using assms(1,3) by (simp add: find_append)
qed

lemma intern_then_found:
  assumes "intern_with_fingerprint scope c fp s = (a, s')" "store_ok s" "snapshot_eq c c"
    and "sc_uncached_collision_payloads s' = sc_uncached_collision_payloads s"
  shows "found s' (key_of scope c fp) c = Some a"
proof -
  define key where "key = key_of scope c fp"
  define i where "i = shard_index s key"
  define shard where "shard = sc_shards s ! i"
  have i: "i < length (sc_shards s)"
    using assms(2) shard_index_less by (auto simp: i_def store_ok_def)
  note eq = assms(1)[unfolded intern_with_fingerprint_def, folded key_def, unfolded Let_def, folded i_def, folded shard_def]
  have after: "found (set_shard i shard' s1) key c =
      find (\<lambda>a. case sc_heap s1 a of None \<Rightarrow> False | Some p \<Rightarrow> snapshot_eq p c) bucket"
    if "sc_shards s1 = sc_shards s" "map_of (sh_entries shard') key = Some bucket" for s1 shard' bucket
    using found_after_set_shard [of i s1 key shard' bucket] that i shard_index_cong [OF that(1), of key] by (simp add: i_def)
  have "found s' key c = Some a"
  proof (cases "map_of (sh_entries shard) key")
    case None
    obtain order entries n where ev: "evict (sc_max_keys_per_shard s) (sh_insertion_order shard) (sh_entries shard)
        (sc_evictions s) = (order, entries, n)"
      by (metis prod_cases3)
    then show ?thesis
      using eq None assms(3) by (auto simp: alloc_def after AList.update_conv')
  next
    case (Some bucket)
    define kept where "kept = filter (live s) bucket"
    note eq = eq[unfolded Some option.case, folded kept_def]
    show ?thesis
    proof (cases "find (\<lambda>a. case sc_heap s a of None \<Rightarrow> False | Some p \<Rightarrow> snapshot_eq p c) kept")
      case None
      have "sc_next s \<notin> set kept"
        using assms(2) by (auto simp: kept_def live_def store_ok_def)
      moreover have "length kept < sc_max_collisions_per_key s"
        using eq None assms(4) by (auto simp: alloc_def set_shard_def split: if_splits)
      ultimately show ?thesis
        using eq None find_fresh [OF None _ assms(3)] by (auto simp: alloc_def after AList.update_conv')
    next
      case hit: (Some b)
      then show ?thesis
        using eq by (auto simp: after AList.update_conv')
    qed
  qed
  then show ?thesis
    by (simp add: key_def)
qed

subsection \<open>A client among others\<close>

text \<open>
  One client's world packets, interleaved with whatever the other clients and the pruning do to
  the store. The client stops at its first refused packet.
\<close>

fun interleaved ::
  "world_scope \<Rightarrow> (world_packet + store_action) list \<Rightarrow> (world \<times> shared_chunk_store, mine_rider_error, unit) fallible" where
  "interleaved scope [] st = (Ok (), st)"
| "interleaved scope (Inl p # events) (w, s) =
    bind_st (apply_world_packet (intern_shared scope) p) (\<lambda>_. interleaved scope events) (w, s)"
| "interleaved scope (Inr action # events) (w, s) = interleaved scope events (w, fst (store_step action (s, [])))"

fun own_packets :: "(world_packet + store_action) list \<Rightarrow> world_packet list" where
  "own_packets [] = []"
| "own_packets (Inl p # events) = p # own_packets events"
| "own_packets (Inr _ # events) = own_packets events"

lemma interleaved_effect:
  assumes "interleaved scope events (w, s) = (Ok (), (w', s'))" "store_ok s" "world_ok w"
  shows "blocks w' = fold (packet_effect (w_dimension w)) (own_packets events) (blocks w) \<and> world_ok w' \<and> store_ok s'"
  using assms
proof (induction events arbitrary: w s)
  case (Cons event events)
  show ?case
  proof (cases event)
    case (Inl p)
    with Cons.prems(1) obtain w1 s1 where
      step: "apply_world_packet (intern_shared scope) p (w, s) = (Ok (), (w1, s1))"
      and more: "interleaved scope events (w1, s1) = (Ok (), (w', s'))"
      by (auto simp: bind_st_Ok)
    have "world_ok w1 \<and> store_ok s1" "w_dimension w1 = w_dimension w"
      using shared.apply_world_packet_ok [OF step Cons.prems(2,3)]
        shared.apply_world_packet_dimension [of scope p w s] step by auto
    then show ?thesis
      using Cons.IH [OF more] shared.apply_world_packet_effect [OF step Cons.prems(2,3)] Inl by simp
  next
    case (Inr action)
    obtain s1 grants where step: "store_step action (s, []) = (s1, grants)"
      by fastforce
    then have "store_ok s1"
      using store_step_ok [OF step Cons.prems(2)] by (simp add: grants_ok_def)
    then show ?thesis
      using Cons.IH [of w s1] Cons.prems(1,3) Inr step by simp
  qed
qed simp

section \<open>Properties of the shared store\<close>

text \<open>A client's scope on a sample server.\<close>

definition sample_scope :: world_scope where
  "sample_scope = new_world_scope (new_server_identity ''Play.Example.'' 25565) ''minecraft:overworld'' 7 sample_dimension"

lemma sample_fingerprint: "\<exists>fp. fingerprint sample_snapshot = Ok fp"
proof -
  have "\<exists>w. encode_nbt new_writer (NbtCompound []) = Ok w"
    using encode_nbt_enc [of "NbtCompound []" new_writer] by auto
  then show ?thesis
    by (auto simp: fingerprint_def sample_snapshot_def hash_nbt_def Let_def)
qed

text \<open>C3: Sharing is sound, for any number of clients and any order of their calls. From a new
  store, let clients intern chunks, drop payloads and prune in any order. Two calls that got
  the same payload named the same server, world and dimension, and chunks at the same position
  with the same sections: no content crosses a scope, whatever the fingerprints. A payload
  that was not dropped is still there, and is the interned chunk or equal to it.\<close>

theorem sharing_is_sound:
  assumes "with_limits shards keys collisions = Some s0" "store_run actions s0 = (s, grants)"
  shows "(\<forall>scope c scope' c' a. (scope, c, a) \<in> set grants \<and> (scope', c', a) \<in> set grants \<longrightarrow>
      scope' = scope \<and> same_terrain c' c) \<and>
    (\<forall>scope c a. (scope, c, a) \<in> set grants \<and> DropPayload a \<notin> set actions \<longrightarrow>
      (\<exists>p. sc_heap s a = Some p \<and> (p = c \<or> snapshot_eq p c)))"
  using grants_okD(4) [OF store_run_from_new(2) [OF assms]] store_run_from_new(3) [OF assms]
  by (auto simp: held_def stands_for_def)

text \<open>Two clients of one scope and one of another intern the same chunk.\<close>

definition other_scope :: world_scope where
  "other_scope = sample_scope\<lparr>sc_server := new_server_identity ''other.example'' 25565\<rparr>"

definition sample_actions :: "store_action list" where
  "sample_actions = [InternChunk sample_scope sample_snapshot, InternChunk other_scope sample_snapshot,
     InternChunk sample_scope sample_snapshot]"

lemma sample_snapshot_eq: "snapshot_eq sample_snapshot sample_snapshot"
  by code_simp

lemma sample_run:
  obtains s0 s where "with_limits 1 4 8 = Some s0"
    "store_run sample_actions s0 = (s, [(sample_scope, sample_snapshot, 0), (other_scope, sample_snapshot, 1),
       (sample_scope, sample_snapshot, 0)])"
proof -
  obtain fp where fp: "fingerprint sample_snapshot = Ok fp"
    using sample_fingerprint by blast
  obtain s0 where s0: "with_limits 1 4 8 = Some s0"
    by (simp add: with_limits_def)
  have differ: "other_scope \<noteq> sample_scope"
    by code_simp
  have "snd (store_run sample_actions s0) =
      [(sample_scope, sample_snapshot, 0), (other_scope, sample_snapshot, 1), (sample_scope, sample_snapshot, 0)]"
    using s0 by (auto simp: with_limits_def store_run_def sample_actions_def intern_def fp differ differ [symmetric]
        intern_with_fingerprint_def Let_def shard_index_def alloc_def set_shard_def default_shard_def live_def
        sample_snapshot_eq)
  then show thesis
    using that s0 by (metis prod.collapse)
qed

theorem sharing_is_sound_witness:
  "\<exists>s0 s. with_limits 1 4 8 = Some s0 \<and>
    store_run sample_actions s0 = (s, [(sample_scope, sample_snapshot, 0), (other_scope, sample_snapshot, 1),
       (sample_scope, sample_snapshot, 0)]) \<and>
    (\<exists>p. sc_heap s 0 = Some p \<and> (p = sample_snapshot \<or> snapshot_eq p sample_snapshot))"
proof -
  obtain s0 s where run: "with_limits 1 4 8 = Some s0"
    "store_run sample_actions s0 = (s, [(sample_scope, sample_snapshot, 0), (other_scope, sample_snapshot, 1),
       (sample_scope, sample_snapshot, 0)])"
    by (rule sample_run)
  have "DropPayload 0 \<notin> set sample_actions"
    by (simp add: sample_actions_def)
  then show ?thesis
    using sharing_is_sound [OF run] run by (metis list.set_intros(1))
qed

text \<open>C11: The store is bounded, however long it runs. After any calls from a new store the
  number of cached keys is at most the shard count times the keys per shard, the weak
  references at most the collision limit for each key, and no more payloads are alive through
  the cache than it has references. In every shard the eviction order lists each cached key
  exactly once, so nothing can stay cached without being due for eviction.\<close>

theorem store_stays_bounded:
  assumes "with_limits shards keys collisions = Some s0" "store_run actions s0 = (s, grants)"
  shows "ss_cache_keys (stats s) \<le> shards * keys \<and>
    ss_weak_entries (stats s) \<le> shards * keys * collisions \<and>
    ss_live_payloads (stats s) \<le> ss_weak_entries (stats s) \<and>
    (\<forall>shard \<in> set (sc_shards s). distinct (sh_insertion_order shard) \<and>
       set (sh_insertion_order shard) = fst ` set (sh_entries shard) \<and> length (sh_insertion_order shard) \<le> keys)"
proof -
  note ok = store_run_from_new(1) [OF assms]
  have limits: "length (sc_shards s) = shards" "sc_max_keys_per_shard s = keys" "sc_max_collisions_per_key s = collisions"
    using store_run_limits [OF assms(2)[unfolded store_run_def]] assms(1) by (auto simp: with_limits_def split: if_splits)
  have "ss_weak_entries (stats s) \<le> shards * keys * collisions"
    using stats_bounded(1,2) [OF ok] limits by (meson le_trans mult_le_mono1)
  moreover have "length (sh_insertion_order shard) \<le> keys" if "shard \<in> set (sc_shards s)" for shard
    using ok that limits unfolding store_ok_def shard_ok_def by (metis distinct_card length_map set_map)
  ultimately show ?thesis
    using stats_bounded [OF ok] limits ok by (simp add: store_ok_def shard_ok_def)
qed

theorem store_stays_bounded_witness:
  "\<exists>s0 s grants. with_limits 1 4 8 = Some s0 \<and> store_run sample_actions s0 = (s, grants) \<and>
    length grants = 3 \<and> ss_weak_entries (stats s) \<le> 32"
proof -
  obtain s0 s where run: "with_limits 1 4 8 = Some s0"
    "store_run sample_actions s0 = (s, [(sample_scope, sample_snapshot, 0), (other_scope, sample_snapshot, 1),
       (sample_scope, sample_snapshot, 0)])"
    by (rule sample_run)
  have "ss_weak_entries (stats s) \<le> 32"
    using store_stays_bounded [OF run] by simp
  then show ?thesis
    using run by (metis length_Cons list.size(3) numeral_3_eq_3)
qed

text \<open>C21: Equal chunks share. In any state the store can reach, a client interns a chunk that
  equals itself (its block-entity data holds no NaN) and the collision bucket was not full. A
  second client of the same scope that interns the same chunk then gets the very same payload,
  and nothing is allocated.\<close>

theorem equal_chunks_share:
  assumes "with_limits shards keys collisions = Some s0" "store_run actions s0 = (s, grants)"
    and "snapshot_eq c c" "intern scope c s = (Ok a, s1)"
    and "sc_uncached_collision_payloads s1 = sc_uncached_collision_payloads s"
  shows "\<exists>s2. intern scope c s1 = (Ok a, s2) \<and> sc_heap s2 = sc_heap s1"
  using assms(4)
proof (cases rule: intern_cases)
  case (interned fp b)
  then have "intern_with_fingerprint scope c fp s = (a, s1)"
    by simp
  then have "found s1 (key_of scope c fp) c = Some a"
    using intern_then_found store_run_from_new(1) [OF assms(1,2)] assms(3,5) by blast
  moreover obtain b' s2 where "intern_with_fingerprint scope c fp s1 = (b', s2)"
    by fastforce
  ultimately show ?thesis
    using intern_found [of s1 scope c fp a b' s2] interned(1) by (auto simp: intern_def)
qed simp

lemma sample_intern:
  assumes "with_limits 1 4 8 = Some s0"
  obtains s1 where "intern sample_scope sample_snapshot s0 = (Ok 0, s1)"
    "sc_uncached_collision_payloads s1 = sc_uncached_collision_payloads s0" "sc_heap s1 0 = Some sample_snapshot"
proof -
  obtain fp where fp: "fingerprint sample_snapshot = Ok fp"
    using sample_fingerprint by blast
  have "fst (intern sample_scope sample_snapshot s0) = Ok 0 \<and>
      sc_uncached_collision_payloads (snd (intern sample_scope sample_snapshot s0)) = sc_uncached_collision_payloads s0 \<and>
      sc_heap (snd (intern sample_scope sample_snapshot s0)) 0 = Some sample_snapshot"
    using assms by (auto simp: with_limits_def intern_def fp intern_with_fingerprint_def Let_def shard_index_def
        alloc_def set_shard_def default_shard_def)
  then show thesis
    using that by (metis prod.collapse)
qed

theorem equal_chunks_share_witness:
  "\<exists>s0 s1 s2. with_limits 1 4 8 = Some s0 \<and> intern sample_scope sample_snapshot s0 = (Ok 0, s1) \<and>
    intern sample_scope sample_snapshot s1 = (Ok 0, s2) \<and> sc_heap s2 = sc_heap s1"
proof -
  obtain s0 where s0: "with_limits 1 4 8 = Some s0"
    by (simp add: with_limits_def)
  obtain s1 where s1: "intern sample_scope sample_snapshot s0 = (Ok 0, s1)"
    "sc_uncached_collision_payloads s1 = sc_uncached_collision_payloads s0"
    by (rule sample_intern [OF s0])
  have "store_run [] s0 = (s0, [])"
    by (simp add: store_run_def)
  from equal_chunks_share [OF s0 this sample_snapshot_eq s1] show ?thesis
    using s0 s1 by blast
qed

text \<open>C10: Sharing is transparent. A client's world on the shared store, with the packets of the
  client interleaved with any calls of other clients, shows the blocks that its own packets
  give: those of the specification that a world without the store refines as well. What others
  intern, drop or evict never shows.\<close>

theorem shared_world_is_transparent:
  assumes "dimension_fits d" "with_limits shards keys collisions = Some s0"
    and "interleaved scope events (new_world d, s0) = (Ok (), (w, s))"
  shows "blocks w = fold (packet_effect d) (own_packets events) (\<lambda>_. None) \<and> world_ok w \<and> store_ok s"
proof -
  have "blocks (new_world d) = (\<lambda>_. None)"
    by (auto simp: blocks_def block_state_def new_world_def Let_def)
  then show ?thesis
    using interleaved_effect [OF assms(3) with_limits_ok [OF assms(2)] new_world_ok [OF assms(1)]]
    by (simp add: new_world_def)
qed

lemma sample_chunk_shared:
  assumes "with_limits 1 4 8 = Some s0"
  obtains w s where "interleaved sample_scope [Inl (MapChunk sample_chunk), Inr PruneStore, Inr (DropPayload 0)]
    (new_world sample_dimension, s0) = (Ok (), (w, s))"
proof -
  obtain s1 where s1: "intern sample_scope sample_snapshot s0 = (Ok 0, s1)" "sc_heap s1 0 = Some sample_snapshot"
    by (rule sample_intern [OF assms])
  have "\<exists>w. insert_chunk (intern_shared sample_scope) sample_chunk (new_world sample_dimension, s0) = (Ok (), (w, s1))"
    using sample_chunk_decodes s1
    by (simp add: insert_chunk_def new_world_def store_chunk_def intern_shared_def sample_snapshot_def)
  then show thesis
    using that by (auto simp: bind_st_def)
qed

theorem shared_world_is_transparent_witness:
  "dimension_fits sample_dimension \<and>
   (\<exists>s0 w s. with_limits 1 4 8 = Some s0 \<and>
     interleaved sample_scope [Inl (MapChunk sample_chunk), Inr PruneStore, Inr (DropPayload 0)]
       (new_world sample_dimension, s0) = (Ok (), (w, s)) \<and>
     block_state w (- 1) (- 16) 0 = Some 7 \<and> block_state w 0 (- 16) 0 = None)"
proof -
  let ?events = "[Inl (MapChunk sample_chunk), Inr PruneStore, Inr (DropPayload 0)]"
  obtain s0 where s0: "with_limits 1 4 8 = Some s0"
    by (simp add: with_limits_def)
  obtain w s where run: "interleaved sample_scope ?events (new_world sample_dimension, s0) = (Ok (), (w, s))"
    by (rule sample_chunk_shared [OF s0])
  have "blocks w = fold (packet_effect sample_dimension) [MapChunk sample_chunk] (\<lambda>_. None)"
    using shared_world_is_transparent [OF sample_dimension_fits s0 run] by simp
  moreover have "\<dots> (- 1, - 16, 0) = Some 7" "\<dots> (0, - 16, 0) = None"
    by code_simp+
  ultimately have "block_state w (- 1) (- 16) 0 = Some 7" "block_state w 0 (- 16) 0 = None"
    by (simp_all add: blocks_def fun_eq_iff)
  then show ?thesis
    using s0 run sample_dimension_fits by blast
qed

end
