(* ===== verification/Spec2Isabelle.thy ===== *)
theory Spec2Isabelle
  imports Connection Socks5 Wire_Nbt Lua_Dispatch Swarm_Registry Inventory Scoreboard Control Supervisor_Clicks Shared_World
begin

text \<open>
  Verification of the Minerider client core, a headless Minecraft client (protocol 1.21.4) in
  Rust. The root theory documents the development and holds the property that spans the
  components from the wire to the client's state.

  \<^bold>\<open>The program.\<close> A \<open>ClientSupervisor\<close> (src/src/core/supervisor.rs) keeps one bot connected: it
  connects, runs a session, and reconnects by a policy. A session reads packets from a
  \<open>Connection\<close> (src/src/network/connection.rs), which frames, compresses and encrypts them
  with the codecs of src/crates/minerider-protocol, perhaps through a SOCKS5 proxy. The play loop
  decodes each packet and applies it to the inventory, the scoreboard and the world; equal
  chunks of several bots are shared through one store. Callers queue commands, which the
  controller turns into movement, and read events, which the Lua queues deliver to scripts.

  \<^bold>\<open>Conventions.\<close> Rust integers are words of their width; \<open>usize\<close> is \<open>nat\<close>. \<open>Result\<close> is a sum
  with \<open>Ok\<close> and \<open>Err\<close>, error variants keep their data and lose their message texts. A method
  with \<open>&mut self\<close> takes and returns the state. Strings are byte strings where the code looks
  at bytes. Floats are IEEE-754 bit patterns. Arithmetic wraps as in a release build. Code
  outside the repository (flate2, the AES block function, serde_json, float arithmetic, the random
  generator) is an argument; what a theorem needs of it is a named hypothesis, met by a
  concrete function in the theorem's witness. Sockets are scripts of read and write results,
  concurrent tasks are sequences of steps in any order.

  \<^bold>\<open>Wire format\<close> (src/crates/minerider-protocol/src).
  \<^item> \<open>Prelude\<close>: the word types, results, the state-and-error type \<open>fallible\<close> and its rules.
  \<^item> \<open>Wire_Reader\<close>, \<open>Wire_Varint\<close>, \<open>Wire_Buffer\<close> (buffer.rs, varint.rs, varlong.rs): reader, writer
    and every primitive. The locale \<open>wire_codec\<close> says that a written value is read back and
    nothing more is consumed, \<open>exact_codec\<close> that the reader accepts no other bytes,
    \<open>safe_read\<close> that a read stays inside the buffer; each primitive interprets them, and
    arrays and options are proved once over any element. The loops are shown to be exactly
    the 7-bit encoding, with all outcomes of the decoder.
  \<^item> \<open>Wire_Frame\<close> (codec.rs, compression.rs, packet.rs): framing and the incremental decoder;
    round trip, and whatever the bytes, what a decoded packet holds and consumes is bounded.
  \<^item> \<open>Wire_Nbt\<close> (nbt.rs): the tag tree with its depth and node limits; round trip and
    canonicity of decoding.
  \<^item> \<open>Wire_Traits\<close>, \<open>Scoreboard_Packets\<close> (traits.rs, generated/v1_21_4/play.rs): the \<open>Encode\<close> and
    \<open>Decode\<close> implementations as \<open>trait_codec\<close>s, composed field by field into the codecs of
    the five scoreboard packets.

  \<^bold>\<open>Network\<close> (src/src/network).
  \<^item> \<open>Connection\<close> (connection.rs, and crypto/aes.rs of the protocol crate): deadlines, poisoning, compression and
    encryption. Packets arrive whatever the chunking, and a connection that timed out in a
    send never writes again.
  \<^item> \<open>Socks5\<close> (socks5.rs): the negotiation succeeds exactly on the accepting answers and sends
    its requests in stages.

  \<^bold>\<open>Supervision\<close> (src/src/core/supervisor.rs).
  \<^item> \<open>Reconnect_Policy\<close>: decisions and delays, with the bound on the delay.
  \<^item> \<open>Supervisor\<close>: \<open>run\<close> as a state machine of polls, one from each suspension point to the
    next, interleaved with the calls of handles. Commands reach only the session they were
    queued for, every call is answered once, attempts are bounded, a failing server is given
    up, a stop takes effect after two polls, and what is published agrees with the task.
  \<^item> \<open>Supervisor_Clicks\<close>: the inventory calls of the handle.
  \<^item> \<open>Control\<close> (minecraft/control.rs): commands, validation and the controller; held keys
    determine the impulses, and random look stays in its range.

  \<^bold>\<open>State of a session\<close> (src/src/minecraft).
  \<^item> \<open>Inventory\<close> (inventory.rs): windows, clicks, drags and the transaction log, which the
    locale \<open>bounded_log\<close> of \<open>Btree_Map\<close> describes. Over any run each queued transaction is
    still pending or was finished by exactly one event, and pending ones expire.
  \<^item> \<open>Text\<close> (text.rs): NBT and JSON text components under one budget; parsing is bounded
    whatever arrives, and the two forms agree.
  \<^item> \<open>Scoreboard\<close> (scoreboard.rs): objectives, scores and teams. Limits and cross references
    hold over any updates, and team updates refine a membership relation.
  \<^item> \<open>Dimension\<close>, \<open>Palette\<close>, \<open>World\<close> (configuration.rs, world.rs): the registered dimensions,
    paletted containers and chunks. Under every packet the packed sections refine a plain map
    from coordinates to blocks, and stay well-formed. \<open>World\<close> is written against the locale
    \<open>chunk_interner\<close>, the contract of the store that keeps chunks.
  \<^item> \<open>Shared_World\<close> (shared_world.rs): fingerprints, interning, eviction and pruning; \<open>Arc\<close> and
    \<open>Weak\<close> are addresses in a heap. For any interleaving of clients sharing is sound, bounded
    and invisible to each client; the theory interprets \<open>chunk_interner\<close> on the store.

  \<^bold>\<open>Events and scripts\<close> (src/src/lua).
  \<^item> \<open>Lua_Queue\<close> (queue.rs): both queue designs interpret the locale \<open>event_queue\<close>; nothing is
    invented or delivered twice, and the priority queue delivers exactly what its three lanes
    keep, in lane order.
  \<^item> \<open>Lua_Dispatch\<close> (dispatcher.rs, event.rs): the dispatcher over the worker queues, with a push
    in its separate steps so that pushes, drains and \<open>close\<close> interleave. Every action result
    of a request is at exactly one place, and a bot's events go only to its worker.
  \<^item> \<open>Swarm_Registry\<close> (registry.rs): the bots of a swarm by id and by name; both indexes agree
    over any operations, and an allocated id is the least free one.

  \<^bold>\<open>Termination and fuel.\<close> All functions are total. The loops over readers are bounded by the
  remaining bytes or by a count from the wire, and the text parsers by the tree they read. The
  compound loop of \<open>Wire_Nbt\<close> takes the number of bytes left as fuel; each turn consumes one, and
  the loop is proved equal to its equations without fuel. The reading calls of \<open>Connection\<close> and
  \<open>Socks5\<close> recurse over the script of socket results. \<open>Supervisor\<close> needs no fuel: a run is a list
  of polls, and that enough polls reach the end is a theorem.

  \<^bold>\<open>Not modelled.\<close>
  \<^item> Movement physics, collision boxes, entity and player positions and chunk-batch pacing: their
    content is floating-point arithmetic, which this development only compares.
  \<^item> The login, configuration and play exchanges, the resource-pack download and authentication:
    sequences of socket and HTTP calls. Of the play loop the branches for scoreboard and
    world packets are modelled, of configuration.rs the dimension registry.
  \<^item> The HUD, presentation, tab-list and GUI projections and the registry holder codec: they have
    no definitions here. Which lane and handler name a bot event has is an argument.
  \<^item> The Lua runtime (embedding of mlua), generated packet types beyond those named, the
    code generator, trace recording, binaries and the web panel.
\<close>

section \<open>From the server's packets to the client's scoreboard\<close>

text \<open>What the play loop does with a packet for the scoreboard: a malformed one is ignored.\<close>

definition play_scoreboard :: "raw_packet \<Rightarrow> scoreboard_state \<Rightarrow> scoreboard_state" where
  "play_scoreboard p s = (case sb_decode_update (pk_id p) (pk_payload p) of
     Ok (Some update) \<Rightarrow> snd (sb_apply s update)
   | Ok None \<Rightarrow> s
   | Err _ \<Rightarrow> s)"

text \<open>A scoreboard packet as the server has it, the raw packet it sends, and the update it means.\<close>

datatype server_packet =
    ServerObjective packet_scoreboard_objective
  | ServerDisplay packet_display_objective
  | ServerScore packet_scoreboard_score
  | ServerReset packet_reset_score
  | ServerTeams packet_teams

fun server_packet_ok :: "server_packet \<Rightarrow> bool" where
  "server_packet_ok (ServerObjective p) = objective_ok p"
| "server_packet_ok (ServerDisplay p) = str_ok (do_name p)"
| "server_packet_ok (ServerScore p) = score_ok p"
| "server_packet_ok (ServerReset p) = reset_score_ok p"
| "server_packet_ok (ServerTeams p) = teams_ok p"

definition raw_of :: "i32 \<Rightarrow> protocol_error + packet_writer \<Rightarrow> raw_packet" where
  "raw_of pid r = \<lparr>pk_id = pid, pk_payload = (case r of Ok w \<Rightarrow> wr_buf w | Err _ \<Rightarrow> [])\<rparr>"

fun raw_packet_of :: "server_packet \<Rightarrow> raw_packet" where
  "raw_packet_of (ServerObjective p) = raw_of CLIENTBOUND_SCOREBOARD_OBJECTIVE_ID (encode_objective new_writer p)"
| "raw_packet_of (ServerDisplay p) = raw_of CLIENTBOUND_SCOREBOARD_DISPLAY_OBJECTIVE_ID (encode_display_objective new_writer p)"
| "raw_packet_of (ServerScore p) = raw_of CLIENTBOUND_SCOREBOARD_SCORE_ID (encode_score new_writer p)"
| "raw_packet_of (ServerReset p) = raw_of CLIENTBOUND_RESET_SCORE_ID (encode_reset_score new_writer p)"
| "raw_packet_of (ServerTeams p) = raw_of CLIENTBOUND_TEAMS_ID (encode_teams new_writer p)"

fun update_of :: "server_packet \<Rightarrow> scoreboard_update" where
  "update_of (ServerObjective p) = UpObjective (so_name p) (objective_action_from (so_action p)) (objective_definition_of p)"
| "update_of (ServerDisplay p) = UpDisplaySlot (display_slot_from (do_position p)) (if do_name p = '''' then None else Some (do_name p))"
| "update_of (ServerScore p) = UpSetScore \<lparr>sr_owner = sc_item_name p, sr_objective = sc_score_name p, sr_value = sc_value p,
     sr_display_name = map_option from_nbt (sc_display_name p),
     sr_number_format = number_format_of (sc_number_format p) (score_styling_of (sc_styling p))\<rparr>"
| "update_of (ServerReset p) = UpResetScore (rs_entity_name p) (rs_objective_name p)"
| "update_of (ServerTeams p) = UpTeam (team_update_of p)"

lemma raw_packet_decodes:
  assumes "server_packet_ok p"
  shows "sb_decode_update (pk_id (raw_packet_of p)) (pk_payload (raw_packet_of p)) = Ok (Some (update_of p))"
proof (cases p)
  case (ServerObjective q)
  then show ?thesis
    using packet_reads [OF objective_packet.trait_codec_axioms, of q] assms
    by (auto simp: raw_of_def sb_decode_update_def packet_ids)
next
  case (ServerDisplay q)
  then show ?thesis
    using packet_reads [OF display_objective_packet.trait_codec_axioms, of q] assms
    by (auto simp: raw_of_def sb_decode_update_def packet_ids)
next
  case (ServerScore q)
  then show ?thesis
    using packet_reads [OF score_packet.trait_codec_axioms, of q] assms
    by (auto simp: raw_of_def sb_decode_update_def packet_ids)
next
  case (ServerReset q)
  then show ?thesis
    using packet_reads [OF reset_score_packet.trait_codec_axioms, of q] assms
    by (auto simp: raw_of_def sb_decode_update_def packet_ids)
next
  case (ServerTeams q)
  then show ?thesis
    using packet_reads [OF teams_packet.trait_codec_axioms, of q] assms
    by (auto simp: raw_of_def sb_decode_update_def packet_ids)
qed

lemma play_scoreboard_packets:
  "list_all server_packet_ok ps \<Longrightarrow>
    fold play_scoreboard (map raw_packet_of ps) s = fold (\<lambda>p s. snd (sb_apply s (update_of p))) ps s"
  by (induction ps arbitrary: s) (auto simp: play_scoreboard_def raw_packet_decodes)

text \<open>C2: The scoreboard of the server reaches the client. A server encodes any well-formed objective,
  display, score, reset and team packets and sends them; the network splits the bytes as it
  likes. The client's connection reads and decrypts them, the decoder takes the frames apart,
  the play loop decodes the payloads and applies the updates. The client's scoreboard is then
  the one the packets mean, applied in the order they were sent, with or without compression
  and encryption.\<close>

theorem scoreboard_reaches_the_client:
  assumes "list_all server_packet_ok ps" "zlib_lossless defl infl"
    and "list_all (sendable defl (cn_codec tx)) (map raw_packet_of ps)" "\<not> write_failed tx"
    and "cn_codec rx = cn_codec tx" "in_sync (cn_cipher tx) (cn_cipher rx)" "read_buf rx = []" "\<not> write_failed rx"
    and "send_all aes defl tx (map raw_packet_of ps) = (sent, tx')"
    and "concat chunks = sent" "list_all (\<lambda>bs. bs \<noteq> []) chunks"
  shows "fold play_scoreboard (fst (read_packets aes infl (length ps) rx (map Chunk chunks))) s =
    fold (\<lambda>p s. snd (sb_apply s (update_of p))) ps s"
  using packets_delivered [OF assms(2-11)] play_scoreboard_packets [OF assms(1)] by simp

definition sample_team :: packet_teams where
  "sample_team = \<lparr>tm_team = ''red'', tm_mode = 3, tm_name = SwitchDefault, tm_friendly_fire = SwitchDefault,
     tm_name_tag_visibility = SwitchDefault, tm_collision_rule = SwitchDefault, tm_formatting = SwitchDefault,
     tm_prefix = SwitchDefault, tm_suffix = SwitchDefault, tm_players = PlayersV3 [''a'']\<rparr>"

theorem scoreboard_reaches_the_client_witness:
  "\<exists>sent tx'. send_all (\<lambda>k iv. map2 (XOR) k iv) Some sample_conn [raw_packet_of (ServerTeams sample_team)] = (sent, tx') \<and>
    fold play_scoreboard (fst (read_packets (\<lambda>k iv. map2 (XOR) k iv) (\<lambda>bs cap. Some (take cap bs)) 1
      sample_conn (map Chunk (map (\<lambda>b. [b]) sent)))) default_scoreboard =
    snd (sb_apply default_scoreboard (UpTeam (TeamAddMembers ''red'' [''a''])))"
proof -
  let ?aes = "\<lambda>k iv. map2 (XOR) k iv" and ?infl = "\<lambda>bs cap. Some (take cap bs)" and ?p = "ServerTeams sample_team"
  obtain sent tx' where s: "send_all ?aes Some sample_conn (map raw_packet_of [?p]) = (sent, tx')"
    by fastforce
  have ok: "list_all server_packet_ok [?p]"
    by code_simp
  have z: "zlib_lossless Some ?infl"
    by (simp add: zlib_lossless_def)
  have p: "list_all (sendable Some (cn_codec sample_conn)) (map raw_packet_of [?p])"
    by code_simp
  have c: "concat (map (\<lambda>b. [b]) sent) = sent"
    by (induction sent) auto
  have u: "update_of ?p = UpTeam (TeamAddMembers ''red'' [''a''])"
    by code_simp
  have "fold play_scoreboard (fst (read_packets ?aes ?infl (length [?p]) sample_conn
      (map Chunk (map (\<lambda>b. [b]) sent)))) default_scoreboard =
      fold (\<lambda>p s. snd (sb_apply s (update_of p))) [?p] default_scoreboard"
    by (rule scoreboard_reaches_the_client [OF ok z p _ refl _ _ _ s c])
      (simp_all add: sample_conn_def in_sync_def new_cipher_def enable_encryption_def set_compression_def
        connect_with_timeouts_def list_all_iff)
  then show ?thesis
    using s u by auto
qed

end
